(* ===== verification/Prelude.thy ===== *)
theory Prelude
  imports
    Main
    "HOL-Library.Word"
    "HOL-Library.Char_ord"
    "HOL-Library.List_Lexorder"
    "HOL-Library.Product_Lexorder"
    "HOL-Library.Sublist"
    "HOL-Library.Multiset"
    "HOL-Library.Code_Target_Numeral"
begin

text \<open>
  What the components share: the theorem collections of the development, the result type of
  fallible Rust functions, the width-bounded integers, and the generic lemmas on lists, maps and
  options that the component proofs use.

  A Rust \<open>String\<close>, \<open>PathBuf\<close> or \<open>OsString\<close> is a list of bytes, a HOL \<open>string\<close>; the order of HOL's
  lists over the order of HOL's characters is then the byte-wise order of Rust's \<open>Ord for str\<close>.
  A Rust \<open>Result<T, E>\<close> is a sum, with \<open>Inl\<close> the error.  A timestamp (\<open>DateTime<Utc>\<close>) and a
  \<open>chrono::Duration\<close> are integers, counted in nanoseconds.
\<close>

named_theorems str_simps \<open>equations of the string and path operations\<close>
named_theorems inv_intros \<open>every operation keeps the invariant of its component\<close>
named_theorems tree_simps \<open>equations of the tree operations\<close>
named_theorems table_simps \<open>what a lookup returns after an operation on a table\<close>

type_synonym u32 = "32 word"
type_synonym timestamp = int
type_synonym duration = int

definition nanos_per_sec :: int where
  "nanos_per_sec = 1000000000"

definition dur_seconds :: "int \<Rightarrow> duration" where
  "dur_seconds n = n * nanos_per_sec"

definition dur_minutes :: "int \<Rightarrow> duration" where
  "dur_minutes n = dur_seconds (n * 60)"

definition dur_hours :: "int \<Rightarrow> duration" where
  "dur_hours n = dur_seconds (n * 3600)"

definition dur_days :: "int \<Rightarrow> duration" where
  "dur_days n = dur_seconds (n * 86400)"

lemmas dur_defs = dur_seconds_def dur_minutes_def dur_hours_def dur_days_def nanos_per_sec_def

text \<open>
  chrono's range checks, as its documentation states them: a \<open>Duration\<close> holds a 64-bit number of
  milliseconds and its constructors panic outside of that; a \<open>DateTime<Utc>\<close> lies between
  \<open>MIN_UTC\<close> and \<open>MAX_UTC\<close>, and subtracting a duration panics outside of that.  \<open>None\<close> is the panic.
\<close>

definition max_dur_millis :: int where
  "max_dur_millis = 9223372036854775807"

definition checked_seconds :: "int \<Rightarrow> duration option" where
  "checked_seconds n = (if \<bar>n * 1000\<bar> \<le> max_dur_millis then Some (dur_seconds n) else None)"

definition min_utc :: timestamp where
  "min_utc = - 8334601228800 * nanos_per_sec"

definition max_utc :: timestamp where
  "max_utc = 8210266876799 * nanos_per_sec + 999999999"

definition utc_minus :: "timestamp \<Rightarrow> duration \<Rightarrow> timestamp option" where
  "utc_minus t d = (if min_utc \<le> t - d \<and> t - d \<le> max_utc then Some (t - d) else None)"

text \<open>Rust's integer division rounds towards zero.\<close>

definition trunc_div :: "int \<Rightarrow> int \<Rightarrow> int" where
  "trunc_div a b = (let q = \<bar>a\<bar> div \<bar>b\<bar> in if (a < 0) = (b < 0) then q else - q)"

lemma trunc_div_nonneg [simp]: "0 \<le> a \<Longrightarrow> 0 < b \<Longrightarrow> trunc_div a b = a div b"
  by (simp add: trunc_div_def Let_def)

subsection \<open>Results\<close>

fun ok_of :: "'e + 'a \<Rightarrow> 'a option" where
  "ok_of (Inl e) = None"
| "ok_of (Inr a) = Some a"

fun bind_res :: "'e + 'a \<Rightarrow> ('a \<Rightarrow> 'e + 'b) \<Rightarrow> 'e + 'b" where
  "bind_res (Inl e) f = Inl e"
| "bind_res (Inr a) f = f a"

fun map_err :: "('e \<Rightarrow> 'f) \<Rightarrow> 'e + 'a \<Rightarrow> 'f + 'a" where
  "map_err g (Inl e) = Inl (g e)"
| "map_err g (Inr a) = Inr a"

lemma bind_res_cong [fundef_cong]:
  "m = m' \<Longrightarrow> (\<And>a. m' = Inr a \<Longrightarrow> f a = g a) \<Longrightarrow> bind_res m f = bind_res m' g"
  by (cases m') auto

lemma bind_res_assoc: "bind_res (bind_res m f) g = bind_res m (\<lambda>a. bind_res (f a) g)"
  by (cases m) auto

lemma bind_res_Inr: "bind_res m f = Inr b \<longleftrightarrow> (\<exists>a. m = Inr a \<and> f a = Inr b)"
  by (cases m) auto

lemma bind_res_Inl: "bind_res m f = Inl e \<longleftrightarrow> m = Inl e \<or> (\<exists>a. m = Inr a \<and> f a = Inl e)"
  by (cases m) auto

subsection \<open>Lists\<close>

lemma dropWhile_takeWhile_last: "takeWhile P (dropWhile (\<lambda>x. \<not> P x) xs) = [] \<longleftrightarrow> (\<forall>x \<in> set xs. \<not> P x)"
  by (induction xs) auto

lemma find_distinct_map:
  "distinct (map f xs) \<Longrightarrow> x \<in> set xs \<Longrightarrow> List.find (\<lambda>y. f y = f x) xs = Some x"
  by (induction xs) auto

lemma find_filter_ne: "List.find (\<lambda>y. f y = k) (filter (\<lambda>y. f y \<noteq> k') xs)
    = (if k = k' then None else List.find (\<lambda>y. f y = k) xs)"
  by (induction xs) auto

lemma find_append: "List.find P (xs @ ys)
    = (case List.find P xs of None \<Rightarrow> List.find P ys | Some x \<Rightarrow> Some x)"
  by (induction xs) auto

lemma find_Some_mem: "List.find P xs = Some x \<Longrightarrow> x \<in> set xs \<and> P x"
  by (induction xs) (auto split: if_splits)

lemma length_filter_ne: "length (filter P xs) < length xs \<longleftrightarrow> (\<exists>x \<in> set xs. \<not> P x)"
proof (induction xs)
  case (Cons a xs)
  have "length (filter P xs) \<le> length xs" by simp
  with Cons show ?case by (auto simp: less_Suc_eq_le)
qed simp

end
