(* ===== verification/Rust_Std.thy ===== *)
theory Rust_Std
  imports Prelude
begin

text \<open>
  The functions of Rust's standard library that the program uses on strings and on Unix paths:
  \<open>str::split\<close>, \<open>trim_end_matches\<close>, \<open>starts_with\<close>, \<open>ends_with\<close>, \<open>contains\<close>, \<open>trim\<close>, \<open>chars\<close>,
  UTF-8 validation and the lossy conversion of \<open>OsStr\<close>, \<open>Path::components\<close>, \<open>file_name\<close>,
  \<open>extension\<close>, \<open>join\<close> and \<open>with_file_name\<close>, the decimal output of integers, and
  \<open>slice::binary_search_by\<close> as the library implements it.
  The Unicode tables behind \<open>to_lowercase\<close>, \<open>to_uppercase\<close> and \<open>is_alphabetic\<close> are not
  reproduced: these functions are arguments of the definitions that use them.
\<close>

subsection \<open>Splitting and joining\<close>

fun split_on :: "'a \<Rightarrow> 'a list \<Rightarrow> 'a list list" where
  "split_on c [] = [[]]"
| "split_on c (x # xs) =
     (if x = c then [] # split_on c xs
      else (case split_on c xs of [] \<Rightarrow> [[x]] | w # ws \<Rightarrow> (x # w) # ws))"

fun join_with :: "string \<Rightarrow> string list \<Rightarrow> string" where
  "join_with sep [] = []"
| "join_with sep [w] = w"
| "join_with sep (w # v # ws) = w @ sep @ join_with sep (v # ws)"

definition slash :: char where
  "slash = CHR ''/''"

text \<open>The idiom \<open>path.split('/').filter(|s| !s.is_empty()).collect()\<close>.\<close>

definition path_parts :: "string \<Rightarrow> string list" where
  "path_parts p = filter (\<lambda>s. s \<noteq> []) (split_on slash p)"

lemma split_on_nonempty [simp]: "split_on c xs \<noteq> []"
  by (induction xs) (auto split: list.splits)

lemma split_on_no_sep: "w \<in> set (split_on c xs) \<Longrightarrow> c \<notin> set w"
  by (induction xs arbitrary: w) (auto split: list.splits if_splits)

lemma split_on_free: "c \<notin> set w \<Longrightarrow> split_on c w = [w]"
  by (induction w) auto

lemma split_on_append_sep: "split_on c (xs @ c # ys) = split_on c xs @ split_on c ys"
  by (induction xs) (auto split: list.splits)

lemma split_on_join:
  "\<forall>w \<in> set ws. c \<notin> set w \<Longrightarrow> split_on c (join_with [c] ws) = (if ws = [] then [[]] else ws)"
  by (induction "[c]" ws rule: join_with.induct) (auto simp: split_on_free split_on_append_sep)

lemma path_parts_wf [str_simps]: "w \<in> set (path_parts p) \<Longrightarrow> w \<noteq> [] \<and> slash \<notin> set w"
  by (auto simp: path_parts_def dest: split_on_no_sep)

definition valid_parts :: "string list \<Rightarrow> bool" where
  "valid_parts ws \<longleftrightarrow> (\<forall>w \<in> set ws. w \<noteq> [] \<and> slash \<notin> set w)"

lemma valid_parts_path_parts [simp, intro]: "valid_parts (path_parts p)"
  by (auto simp: valid_parts_def str_simps)

lemma valid_parts_append [simp]: "valid_parts (xs @ ys) \<longleftrightarrow> valid_parts xs \<and> valid_parts ys"
  by (auto simp: valid_parts_def)

lemma valid_parts_Cons [simp]: "valid_parts (x # ys) \<longleftrightarrow> x \<noteq> [] \<and> slash \<notin> set x \<and> valid_parts ys"
  by (auto simp: valid_parts_def)

lemma valid_parts_Nil [simp]: "valid_parts []"
  by (auto simp: valid_parts_def)

lemma valid_parts_take: "valid_parts ws \<Longrightarrow> valid_parts (take n ws)"
  by (auto simp: valid_parts_def dest: in_set_takeD)

lemma path_parts_join [str_simps]: "valid_parts ws \<Longrightarrow> path_parts (join_with [slash] ws) = ws"
  by (auto simp: path_parts_def split_on_join valid_parts_def intro: filter_True)

lemma path_parts_single [str_simps]: "w \<noteq> [] \<Longrightarrow> slash \<notin> set w \<Longrightarrow> path_parts w = [w]"
  by (simp add: path_parts_def split_on_free)

lemma path_parts_Nil [str_simps, simp]: "path_parts [] = []"
  by (simp add: path_parts_def)

lemma path_parts_append_slash [str_simps]:
  "path_parts (p @ slash # q) = path_parts p @ path_parts q"
  by (simp add: path_parts_def split_on_append_sep)

subsection \<open>Prefixes, suffixes, substrings\<close>

definition starts_with :: "string \<Rightarrow> string \<Rightarrow> bool" where
  "starts_with s p = prefix p s"

definition ends_with :: "string \<Rightarrow> string \<Rightarrow> bool" where
  "ends_with s p = suffix p s"

fun contains_str :: "string \<Rightarrow> string \<Rightarrow> bool" where
  "contains_str [] p = (p = [])"
| "contains_str (c # cs) p = (prefix p (c # cs) \<or> contains_str cs p)"

definition trim_end_char :: "char \<Rightarrow> string \<Rightarrow> string" where
  "trim_end_char c s = rev (dropWhile (\<lambda>x. x = c) (rev s))"

lemma contains_str_iff: "contains_str s p \<longleftrightarrow> (\<exists>u v. s = u @ p @ v)"
proof (induction s)
  case (Cons c cs)
  have "(\<exists>u v. c # cs = u @ p @ v) \<longleftrightarrow> prefix p (c # cs) \<or> (\<exists>u v. cs = u @ p @ v)"
  proof
    assume "\<exists>u v. c # cs = u @ p @ v"
    then obtain u v where "c # cs = u @ p @ v" by blast
    then show "prefix p (c # cs) \<or> (\<exists>u v. cs = u @ p @ v)"
      by (cases u) (auto simp: prefix_def)
  next
    assume "prefix p (c # cs) \<or> (\<exists>u v. cs = u @ p @ v)"
    then show "\<exists>u v. c # cs = u @ p @ v"
      by (metis append_Cons append_Nil prefix_def)
  qed
  with Cons show ?case by simp
qed simp

lemma trim_end_char_id: "s = [] \<or> last s \<noteq> c \<Longrightarrow> trim_end_char c s = s"
  by (cases s rule: rev_cases) (auto simp: trim_end_char_def)

lemma trim_end_char_append: "trim_end_char c (s @ [c]) = trim_end_char c s"
  by (simp add: trim_end_char_def)

subsection \<open>UTF-8\<close>

definition byte :: "char \<Rightarrow> nat" where
  "byte c = of_char c"

definition in_bytes :: "nat \<Rightarrow> nat \<Rightarrow> char \<Rightarrow> bool" where
  "in_bytes lo hi c = (lo \<le> byte c \<and> byte c \<le> hi)"

definition lead_width :: "char \<Rightarrow> nat" where
  "lead_width b =
     (if byte b < 0x80 then 1
      else if in_bytes 0xC2 0xDF b then 2
      else if in_bytes 0xE0 0xEF b then 3
      else if in_bytes 0xF0 0xF4 b then 4
      else 0)"

definition second_ok :: "char \<Rightarrow> char \<Rightarrow> bool" where
  "second_ok b c =
     (if byte b = 0xE0 then in_bytes 0xA0 0xBF c
      else if byte b = 0xED then in_bytes 0x80 0x9F c
      else if byte b = 0xF0 then in_bytes 0x90 0xBF c
      else if byte b = 0xF4 then in_bytes 0x80 0x8F c
      else in_bytes 0x80 0xBF c)"

text \<open>The next sequence: whether it is valid, and how many bytes it takes (for an invalid one, the
  bytes that the lossy conversion replaces together).\<close>

definition utf8_step :: "char \<Rightarrow> string \<Rightarrow> bool \<times> nat" where
  "utf8_step b r =
     (let w = lead_width b in
      if w = 0 then (False, 1) else if w = 1 then (True, 1)
      else (case r of
        [] \<Rightarrow> (False, 1)
      | c1 # r1 \<Rightarrow>
          if \<not> second_ok b c1 then (False, 1) else if w = 2 then (True, 2)
          else (case r1 of
            [] \<Rightarrow> (False, 2)
          | c2 # r2 \<Rightarrow>
              if \<not> in_bytes 0x80 0xBF c2 then (False, 2) else if w = 3 then (True, 3)
              else (case r2 of
                [] \<Rightarrow> (False, 3)
              | c3 # r3 \<Rightarrow> if in_bytes 0x80 0xBF c3 then (True, 4) else (False, 3)))))"

lemma utf8_step_pos: "0 < snd (utf8_step b r)"
  by (auto simp: utf8_step_def Let_def split: list.splits)

function utf8_chunks :: "string \<Rightarrow> (bool \<times> string) list" where
  "utf8_chunks [] = []"
| "utf8_chunks (c # cs) =
     (let (v, n) = utf8_step c cs
      in (v, take n (c # cs)) # utf8_chunks (drop n (c # cs)))"
  by pat_completeness auto
termination
proof (relation "measure length", simp)
  fix c cs and x :: "bool \<times> nat" and v n
  assume "x = utf8_step c cs" "(v, n) = x"
  then have "0 < n" using utf8_step_pos[of c cs] by (metis snd_conv)
  then show "(drop n (c # cs), c # cs) \<in> measure length" by simp
qed

definition utf8_valid :: "string \<Rightarrow> bool" where
  "utf8_valid s = list_all fst (utf8_chunks s)"

definition chars :: "string \<Rightarrow> string list" where
  "chars s = map snd (utf8_chunks s)"

definition replacement_char :: string where
  "replacement_char = [CHR 0xEF, CHR 0xBF, CHR 0xBD]"

definition to_string_lossy :: "string \<Rightarrow> string" where
  "to_string_lossy s = concat (map (\<lambda>(v, ch). if v then ch else replacement_char) (utf8_chunks s))"

definition to_str :: "string \<Rightarrow> string option" where
  "to_str s = (if utf8_valid s then Some s else None)"

lemma concat_chars [simp]: "concat (chars s) = s"
proof (induction s rule: utf8_chunks.induct)
  case (2 c cs)
  obtain v n where st: "utf8_step c cs = (v, n)" by (cases "utf8_step c cs") auto
  with 2[OF st[symmetric]] show ?case
    by (simp add: chars_def)
qed (simp add: chars_def)

lemma to_string_lossy_valid [simp]: "utf8_valid s \<Longrightarrow> to_string_lossy s = s"
proof -
  assume "utf8_valid s"
  then have "map (\<lambda>(v, ch). if v then ch else replacement_char) (utf8_chunks s) = chars s"
    by (auto simp: chars_def utf8_valid_def list_all_iff)
  then show ?thesis by (simp add: to_string_lossy_def)
qed

definition is_ascii :: "string \<Rightarrow> bool" where
  "is_ascii s = list_all (\<lambda>c. byte c < 0x80) s"

lemma utf8_chunks_ascii: "is_ascii s \<Longrightarrow> utf8_chunks s = map (\<lambda>c. (True, [c])) s"
  by (induction s) (auto simp: is_ascii_def utf8_step_def lead_width_def)

lemma utf8_valid_ascii [simp]: "is_ascii s \<Longrightarrow> utf8_valid s"
  by (simp add: utf8_valid_def utf8_chunks_ascii list_all_iff)

lemma chars_ascii: "is_ascii s \<Longrightarrow> chars s = map (\<lambda>c. [c]) s"
  by (simp add: chars_def utf8_chunks_ascii comp_def)

text \<open>The characters with the property \<open>White_Space\<close>, which \<open>str::trim\<close> removes.\<close>

definition white_space :: "string \<Rightarrow> bool" where
  "white_space ch = (ch \<in> set
     ([[CHR 0x09], [CHR 0x0A], [CHR 0x0B], [CHR 0x0C], [CHR 0x0D], [CHR 0x20],
       [CHR 0xC2, CHR 0x85], [CHR 0xC2, CHR 0xA0], [CHR 0xE1, CHR 0x9A, CHR 0x80],
       [CHR 0xE2, CHR 0x80, CHR 0x80], [CHR 0xE2, CHR 0x80, CHR 0x81], [CHR 0xE2, CHR 0x80, CHR 0x82],
       [CHR 0xE2, CHR 0x80, CHR 0x83], [CHR 0xE2, CHR 0x80, CHR 0x84], [CHR 0xE2, CHR 0x80, CHR 0x85],
       [CHR 0xE2, CHR 0x80, CHR 0x86], [CHR 0xE2, CHR 0x80, CHR 0x87], [CHR 0xE2, CHR 0x80, CHR 0x88],
       [CHR 0xE2, CHR 0x80, CHR 0x89], [CHR 0xE2, CHR 0x80, CHR 0x8A], [CHR 0xE2, CHR 0x80, CHR 0xA8],
       [CHR 0xE2, CHR 0x80, CHR 0xA9], [CHR 0xE2, CHR 0x80, CHR 0xAF], [CHR 0xE2, CHR 0x81, CHR 0x9F],
       [CHR 0xE3, CHR 0x80, CHR 0x80]]))"

definition str_trim :: "string \<Rightarrow> string" where
  "str_trim s = concat (rev (dropWhile white_space (rev (dropWhile white_space (chars s)))))"

subsection \<open>Unix paths\<close>

datatype path_comp = RootDir | CurDir | ParentDir | Normal string

fun comp_str :: "path_comp \<Rightarrow> string" where
  "comp_str RootDir = ''/''"
| "comp_str CurDir = ''.''"
| "comp_str ParentDir = ''..''"
| "comp_str (Normal s) = s"

definition is_absolute :: "string \<Rightarrow> bool" where
  "is_absolute p = starts_with p [slash]"

definition seg_comp :: "string \<Rightarrow> path_comp" where
  "seg_comp s = (if s = ''..'' then ParentDir else Normal s)"

definition components :: "string \<Rightarrow> path_comp list" where
  "components p =
     (if is_absolute p then [RootDir]
      else if hd (split_on slash p) = ''.'' then [CurDir] else [])
     @ map seg_comp (filter (\<lambda>s. s \<noteq> '''' \<and> s \<noteq> ''.'') (split_on slash p))"

definition file_name :: "string \<Rightarrow> string option" where
  "file_name p = (case rev (components p) of Normal s # _ \<Rightarrow> Some s | _ \<Rightarrow> None)"

text \<open>\<open>extension\<close>: the text after the last dot, unless there is no dot or only the leading one.\<close>

definition path_extension :: "string \<Rightarrow> string option" where
  "path_extension p =
     (case file_name p of
        None \<Rightarrow> None
      | Some f \<Rightarrow>
          (let segs = split_on (CHR ''.'') f in
           if length segs < 2 \<or> butlast segs = [[]] then None else Some (last segs)))"

definition join_path :: "string \<Rightarrow> string \<Rightarrow> string" where
  "join_path p q =
     (if is_absolute q then q
      else if p = [] \<or> last p = slash then p @ q
      else p @ [slash] @ q)"

fun comps_path :: "path_comp list \<Rightarrow> string" where
  "comps_path (RootDir # cs) = [slash] @ join_with [slash] (map comp_str cs)"
| "comps_path cs = join_with [slash] (map comp_str cs)"

definition with_file_name :: "string \<Rightarrow> string \<Rightarrow> string" where
  "with_file_name p n =
     (case file_name p of
        None \<Rightarrow> join_path p n
      | Some _ \<Rightarrow> join_path (comps_path (butlast (components p))) n)"

subsection \<open>Decimal output\<close>

fun show_nat :: "nat \<Rightarrow> string" where
  "show_nat n = (if n < 10 then [char_of (48 + n)] else show_nat (n div 10) @ [char_of (48 + n mod 10)])"

declare show_nat.simps [simp del]

definition show_int :: "int \<Rightarrow> string" where
  "show_int i = (if i < 0 then CHR ''-'' # show_nat (nat (- i)) else show_nat (nat i))"

definition is_digit :: "char \<Rightarrow> bool" where
  "is_digit c = (48 \<le> byte c \<and> byte c \<le> 57)"

fun digits_val :: "nat \<Rightarrow> string \<Rightarrow> nat" where
  "digits_val a [] = a"
| "digits_val a (c # cs) = digits_val (10 * a + (byte c - 48)) cs"

lemma digits_val_append: "digits_val a (xs @ ys) = digits_val (digits_val a xs) ys"
  by (induction xs arbitrary: a) auto

lemma byte_digit [simp]: "k < 10 \<Longrightarrow> byte (char_of (48 + k)) = 48 + k"
  by (simp add: byte_def)

lemma show_nat_digits: "list_all is_digit (show_nat n) \<and> show_nat n \<noteq> []"
proof (induction n rule: show_nat.induct)
  case (1 n)
  then show ?case by (cases "n < 10") (auto simp: show_nat.simps[of n] is_digit_def)
qed

lemma digits_val_show [simp]: "digits_val 0 (show_nat n) = n"
proof (induction n rule: show_nat.induct)
  case (1 n)
  then show ?case
    by (subst show_nat.simps) (auto simp: digits_val_append)
qed

text \<open>\<open>str::parse::<u32>\<close> and its kin: an optional plus sign, at least one digit, no overflow.\<close>

definition parse_unsigned :: "nat \<Rightarrow> string \<Rightarrow> nat option" where
  "parse_unsigned bound s =
     (let ds = (case s of c # cs \<Rightarrow> (if c = CHR ''+'' then cs else s) | [] \<Rightarrow> []) in
      if ds \<noteq> [] \<and> list_all is_digit ds \<and> digits_val 0 ds < bound
      then Some (digits_val 0 ds) else None)"

lemma parse_unsigned_show: "n < b \<Longrightarrow> parse_unsigned b (show_nat n) = Some n"
proof -
  assume "n < b"
  moreover obtain c cs where "show_nat n = c # cs" "is_digit c"
    using show_nat_digits[of n] by (cases "show_nat n") auto
  moreover have "\<not> is_digit (CHR ''+'')" by (simp add: is_digit_def byte_def)
  ultimately show ?thesis
    using show_nat_digits[of n] digits_val_show[of n] by (auto simp: parse_unsigned_def Let_def)
qed

end
