(* ===== verification/Events.thy ===== *)
theory Events
  imports Rust_Std
begin

text \<open>
  The event model of \<open>crates/ambient-fs-core/src/event.rs\<close>: the kinds and sources of filesystem
  events, their text forms, and the \<open>FileEvent\<close> record with its builder methods.  The clock
  (\<open>Utc::now()\<close>) is an argument of the definitions that read it.
\<close>

subsection \<open>The interface of a text form\<close>

text \<open>An enum with \<open>as_str\<close> and \<open>FromStr\<close>: parsing inverts printing, and accepts nothing else.\<close>

locale text_form =
  fixes as_str :: "'a \<Rightarrow> string"
    and from_str :: "string \<Rightarrow> 'e + 'a"
  assumes parse_print: "from_str (as_str a) = Inr a"
    and parse_sound: "from_str s = Inr a \<Longrightarrow> s = as_str a"
begin

lemma parse_iff: "from_str s = Inr a \<longleftrightarrow> s = as_str a"
  using parse_print parse_sound by auto

lemma print_inj: "as_str a = as_str b \<longleftrightarrow> a = b"
  using parse_print by (metis Inr_inject)

lemma parse_fails_iff: "(\<exists>e. from_str s = Inl e) \<longleftrightarrow> s \<notin> range as_str"
  using parse_print parse_sound by (metis Inl_Inr_False obj_sumE rangeE rangeI)

end

subsection \<open>Event types and sources\<close>

datatype event_type = Created | Modified | Deleted | Renamed

datatype source = User | AiAgent | Git | Build | Voice

datatype parse_error = InvalidEventType string | InvalidSource string

fun event_type_as_str :: "event_type \<Rightarrow> string" where
  "event_type_as_str Created = ''created''"
| "event_type_as_str Modified = ''modified''"
| "event_type_as_str Deleted = ''deleted''"
| "event_type_as_str Renamed = ''renamed''"

definition event_type_from_str :: "string \<Rightarrow> parse_error + event_type" where
  "event_type_from_str s =
     (if s = ''created'' then Inr Created
      else if s = ''modified'' then Inr Modified
      else if s = ''deleted'' then Inr Deleted
      else if s = ''renamed'' then Inr Renamed
      else Inl (InvalidEventType s))"

fun source_as_str :: "source \<Rightarrow> string" where
  "source_as_str User = ''user''"
| "source_as_str AiAgent = ''ai_agent''"
| "source_as_str Git = ''git''"
| "source_as_str Build = ''build''"
| "source_as_str Voice = ''voice''"

definition source_from_str :: "string \<Rightarrow> parse_error + source" where
  "source_from_str s =
     (if s = ''user'' then Inr User
      else if s = ''ai_agent'' then Inr AiAgent
      else if s = ''git'' then Inr Git
      else if s = ''build'' then Inr Build
      else if s = ''voice'' then Inr Voice
      else Inl (InvalidSource s))"

definition source_default :: source where
  "source_default = User"

interpretation event_type_text: text_form event_type_as_str event_type_from_str
proof
  show "event_type_from_str (event_type_as_str a) = Inr a" for a
    by (cases a) (simp_all add: event_type_from_str_def)
  show "event_type_from_str s = Inr a \<Longrightarrow> s = event_type_as_str a" for s a
    by (auto simp: event_type_from_str_def split: if_splits)
qed

interpretation source_text: text_form source_as_str source_from_str
proof
  show "source_from_str (source_as_str a) = Inr a" for a
    by (cases a) (simp_all add: source_from_str_def)
  show "source_from_str s = Inr a \<Longrightarrow> s = source_as_str a" for s a
    by (auto simp: source_from_str_def split: if_splits)
qed

subsection \<open>File events\<close>

record file_event =
  ev_timestamp :: timestamp
  ev_type :: event_type
  ev_file_path :: string
  ev_project_id :: string
  ev_source :: source
  ev_source_id :: "string option"
  ev_machine_id :: string
  ev_content_hash :: "string option"
  ev_old_path :: "string option"

definition file_event_new ::
  "timestamp \<Rightarrow> event_type \<Rightarrow> string \<Rightarrow> string \<Rightarrow> string \<Rightarrow> file_event" where
  "file_event_new now et path pid mid =
     \<lparr>ev_timestamp = now, ev_type = et, ev_file_path = path, ev_project_id = pid,
      ev_source = source_default, ev_source_id = None, ev_machine_id = mid,
      ev_content_hash = None, ev_old_path = None\<rparr>"

definition with_source :: "source \<Rightarrow> file_event \<Rightarrow> file_event" where
  "with_source s e = e\<lparr>ev_source := s\<rparr>"

definition with_source_id :: "string \<Rightarrow> file_event \<Rightarrow> file_event" where
  "with_source_id s e = e\<lparr>ev_source_id := Some s\<rparr>"

definition with_content_hash :: "string \<Rightarrow> file_event \<Rightarrow> file_event" where
  "with_content_hash h e = e\<lparr>ev_content_hash := Some h\<rparr>"

definition with_old_path :: "string \<Rightarrow> file_event \<Rightarrow> file_event" where
  "with_old_path p e = e\<lparr>ev_old_path := Some p\<rparr>"

definition with_timestamp :: "timestamp \<Rightarrow> file_event \<Rightarrow> file_event" where
  "with_timestamp t e = e\<lparr>ev_timestamp := t\<rparr>"

definition is_rename :: "file_event \<Rightarrow> bool" where
  "is_rename e = (ev_type e = Renamed \<and> ev_old_path e \<noteq> None)"

lemmas event_builder_defs = file_event_new_def with_source_def with_source_id_def
  with_content_hash_def with_old_path_def with_timestamp_def source_default_def

end
