(* ===== verification/Core_Awareness.thy ===== *)
theory Core_Awareness
  imports Events
begin

text \<open>
  The data of \<open>crates/ambient-fs-core/src/awareness.rs\<close> and \<open>analysis.rs\<close>: how recently a file
  changed, the aggregated awareness record with its relative time, and the analysis record.
  Counters are \<open>u32\<close>.
\<close>

subsection \<open>Change frequency\<close>

datatype change_frequency = Hot | Warm | Cold

definition from_age :: "timestamp \<Rightarrow> timestamp \<Rightarrow> change_frequency" where
  "from_age last_modified now =
     (let age = now - last_modified in
      if age < dur_minutes 10 then Hot
      else if age < dur_hours 1 then Warm
      else Cold)"

fun change_frequency_as_str :: "change_frequency \<Rightarrow> string" where
  "change_frequency_as_str Hot = ''hot''"
| "change_frequency_as_str Warm = ''warm''"
| "change_frequency_as_str Cold = ''cold''"

text \<open>The classes in the order of the ages they stand for.\<close>

instantiation change_frequency :: linorder
begin

fun less_eq_change_frequency :: "change_frequency \<Rightarrow> change_frequency \<Rightarrow> bool" where
  "less_eq_change_frequency Hot _ = True"
| "less_eq_change_frequency Warm f = (f \<noteq> Hot)"
| "less_eq_change_frequency Cold f = (f = Cold)"

definition less_change_frequency :: "change_frequency \<Rightarrow> change_frequency \<Rightarrow> bool" where
  "less_change_frequency f g = (f \<le> g \<and> f \<noteq> g)"

instance
proof
  fix f g h :: change_frequency
  show "f \<le> f" by (cases f) auto
  show "f \<le> g \<Longrightarrow> g \<le> h \<Longrightarrow> f \<le> h" by (cases f; cases g; cases h) auto
  show anti: "f \<le> g \<Longrightarrow> g \<le> f \<Longrightarrow> f = g" by (cases f; cases g) auto
  show "f < g \<longleftrightarrow> f \<le> g \<and> \<not> g \<le> f"
    by (cases f; cases g) (auto simp: less_change_frequency_def)
  show "f \<le> g \<or> g \<le> f" by (cases f; cases g) auto
qed

end

subsection \<open>File awareness\<close>

record file_awareness =
  aw_file_path :: string
  aw_project_id :: string
  aw_last_modified :: timestamp
  aw_modified_by :: source
  aw_modified_by_label :: "string option"
  aw_active_agent :: "string option"
  aw_chat_references :: u32
  aw_todo_count :: u32
  aw_lint_hints :: u32
  aw_line_count :: u32
  aw_change_frequency :: change_frequency

definition from_event_minimal ::
  "timestamp \<Rightarrow> string \<Rightarrow> string \<Rightarrow> timestamp \<Rightarrow> source \<Rightarrow> file_awareness" where
  "from_event_minimal now path pid modified_at src =
     \<lparr>aw_file_path = path, aw_project_id = pid, aw_last_modified = modified_at,
      aw_modified_by = src, aw_modified_by_label = None, aw_active_agent = None,
      aw_chat_references = 0, aw_todo_count = 0, aw_lint_hints = 0, aw_line_count = 0,
      aw_change_frequency = from_age modified_at now\<rparr>"

text \<open>\<open>num_seconds\<close> drops the fraction, towards zero.\<close>

definition age_secs :: "timestamp \<Rightarrow> file_awareness \<Rightarrow> int" where
  "age_secs now a = trunc_div (now - aw_last_modified a) nanos_per_sec"

definition relative_time :: "timestamp \<Rightarrow> file_awareness \<Rightarrow> string" where
  "relative_time now a =
     (let secs = age_secs now a in
      if secs < 60 then show_int secs @ ''s''
      else if secs < 3600 then show_int (trunc_div secs 60) @ ''m''
      else if secs < 86400 then show_int (trunc_div secs 3600) @ ''h''
      else show_int (trunc_div secs 86400) @ ''d'')"

definition refresh_frequency :: "timestamp \<Rightarrow> file_awareness \<Rightarrow> file_awareness" where
  "refresh_frequency now a = a\<lparr>aw_change_frequency := from_age (aw_last_modified a) now\<rparr>"

lemma from_age_mono: "t \<le> s \<Longrightarrow> from_age s now \<le> from_age t now"
  by (auto simp: from_age_def Let_def dur_defs)

lemma refresh_frequency_idem: "refresh_frequency now (refresh_frequency now a) = refresh_frequency now a"
  by (simp add: refresh_frequency_def)

subsection \<open>File analysis\<close>

datatype lint_severity = SevInfo | SevWarning | SevError

fun lint_severity_as_str :: "lint_severity \<Rightarrow> string" where
  "lint_severity_as_str SevInfo = ''info''"
| "lint_severity_as_str SevWarning = ''warning''"
| "lint_severity_as_str SevError = ''error''"

record import_ref =
  imp_path :: string
  imp_symbols :: "string list"
  imp_line :: u32

record lint_hint =
  lh_line :: u32
  lh_column :: u32
  lh_severity :: lint_severity
  lh_message :: string
  lh_rule :: "string option"

record file_analysis =
  an_file_path :: string
  an_project_id :: string
  an_content_hash :: string
  an_exports :: "string list"
  an_imports :: "import_ref list"
  an_todo_count :: u32
  an_lint_hints :: "lint_hint list"
  an_line_count :: u32

definition file_analysis_empty :: "string \<Rightarrow> string \<Rightarrow> string \<Rightarrow> file_analysis" where
  "file_analysis_empty path pid hash =
     \<lparr>an_file_path = path, an_project_id = pid, an_content_hash = hash, an_exports = [],
      an_imports = [], an_todo_count = 0, an_lint_hints = [], an_line_count = 0\<rparr>"

definition is_valid_for :: "file_analysis \<Rightarrow> string \<Rightarrow> bool" where
  "is_valid_for a hash = (an_content_hash a = hash)"

subsection \<open>Properties\<close>

definition unit_secs :: "char \<Rightarrow> int" where
  "unit_secs u = (if u = CHR ''s'' then 1 else if u = CHR ''m'' then 60
                  else if u = CHR ''h'' then 3600 else 86400)"

lemma relative_time_reads:
  assumes "0 \<le> now - aw_last_modified a"
  obtains n u where "relative_time now a = show_nat n @ [u]" "u \<in> set ''smhd''"
    "int n * unit_secs u \<le> age_secs now a" "age_secs now a < (int n + 1) * unit_secs u"
    "u \<noteq> CHR ''d'' \<longrightarrow> n < 60"
proof -
  let ?s = "age_secs now a"
  have s: "0 \<le> ?s"
    using assms by (cases "now - aw_last_modified a = 0")
      (auto simp: age_secs_def nanos_per_sec_def pos_imp_zdiv_nonneg_iff)
  consider "?s < 60" | "60 \<le> ?s" "?s < 3600" | "3600 \<le> ?s" "?s < 86400" | "86400 \<le> ?s" by linarith
  then show thesis
  proof cases
    case 1
    with s show thesis
      by (intro that[of "nat ?s" "CHR ''s''"]) (auto simp: relative_time_def Let_def show_int_def unit_secs_def)
  next
    case 2
    with s show thesis
      by (intro that[of "nat (?s div 60)" "CHR ''m''"])
        (auto simp: relative_time_def Let_def show_int_def unit_secs_def pos_imp_zdiv_neg_iff)
  next
    case 3
    with s show thesis
      by (intro that[of "nat (?s div 3600)" "CHR ''h''"])
        (auto simp: relative_time_def Let_def show_int_def unit_secs_def pos_imp_zdiv_neg_iff)
  next
    case 4
    with s show thesis
      by (intro that[of "nat (?s div 86400)" "CHR ''d''"])
        (auto simp: relative_time_def Let_def show_int_def unit_secs_def pos_imp_zdiv_neg_iff)
  qed
qed

end
