(* ===== verification/Path_Filter.thy ===== *)
theory Path_Filter
  imports Rust_Std
begin

text \<open>
  The ignore filter of \<open>crates/ambient-fs-core/src/filter.rs\<close>: a path is ignored when one of its
  components matches one of the patterns (an exact name, \<open>*suffix\<close> or \<open>prefix*\<close>).
\<close>

record path_filter =
  ignore_patterns :: "string list"
  max_file_size :: nat

definition path_filter_new :: "string list \<Rightarrow> nat \<Rightarrow> path_filter" where
  "path_filter_new ps n = \<lparr>ignore_patterns = ps, max_file_size = n\<rparr>"

definition star :: char where
  "star = CHR ''*''"

definition matches_component :: "string \<Rightarrow> string \<Rightarrow> bool" where
  "matches_component component pattern =
     (let p = trim_end_char slash pattern in
      if starts_with p [star] \<and> 1 < length p then ends_with component (tl p)
      else if ends_with p [star] \<and> 1 < length p then starts_with component (butlast p)
      else component = p)"

definition should_ignore :: "path_filter \<Rightarrow> string \<Rightarrow> bool" where
  "should_ignore f path =
     list_ex (\<lambda>c. list_ex (matches_component (to_string_lossy (comp_str c))) (ignore_patterns f))
       (components path)"

definition exceeds_max_size :: "path_filter \<Rightarrow> nat \<Rightarrow> bool" where
  "exceeds_max_size f sz = (max_file_size f < sz)"

definition path_filter_default :: path_filter where
  "path_filter_default = path_filter_new
     [''.git'', ''node_modules'', ''target'', ''dist'', ''.next'', ''__pycache__'', ''.DS_Store'',
      ''*.swp'', ''*.tmp'', ''*.pyc''] (10 * 1024 * 1024)"

lemma split_hd_append: "hd (split_on c (xs @ c # ys)) = hd (split_on c xs)"
  by (simp add: split_on_append_sep)

lemma components_append:
  assumes "p \<noteq> []" "\<not> is_absolute q" "hd (split_on slash q) \<noteq> ''.''"
  shows "components (p @ slash # q) = components p @ components q"
proof -
  have "is_absolute (p @ slash # q) = is_absolute p"
    using assms(1) by (cases p) (auto simp: is_absolute_def starts_with_def)
  then show ?thesis
    using assms by (simp add: components_def split_hd_append split_on_append_sep)
qed

lemma set_components_mono:
  assumes "p \<noteq> []"
  shows "set (components p) \<subseteq> set (components (p @ slash # q))"
proof -
  have "is_absolute (p @ slash # q) = is_absolute p"
    using assms by (cases p) (auto simp: is_absolute_def starts_with_def)
  then show ?thesis
    by (auto simp: components_def split_hd_append split_on_append_sep)
qed

lemma should_ignore_mono: "p \<noteq> [] \<Longrightarrow> should_ignore f p \<Longrightarrow> should_ignore f (p @ slash # q)"
  using set_components_mono[of p q] by (auto simp: should_ignore_def list_ex_iff)

end
