(* ===== verification/Binary_Search.thy ===== *)
theory Binary_Search
  imports Prelude
begin

text \<open>
  \<open>slice::binary_search_by\<close> as the standard library implements it: the search window is halved
  while it holds more than one element, then its one element decides.  \<open>Inr i\<close> is \<open>Ok(i)\<close>, \<open>Inl i\<close>
  is \<open>Err(i)\<close>, the insertion point.  The clients use only the contract that the library documents,
  stated by the locale below and proved for this implementation.
\<close>

locale position_search =
  fixes search :: "('a \<Rightarrow> 'k :: linorder) \<Rightarrow> 'k \<Rightarrow> 'a list \<Rightarrow> nat + nat"
  assumes search_found: "sorted (map key xs) \<Longrightarrow> search key k xs = Inr i
      \<Longrightarrow> i < length xs \<and> key (xs ! i) = k"
    and search_missing: "sorted (map key xs) \<Longrightarrow> search key k xs = Inl i
      \<Longrightarrow> i \<le> length xs \<and> (\<forall>x \<in> set (take i xs). key x < k) \<and> (\<forall>x \<in> set (drop i xs). k < key x)"
begin

abbreviation insert_pos :: "('a \<Rightarrow> 'k) \<Rightarrow> 'k \<Rightarrow> 'a list \<Rightarrow> nat" where
  "insert_pos key k xs \<equiv> (case search key k xs of Inl i \<Rightarrow> i | Inr i \<Rightarrow> i)"

lemma insert_pos_bounds:
  assumes "sorted (map key xs)"
  shows "insert_pos key k xs \<le> length xs"
    and "x \<in> set (take (insert_pos key k xs) xs) \<Longrightarrow> key x \<le> k"
    and "x \<in> set (drop (insert_pos key k xs) xs) \<Longrightarrow> k \<le> key x"
proof -
  let ?p = "insert_pos key k xs"
  have *: "?p \<le> length xs \<and> (\<forall>x \<in> set (take ?p xs). key x \<le> k) \<and> (\<forall>x \<in> set (drop ?p xs). k \<le> key x)"
  proof (cases "search key k xs")
    case (Inl i)
    with search_missing[OF assms this] show ?thesis by (auto intro: less_imp_le)
  next
    case (Inr i)
    with search_found[OF assms this] have i: "i < length xs" "key (xs ! i) = k" by auto
    have "key x \<le> k" if "x \<in> set (take i xs)" for x
      using that i sorted_nth_mono[OF assms, of _ i] by (auto simp: in_set_conv_nth)
    moreover have "k \<le> key x" if "x \<in> set (drop i xs)" for x
      using that i sorted_nth_mono[OF assms, of i] by (auto simp: in_set_conv_nth)
    ultimately show ?thesis using i Inr by simp
  qed
  then show "?p \<le> length xs"
    and "x \<in> set (take ?p xs) \<Longrightarrow> key x \<le> k"
    and "x \<in> set (drop ?p xs) \<Longrightarrow> k \<le> key x"
    by auto
qed

lemma insert_pos_sorted:
  assumes s: "sorted (map key xs)" and k: "k = key a"
  shows "sorted (map key (take (insert_pos key k xs) xs @ a # drop (insert_pos key k xs) xs))"
proof -
  let ?p = "insert_pos key k xs"
  have "sorted (map key (take ?p xs))" "sorted (map key (drop ?p xs))"
    using s by (simp_all add: sorted_wrt_take sorted_wrt_drop flip: take_map drop_map)
  moreover have "key x \<le> key a" if "x \<in> set (take ?p xs)" for x
    using insert_pos_bounds(2)[OF s that] k by simp
  moreover have "key a \<le> key x" if "x \<in> set (drop ?p xs)" for x
    using insert_pos_bounds(3)[OF s that] k by simp
  ultimately show ?thesis
    by (auto simp: sorted_append intro: order_trans)
qed

end

subsection \<open>The implementation\<close>

function bs_base :: "('a \<Rightarrow> 'k :: linorder) \<Rightarrow> 'k \<Rightarrow> 'a list \<Rightarrow> nat \<Rightarrow> nat \<Rightarrow> nat" where
  "bs_base key k xs base n =
     (if n \<le> 1 then base
      else (let half = n div 2; mid = base + half in
            bs_base key k xs (if k < key (xs ! mid) then base else mid) (n - half)))"
  by pat_completeness auto
termination
  by (relation "measure (\<lambda>(key, k, xs, base, n). n)") auto

declare bs_base.simps [simp del]

definition binary_search_by :: "('a \<Rightarrow> 'k :: linorder) \<Rightarrow> 'k \<Rightarrow> 'a list \<Rightarrow> nat + nat" where
  "binary_search_by key k xs =
     (if xs = [] then Inl 0
      else (let base = bs_base key k xs 0 (length xs) in
            if key (xs ! base) = k then Inr base
            else Inl (base + (if key (xs ! base) < k then 1 else 0))))"

definition bs_window :: "('a \<Rightarrow> 'k :: linorder) \<Rightarrow> 'k \<Rightarrow> 'a list \<Rightarrow> nat \<Rightarrow> nat \<Rightarrow> bool" where
  "bs_window key k xs base n \<longleftrightarrow> 1 \<le> n \<and> base + n \<le> length xs \<and>
     (base = 0 \<or> key (xs ! base) \<le> k) \<and> (base + n = length xs \<or> k < key (xs ! (base + n)))"

lemma bs_base_window:
  assumes "sorted (map key xs)" "bs_window key k xs base n"
  shows "bs_window key k xs (bs_base key k xs base n) 1"
  using assms
proof (induction key k xs base n rule: bs_base.induct)
  case (1 key k xs base n)
  show ?case
  proof (cases "n \<le> 1")
    case True
    with 1 have "n = 1" by (simp add: bs_window_def)
    with 1 show ?thesis by (simp add: bs_base.simps)
  next
    case False
    let ?h = "n div 2"
    let ?b = "if k < key (xs ! (base + ?h)) then base else base + ?h"
    have n: "1 \<le> n - ?h" "?h \<le> n" "?h \<le> n - ?h" using False by auto
    have "bs_window key k xs ?b (n - ?h)"
    proof (cases "k < key (xs ! (base + ?h))")
      case False
      with "1.prems"(2) n show ?thesis by (auto simp: bs_window_def)
    next
      case True
      have "k < key (xs ! (base + (n - ?h)))" if "base + (n - ?h) < length xs"
      proof -
        have "base + ?h \<le> base + (n - ?h)" using n by linarith
        from sorted_nth_mono[OF "1.prems"(1) this] that
        have "key (xs ! (base + ?h)) \<le> key (xs ! (base + (n - ?h)))" by (simp del: add_diff_assoc)
        with True show ?thesis by simp
      qed
      then have "base + (n - ?h) = length xs \<or> k < key (xs ! (base + (n - ?h)))"
        using "1.prems"(2) n by (cases "base + (n - ?h) < length xs") (auto simp: bs_window_def)
      moreover have "base + (n - ?h) \<le> length xs"
        using "1.prems"(2) unfolding bs_window_def by linarith
      ultimately show ?thesis using True "1.prems"(2) n by (simp add: bs_window_def)
    qed
    from "1.IH"[OF False refl refl "1.prems"(1) this]
    show ?thesis using False by (subst bs_base.simps) (simp add: Let_def)
  qed
qed

interpretation std: position_search binary_search_by
proof
  fix key :: "'a \<Rightarrow> 'k :: linorder" and xs k i
  assume s: "sorted (map key xs)"
  define b where "b = bs_base key k xs 0 (length xs)"
  have w: "bs_window key k xs b 1" if "xs \<noteq> []"
    unfolding b_def using that by (intro bs_base_window s) (simp add: bs_window_def Suc_le_eq)
  {
    assume "binary_search_by key k xs = Inr i"
    with w show "i < length xs \<and> key (xs ! i) = k"
      by (auto simp: binary_search_by_def bs_window_def b_def Let_def split: if_splits)
  next
    assume i: "binary_search_by key k xs = Inl i"
    show "i \<le> length xs \<and> (\<forall>x \<in> set (take i xs). key x < k) \<and> (\<forall>x \<in> set (drop i xs). k < key x)"
    proof (cases "xs = []")
      case False
      with w i have b: "b < length xs" "b = 0 \<or> key (xs ! b) \<le> k" "key (xs ! b) \<noteq> k"
          "b + 1 = length xs \<or> k < key (xs ! (b + 1))"
          "i = b + (if key (xs ! b) < k then 1 else 0)"
        by (auto simp: binary_search_by_def bs_window_def b_def Let_def split: if_splits)
      have mono: "key (xs ! u) \<le> key (xs ! v)" if "u \<le> v" "v < length xs" for u v
        using sorted_nth_mono[OF s that(1)] that by simp
      show ?thesis
      proof (cases "key (xs ! b) < k")
        case True
        have "key x < k" if "x \<in> set (take i xs)" for x
          using that b(1,5) True mono[of _ b]
          by (fastforce simp: in_set_conv_nth less_Suc_eq_le intro: le_less_trans)
        moreover have "k < key x" if "x \<in> set (drop i xs)" for x
          using that b(1,4,5) True mono[of i]
          by (auto simp: in_set_conv_nth intro: less_le_trans)
        ultimately show ?thesis using b True by auto
      next
        case False
        then have "b = 0" "i = 0" "k < key (xs ! 0)" using b by auto
        moreover have "k < key x" if "x \<in> set xs" for x
          using that \<open>k < key (xs ! 0)\<close> mono[of 0] by (auto simp: in_set_conv_nth intro: less_le_trans)
        ultimately show ?thesis by auto
      qed
    qed (use i in \<open>simp add: binary_search_by_def\<close>)
  }
qed

end
