(* ===== verification/File_Tree.thy ===== *)
theory File_Tree
  imports Rust_Std Binary_Search
begin

text \<open>
  The file tree of \<open>crates/ambient-fs-core/src/tree.rs\<close>: nodes with children kept in display order
  (directories first, then by lower-cased name), and the path operations on them.  The argument
  \<open>lc\<close> is \<open>str::to_lowercase\<close>, any function on strings.  An operation that the code performs on
  \<open>&mut TreeNode\<close> returns its boolean and the new tree.
\<close>

datatype tree_node =
  TreeNode (tn_name: string) (tn_path: string) (tn_is_dir: bool) (tn_children: "tree_node list")

definition tree_file :: "string \<Rightarrow> string \<Rightarrow> tree_node" where
  "tree_file name path = TreeNode name path False []"

definition tree_dir :: "string \<Rightarrow> string \<Rightarrow> tree_node" where
  "tree_dir name path = TreeNode name path True []"

definition node_key :: "(string \<Rightarrow> string) \<Rightarrow> tree_node \<Rightarrow> bool \<times> string" where
  "node_key lc n = (\<not> tn_is_dir n, lc (tn_name n))"

text \<open>\<open>sort_by\<close> is a stable sort.\<close>

fun sort_recursive :: "(string \<Rightarrow> string) \<Rightarrow> tree_node \<Rightarrow> tree_node" where
  "sort_recursive lc (TreeNode n p d cs) =
     TreeNode n p d (map (sort_recursive lc) (sort_key (node_key lc) cs))"

definition insert_sorted :: "(string \<Rightarrow> string) \<Rightarrow> tree_node list \<Rightarrow> tree_node \<Rightarrow> tree_node list" where
  "insert_sorted lc cs node =
     (let pos = (case binary_search_by (node_key lc) (node_key lc node) cs of Inl p \<Rightarrow> p | Inr p \<Rightarrow> p)
      in take pos cs @ node # drop pos cs)"

definition build_path :: "string \<Rightarrow> nat \<Rightarrow> string" where
  "build_path full_path remaining =
     (let all_parts = path_parts full_path
      in join_with [slash] (take (length all_parts - remaining + 1) all_parts))"

text \<open>The first child of a name, and its replacement by the node that the recursive call left.\<close>

definition child_named :: "string \<Rightarrow> tree_node list \<Rightarrow> tree_node option" where
  "child_named name cs = List.find (\<lambda>c. tn_name c = name) cs"

fun replace_child :: "string \<Rightarrow> tree_node \<Rightarrow> tree_node list \<Rightarrow> tree_node list" where
  "replace_child name x [] = []"
| "replace_child name x (c # cs) = (if tn_name c = name then x # cs else c # replace_child name x cs)"

fun add_node_recursive ::
  "(string \<Rightarrow> string) \<Rightarrow> tree_node \<Rightarrow> string list \<Rightarrow> string \<Rightarrow> bool \<Rightarrow> bool \<times> tree_node" where
  "add_node_recursive lc parent [] full_path is_dir = (False, parent)"
| "add_node_recursive lc (TreeNode n p d cs) (name # rest) full_path is_dir =
     (case child_named name cs of
        Some existing \<Rightarrow>
          if rest = [] then (False, TreeNode n p d cs)
          else (let (b, existing') = add_node_recursive lc existing rest full_path is_dir
                in (b, TreeNode n p d (replace_child name existing' cs)))
      | None \<Rightarrow>
          if rest = [] then
            (True, TreeNode n p d (insert_sorted lc cs
               (if is_dir then tree_dir name full_path else tree_file name full_path)))
          else
            (let dir_node = tree_dir name (build_path full_path (length (name # rest)));
                 (b, dir_node') = add_node_recursive lc dir_node rest full_path is_dir
             in (b, TreeNode n p d (insert_sorted lc cs dir_node'))))"

definition add_node ::
  "(string \<Rightarrow> string) \<Rightarrow> tree_node \<Rightarrow> string \<Rightarrow> bool \<Rightarrow> bool \<times> tree_node" where
  "add_node lc root file_path is_dir =
     (let parts = path_parts file_path in
      if parts = [] then (False, root) else add_node_recursive lc root parts file_path is_dir)"

fun remove_node_recursive :: "tree_node \<Rightarrow> string list \<Rightarrow> bool \<times> tree_node" where
  "remove_node_recursive parent [] = (False, parent)"
| "remove_node_recursive (TreeNode n p d cs) (name # rest) =
     (if rest = [] then
        (let cs' = filter (\<lambda>c. tn_name c \<noteq> name) cs
         in (length cs' < length cs, TreeNode n p d cs'))
      else (case child_named name cs of
          Some child \<Rightarrow>
            (let (b, child') = remove_node_recursive child rest
             in (b, TreeNode n p d (replace_child name child' cs)))
        | None \<Rightarrow> (False, TreeNode n p d cs)))"

definition remove_node :: "tree_node \<Rightarrow> string \<Rightarrow> bool \<times> tree_node" where
  "remove_node root file_path =
     (let parts = path_parts file_path in
      if parts = [] then (False, root) else remove_node_recursive root parts)"

definition rename_node ::
  "(string \<Rightarrow> string) \<Rightarrow> tree_node \<Rightarrow> string \<Rightarrow> string \<Rightarrow> bool \<Rightarrow> bool \<times> tree_node" where
  "rename_node lc root old_path new_path is_dir =
     (let (removed, root') = remove_node root old_path in
      if \<not> removed then (False, root') else add_node lc root' new_path is_dir)"

fun find_node_recursive :: "tree_node \<Rightarrow> string list \<Rightarrow> tree_node option" where
  "find_node_recursive parent [] = Some parent"
| "find_node_recursive (TreeNode n p d cs) (name # rest) =
     (case child_named name cs of
        None \<Rightarrow> None
      | Some child \<Rightarrow> if rest = [] then Some child else find_node_recursive child rest)"

definition find_node :: "tree_node \<Rightarrow> string \<Rightarrow> tree_node option" where
  "find_node root file_path = find_node_recursive root (path_parts file_path)"

subsection \<open>Children by name\<close>

lemma tree_constructors [simp]:
  "tn_name (tree_file n p) = n" "tn_path (tree_file n p) = p"
  "tn_is_dir (tree_file n p) = False" "tn_children (tree_file n p) = []"
  "tn_name (tree_dir n p) = n" "tn_path (tree_dir n p) = p"
  "tn_is_dir (tree_dir n p) = True" "tn_children (tree_dir n p) = []"
  by (simp_all add: tree_file_def tree_dir_def)

lemma child_named_Nil [simp]: "child_named m [] = None"
  by (simp add: child_named_def)

lemma child_named_Some: "child_named m cs = Some c \<Longrightarrow> c \<in> set cs \<and> tn_name c = m"
  by (auto simp: child_named_def dest: find_Some_mem)

lemma child_named_None: "child_named m cs = None \<longleftrightarrow> m \<notin> tn_name ` set cs"
  by (auto simp: child_named_def find_None_iff)

lemma child_named_filter [tree_simps]:
  "child_named m (filter (\<lambda>c. tn_name c \<noteq> name) cs) = (if m = name then None else child_named m cs)"
  by (simp add: child_named_def find_filter_ne)

lemma child_named_replace [tree_simps]:
  "tn_name x = name \<Longrightarrow> child_named m (replace_child name x cs)
     = (if m = name then map_option (\<lambda>_. x) (child_named name cs) else child_named m cs)"
  by (induction cs) (auto simp: child_named_def)

lemma child_named_append:
  "child_named m (xs @ ys) = (case child_named m xs of None \<Rightarrow> child_named m ys | Some c \<Rightarrow> Some c)"
  unfolding child_named_def by (rule find_append)

lemma child_named_insert [tree_simps]:
  assumes "child_named (tn_name x) cs = None"
  shows "child_named m (insert_sorted lc cs x) = (if m = tn_name x then Some x else child_named m cs)"
proof -
  let ?p = "case binary_search_by (node_key lc) (node_key lc x) cs of Inl p \<Rightarrow> p | Inr p \<Rightarrow> p"
  have "child_named m (x # ys) = (if m = tn_name x then Some x else child_named m ys)" for ys
    by (auto simp: child_named_def)
  moreover have "child_named m cs = (case child_named m (take ?p cs) of
      None \<Rightarrow> child_named m (drop ?p cs) | Some c \<Rightarrow> Some c)"
    using child_named_append[of m "take ?p cs" "drop ?p cs"] by simp
  moreover have "child_named (tn_name x) (take ?p cs) = None"
    using assms by (auto simp: child_named_None dest: in_set_takeD)
  ultimately show ?thesis
    by (auto simp: insert_sorted_def Let_def child_named_append split: option.splits)
qed

lemma set_insert_sorted [simp]: "set (insert_sorted lc cs x) = insert x (set cs)"
  unfolding insert_sorted_def Let_def
  by (metis Un_insert_right append_take_drop_id list.simps(15) set_append)

lemma mset_insert_sorted: "mset (insert_sorted lc cs x) = add_mset x (mset cs)"
  unfolding insert_sorted_def Let_def
  by (metis append_take_drop_id mset.simps(2) mset_append union_mset_add_mset_right)

lemma set_replace_child: "set (replace_child name x cs) \<subseteq> insert x (set cs)"
  by (induction cs) auto

lemma map_name_replace: "tn_name x = name \<Longrightarrow> map tn_name (replace_child name x cs) = map tn_name cs"
  by (induction cs) auto

subsection \<open>Lookups\<close>

lemma find_rec_Cons [tree_simps]:
  "find_node_recursive t (m # ps)
     = (case child_named m (tn_children t) of None \<Rightarrow> None | Some c \<Rightarrow> find_node_recursive c ps)"
  by (cases t) (auto split: option.splits)

lemma find_rec_append:
  "find_node_recursive t (ps @ qs)
     = (case find_node_recursive t ps of None \<Rightarrow> None | Some c \<Rightarrow> find_node_recursive c qs)"
  by (induction ps arbitrary: t) (auto simp: tree_simps split: option.splits)

lemma find_rec_prefix: "prefix ps qs \<Longrightarrow> find_node_recursive t ps = None \<Longrightarrow> find_node_recursive t qs = None"
  by (auto simp: prefix_def find_rec_append)

lemma find_rec_leaf: "tn_children t = [] \<Longrightarrow> find_node_recursive t ps = (if ps = [] then Some t else None)"
  by (cases ps) (auto simp: tree_simps)

lemma add_rec_fields [simp]:
  "tn_name (snd (add_node_recursive lc t ps fp d)) = tn_name t"
  "tn_path (snd (add_node_recursive lc t ps fp d)) = tn_path t"
  "tn_is_dir (snd (add_node_recursive lc t ps fp d)) = tn_is_dir t"
  by (cases t; cases ps; auto simp: Let_def split: option.splits prod.splits)+

lemma remove_rec_fields [simp]:
  "tn_name (snd (remove_node_recursive t ps)) = tn_name t"
  "tn_path (snd (remove_node_recursive t ps)) = tn_path t"
  "tn_is_dir (snd (remove_node_recursive t ps)) = tn_is_dir t"
  by (cases t; cases ps; auto simp: Let_def split: option.splits prod.splits)+

text \<open>What a lookup by path components sees: whether the node is there, and whether it is a
  directory.\<close>

definition lookup :: "tree_node \<Rightarrow> string list \<Rightarrow> bool option" where
  "lookup t ps = map_option tn_is_dir (find_node_recursive t ps)"

lemma lookup_Nil [simp]: "lookup t [] = Some (tn_is_dir t)"
  by (simp add: lookup_def)

lemma lookup_Cons: "lookup t (m # ps)
    = (case child_named m (tn_children t) of None \<Rightarrow> None | Some c \<Rightarrow> lookup c ps)"
  by (auto simp: lookup_def tree_simps split: option.splits)

lemma lookup_leaf: "tn_children t = [] \<Longrightarrow> lookup t ps = (if ps = [] then Some (tn_is_dir t) else None)"
  by (simp add: lookup_def find_rec_leaf)

lemma lookup_prefix: "prefix ps qs \<Longrightarrow> lookup t ps = None \<Longrightarrow> lookup t qs = None"
  by (auto simp: lookup_def dest: find_rec_prefix)

subsection \<open>Adding\<close>

lemma add_rec_result: "ps \<noteq> [] \<Longrightarrow> fst (add_node_recursive lc t ps fp d) \<longleftrightarrow> lookup t ps = None"
proof (induction ps arbitrary: t)
  case (Cons name rest)
  obtain n p dd cs where t: "t = TreeNode n p dd cs" by (cases t)
  with Cons.IH show ?case
    by (cases "rest = []") (auto simp: lookup_Cons lookup_leaf Let_def split_beta split: option.splits)
qed simp

lemma add_rec_lookup:
  "lookup (snd (add_node_recursive lc t ps fp d)) qs =
     (if ps = [] \<or> lookup t ps \<noteq> None then lookup t qs
      else if qs = ps then Some d
      else if lookup t qs = None \<and> prefix qs ps then Some True
      else lookup t qs)"
proof (induction ps arbitrary: t qs)
  case (Cons name rest)
  obtain n p dd cs where t: "t = TreeNode n p dd cs" by (cases t)
  show ?case
  proof (cases qs)
    case Nil
    then show ?thesis using add_rec_fields(3)[of lc t "name # rest" fp d] by simp
  next
    case q: (Cons m ms)
    show ?thesis
    proof (cases "rest = []")
      case True
      with t q show ?thesis
        by (auto simp: lookup_Cons lookup_leaf child_named_insert split: option.splits)
    next
      case rest: False
      show ?thesis
      proof (cases "child_named name cs")
        case None
        define r where "r = add_node_recursive lc
          (tree_dir name (build_path fp (length (name # rest)))) rest fp d"
        have "lookup (snd r) ms
            = (if ms = rest then Some d else if prefix ms rest then Some True else None)"
          unfolding r_def using rest by (subst Cons.IH) (auto simp: lookup_leaf)
        moreover have "tn_name (snd r) = name" unfolding r_def by simp
        moreover have "snd (add_node_recursive lc t (name # rest) fp d)
            = TreeNode n p dd (insert_sorted lc cs (snd r))"
          using t None rest by (simp add: r_def Let_def split_beta)
        ultimately show ?thesis
          using t q None by (auto simp: lookup_Cons child_named_insert)
      next
        case (Some c)
        define r where "r = add_node_recursive lc c rest fp d"
        have "tn_name (snd r) = name" unfolding r_def using Some by (auto dest: child_named_Some)
        moreover have "snd (add_node_recursive lc t (name # rest) fp d)
            = TreeNode n p dd (replace_child name (snd r) cs)"
          using t Some rest by (simp add: r_def Let_def split_beta)
        moreover note Cons.IH[of c ms, folded r_def]
        ultimately show ?thesis
          using t q Some rest by (auto simp: lookup_Cons child_named_replace)
      qed
    qed
  qed
qed simp

subsection \<open>Removing\<close>

lemma remove_rec_result: "ps \<noteq> [] \<Longrightarrow> fst (remove_node_recursive t ps) \<longleftrightarrow> lookup t ps \<noteq> None"
proof (induction ps arbitrary: t)
  case (Cons name rest)
  obtain n p dd cs where t: "t = TreeNode n p dd cs" by (cases t)
  show ?case
  proof (cases "rest = []")
    case True
    then show ?thesis
      by (auto simp: t Let_def lookup_Cons length_filter_ne child_named_None[unfolded image_iff]
          split: option.splits dest: child_named_Some)
  next
    case False
    with Cons.IH show ?thesis
      by (auto simp: t lookup_Cons split_beta split: option.splits)
  qed
qed simp

lemma remove_rec_lookup:
  "lookup (snd (remove_node_recursive t ps)) qs =
     (if ps \<noteq> [] \<and> prefix ps qs then None else lookup t qs)"
proof (induction ps arbitrary: t qs)
  case (Cons name rest)
  obtain n p dd cs where t: "t = TreeNode n p dd cs" by (cases t)
  show ?case
  proof (cases qs)
    case Nil
    then show ?thesis using remove_rec_fields(3)[of t "name # rest"] by simp
  next
    case q: (Cons m ms)
    show ?thesis
    proof (cases "rest = [] \<or> child_named name cs = None")
      case True
      with t q show ?thesis
        by (auto simp: lookup_Cons child_named_filter Let_def)
    next
      case False
      then obtain c where Some: "child_named name cs = Some c" and rest: "rest \<noteq> []" by auto
      define r where "r = remove_node_recursive c rest"
      have "tn_name (snd r) = name" unfolding r_def using Some by (auto dest: child_named_Some)
      moreover have "snd (remove_node_recursive t (name # rest))
          = TreeNode n p dd (replace_child name (snd r) cs)"
        using t Some rest by (simp add: r_def split_beta)
      moreover note Cons.IH[of c ms, folded r_def]
      ultimately show ?thesis
        using t q Some rest by (auto simp: lookup_Cons child_named_replace)
    qed
  qed
qed simp

subsection \<open>Well-formed trees\<close>

text \<open>
  At the position \<open>pre\<close>: the children are in display order and have distinct names, and each child's
  path field spells its position.  A path component is never empty and holds no slash.
\<close>

fun tree_ok :: "(string \<Rightarrow> string) \<Rightarrow> string list \<Rightarrow> tree_node \<Rightarrow> bool" where
  "tree_ok lc pre (TreeNode n p d cs) \<longleftrightarrow>
     sorted (map (node_key lc) cs) \<and> distinct (map tn_name cs) \<and>
     (\<forall>c \<in> set cs. path_parts (tn_path c) = pre @ [tn_name c] \<and> tree_ok lc (pre @ [tn_name c]) c)"

lemma tree_ok_leaf: "tn_children t = [] \<Longrightarrow> tree_ok lc pre t"
  by (cases t) simp

lemma sorted_insert: "sorted (map (node_key lc) cs) \<Longrightarrow> sorted (map (node_key lc) (insert_sorted lc cs x))"
  unfolding insert_sorted_def Let_def by (rule std.insert_pos_sorted) simp_all

lemma distinct_insert:
  "child_named (tn_name x) cs = None \<Longrightarrow> distinct (map tn_name cs) \<Longrightarrow> distinct (map tn_name (insert_sorted lc cs x))"
proof -
  assume "child_named (tn_name x) cs = None" "distinct (map tn_name cs)"
  moreover have "mset (map tn_name (insert_sorted lc cs x)) = mset (tn_name x # map tn_name cs)"
    by (simp add: mset_insert_sorted)
  then have "distinct (map tn_name (insert_sorted lc cs x)) = distinct (tn_name x # map tn_name cs)"
    by (rule mset_eq_imp_distinct_iff)
  ultimately show ?thesis by (simp add: child_named_None)
qed

lemma map_key_replace:
  "child_named name cs = Some c \<Longrightarrow> node_key lc x = node_key lc c
     \<Longrightarrow> map (node_key lc) (replace_child name x cs) = map (node_key lc) cs"
  by (induction cs) (auto simp: child_named_def)

lemma path_parts_build:
  assumes "path_parts fp = pre @ name # rest"
  shows "path_parts (build_path fp (length (name # rest))) = pre @ [name]"
proof -
  have "valid_parts (take (length pre + 1) (path_parts fp))"
    by (intro valid_parts_take) simp
  moreover have "take (length pre + 1) (path_parts fp) = pre @ [name]"
    by (simp add: assms)
  ultimately show ?thesis
    using assms by (simp add: build_path_def Let_def path_parts_join)
qed

lemma add_rec_ok:
  "tree_ok lc pre t \<Longrightarrow> path_parts fp = pre @ ps \<Longrightarrow> tree_ok lc pre (snd (add_node_recursive lc t ps fp d))"
proof (induction ps arbitrary: t pre)
  case (Cons name rest)
  obtain n p dd cs where t: "t = TreeNode n p dd cs" by (cases t)
  note ok = Cons.prems(1)[unfolded t]
  have fp: "path_parts fp = (pre @ [name]) @ rest" using Cons.prems(2) by simp
  show ?case
  proof (cases "child_named name cs")
    case None
    let ?dn = "tree_dir name (build_path fp (length (name # rest)))"
    define x where "x = (if rest = [] then (if d then tree_dir name fp else tree_file name fp)
      else snd (add_node_recursive lc ?dn rest fp d))"
    have x: "tn_name x = name" "path_parts (tn_path x) = pre @ [name]"
      using path_parts_build[OF Cons.prems(2)] Cons.prems(2) by (auto simp: x_def)
    moreover have "tree_ok lc (pre @ [name]) x"
    proof (cases "rest = []")
      case False
      with Cons.IH[of "pre @ [name]" ?dn, OF _ fp] show ?thesis by (simp add: x_def tree_ok_leaf)
    qed (simp add: x_def tree_ok_leaf)
    ultimately have "tree_ok lc pre (TreeNode n p dd (insert_sorted lc cs x))"
      using ok None by (auto intro: sorted_insert distinct_insert)
    moreover have "snd (add_node_recursive lc t (name # rest) fp d) = TreeNode n p dd (insert_sorted lc cs x)"
      using t None by (simp add: x_def split_beta Let_def)
    ultimately show ?thesis by simp
  next
    case (Some c)
    define x where "x = snd (add_node_recursive lc c rest fp d)"
    have c: "c \<in> set cs" "tn_name c = name" using Some by (auto dest: child_named_Some)
    have x: "tn_name x = name" "node_key lc x = node_key lc c" "tn_path x = tn_path c"
      using c by (simp_all add: x_def node_key_def)
    have "tree_ok lc (pre @ [name]) x"
      unfolding x_def using ok c by (intro Cons.IH fp) auto
    moreover have "set (replace_child name x cs) \<subseteq> insert x (set cs)" by (rule set_replace_child)
    ultimately have "tree_ok lc pre (TreeNode n p dd (replace_child name x cs))"
      using ok c x by (auto simp: map_key_replace[OF Some] map_name_replace)
    moreover have "snd (add_node_recursive lc t (name # rest) fp d)
        = (if rest = [] then t else TreeNode n p dd (replace_child name x cs))"
      using t Some by (simp add: x_def split_beta Let_def)
    ultimately show ?thesis using Cons.prems(1) by simp
  qed
qed simp

lemma remove_rec_ok: "tree_ok lc pre t \<Longrightarrow> tree_ok lc pre (snd (remove_node_recursive t ps))"
proof (induction ps arbitrary: t pre)
  case (Cons name rest)
  obtain n p dd cs where t: "t = TreeNode n p dd cs" by (cases t)
  note ok = Cons.prems(1)[unfolded t]
  show ?case
  proof (cases "rest = [] \<or> child_named name cs = None")
    case True
    with t ok show ?thesis
      by (auto simp: Let_def distinct_map_filter sorted_filter)
  next
    case False
    then obtain c where Some: "child_named name cs = Some c" and rest: "rest \<noteq> []" by auto
    define x where "x = snd (remove_node_recursive c rest)"
    have c: "c \<in> set cs" "tn_name c = name" using Some by (auto dest: child_named_Some)
    have x: "tn_name x = name" "node_key lc x = node_key lc c" "tn_path x = tn_path c"
      using c by (simp_all add: x_def node_key_def)
    have "tree_ok lc (pre @ [name]) x"
      unfolding x_def using ok c by (intro Cons.IH) auto
    moreover have "set (replace_child name x cs) \<subseteq> insert x (set cs)" by (rule set_replace_child)
    ultimately have "tree_ok lc pre (TreeNode n p dd (replace_child name x cs))"
      using ok c x by (auto simp: map_key_replace[OF Some] map_name_replace)
    then show ?thesis using t Some rest by (simp add: x_def split_beta)
  qed
qed simp

lemma add_node_ok [inv_intros]: "tree_ok lc [] t \<Longrightarrow> tree_ok lc [] (snd (add_node lc t p d))"
  by (simp add: add_node_def Let_def add_rec_ok)

lemma remove_node_ok [inv_intros]: "tree_ok lc [] t \<Longrightarrow> tree_ok lc [] (snd (remove_node t p))"
  by (simp add: remove_node_def Let_def remove_rec_ok)

lemma rename_node_ok [inv_intros]: "tree_ok lc [] t \<Longrightarrow> tree_ok lc [] (snd (rename_node lc t old new d))"
  using remove_node_ok[of lc t old] add_node_ok[of lc "snd (remove_node t old)" new d]
  by (simp add: rename_node_def split_beta Let_def)

lemma tree_ok_find:
  "tree_ok lc pre t \<Longrightarrow> find_node_recursive t ps = Some n \<Longrightarrow> ps \<noteq> []
     \<Longrightarrow> path_parts (tn_path n) = pre @ ps \<and> tree_ok lc (pre @ ps) n"
proof (induction ps arbitrary: t pre)
  case (Cons m ms)
  then obtain c where c: "child_named m (tn_children t) = Some c" "find_node_recursive c ms = Some n"
    by (auto simp: find_rec_Cons split: option.splits)
  then have "c \<in> set (tn_children t)" "tn_name c = m" by (auto dest: child_named_Some)
  with Cons.prems(1) have ok: "path_parts (tn_path c) = pre @ [m]" "tree_ok lc (pre @ [m]) c"
    by (cases t; auto)+
  show ?case
  proof (cases "ms = []")
    case False
    with Cons.IH[OF ok(2) c(2)] show ?thesis by simp
  qed (use c ok in auto)
qed simp

lemma sort_recursive_ok: "tree_ok lc pre t \<Longrightarrow> sort_recursive lc t = t"
proof (induction t arbitrary: pre)
  case (TreeNode n p d cs)
  then have "map (sort_recursive lc) cs = cs"
    by (intro map_idI) auto
  with TreeNode.prems show ?case by (simp add: sort_key_id_if_sorted)
qed

subsection \<open>The interface that the project trees use\<close>

locale path_tree =
  fixes look :: "'t \<Rightarrow> string list \<Rightarrow> bool option"
    and add :: "'t \<Rightarrow> string \<Rightarrow> bool \<Rightarrow> bool \<times> 't"
    and remove :: "'t \<Rightarrow> string \<Rightarrow> bool \<times> 't"
  assumes look_root: "look t [] \<noteq> None"
    and look_prefix: "prefix ps qs \<Longrightarrow> look t ps = None \<Longrightarrow> look t qs = None"
    and add_result: "fst (add t p d) \<longleftrightarrow> look t (path_parts p) = None"
    and add_look: "look (snd (add t p d)) qs =
          (if look t (path_parts p) \<noteq> None then look t qs
           else if qs = path_parts p then Some d
           else if look t qs = None \<and> prefix qs (path_parts p) then Some True
           else look t qs)"
    and remove_result: "fst (remove t p) \<longleftrightarrow> path_parts p \<noteq> [] \<and> look t (path_parts p) \<noteq> None"
    and remove_look: "look (snd (remove t p)) qs =
          (if path_parts p \<noteq> [] \<and> prefix (path_parts p) qs then None else look t qs)"
begin

abbreviation rename :: "'t \<Rightarrow> string \<Rightarrow> string \<Rightarrow> bool \<Rightarrow> bool \<times> 't" where
  "rename t p q d \<equiv> (let (removed, t') = remove t p in if \<not> removed then (False, t') else add t' q d)"

lemma add_twice: "\<not> fst (add (snd (add t p d)) p d')"
  by (auto simp: add_result add_look)

lemma remove_after_add: "path_parts p \<noteq> [] \<Longrightarrow> fst (remove (snd (add t p d)) p)"
  by (auto simp: remove_result add_look)

lemma add_remove_look:
  assumes "fst (add t p d)"
  shows "look (snd (remove (snd (add t p d)) p)) qs =
    (if prefix qs (path_parts p) \<and> qs \<noteq> path_parts p \<and> look t qs = None then Some True else look t qs)"
proof -
  have none: "look t (path_parts p) = None" using assms by (simp add: add_result)
  then have "path_parts p \<noteq> []" using look_root[of t] by auto
  moreover have "prefix (path_parts p) qs \<Longrightarrow> look t qs = None" using none look_prefix by blast
  ultimately show ?thesis using none by (auto simp: remove_look add_look prefix_order.antisym)
qed

lemma rename_result:
  "fst (rename t p q d) \<longleftrightarrow>
     path_parts p \<noteq> [] \<and> look t (path_parts p) \<noteq> None \<and>
     (look t (path_parts q) = None \<or> prefix (path_parts p) (path_parts q))"
  by (auto simp: split_beta Let_def add_result remove_result remove_look)

text \<open>A rename that fails after its removal still removes the old node.\<close>

lemma rename_look_gone:
  assumes "path_parts p \<noteq> []" "look t (path_parts p) \<noteq> None" "\<not> fst (rename t p q d)"
  shows "look (snd (rename t p q d)) qs = (if prefix (path_parts p) qs then None else look t qs)"
  using assms by (auto simp: split_beta Let_def add_result remove_result remove_look add_look)

lemma rename_look:
  assumes "fst (rename t p q d)"
  shows "look (snd (rename t p q d)) (path_parts q) = Some d"
    and "qs \<noteq> path_parts q \<Longrightarrow> prefix (path_parts p) qs \<Longrightarrow> \<not> prefix qs (path_parts q)
      \<Longrightarrow> look (snd (rename t p q d)) qs = None"
    and "\<not> prefix (path_parts p) qs \<Longrightarrow> \<not> prefix qs (path_parts q)
      \<Longrightarrow> look (snd (rename t p q d)) qs = look t qs"
  using assms by (auto simp: split_beta Let_def add_result remove_result remove_look add_look
      split: if_splits)

end

interpretation ft: path_tree lookup "add_node lc" remove_node
proof
  fix t p d and qs ps :: "string list"
  show "lookup t [] \<noteq> None" by simp
  show "prefix ps qs \<Longrightarrow> lookup t ps = None \<Longrightarrow> lookup t qs = None" by (rule lookup_prefix)
  show "fst (add_node lc t p d) = (lookup t (path_parts p) = None)"
    by (simp add: add_node_def Let_def add_rec_result)
  show "lookup (snd (add_node lc t p d)) qs =
     (if lookup t (path_parts p) \<noteq> None then lookup t qs
      else if qs = path_parts p then Some d
      else if lookup t qs = None \<and> prefix qs (path_parts p) then Some True
      else lookup t qs)"
    by (auto simp: add_node_def Let_def add_rec_lookup)
  show "fst (remove_node t p) = (path_parts p \<noteq> [] \<and> lookup t (path_parts p) \<noteq> None)"
    by (simp add: remove_node_def Let_def remove_rec_result)
  show "lookup (snd (remove_node t p)) qs =
     (if path_parts p \<noteq> [] \<and> prefix (path_parts p) qs then None else lookup t qs)"
    by (simp add: remove_node_def Let_def remove_rec_lookup)
qed

subsection \<open>Properties\<close>

text \<open>A tree's life: a sequence of operations on it, the results of which are dropped.\<close>

datatype tree_op = OpAdd string bool | OpRemove string | OpRename string string bool

fun run_op :: "(string \<Rightarrow> string) \<Rightarrow> tree_node \<Rightarrow> tree_op \<Rightarrow> tree_node" where
  "run_op lc t (OpAdd p d) = snd (add_node lc t p d)"
| "run_op lc t (OpRemove p) = snd (remove_node t p)"
| "run_op lc t (OpRename p q d) = snd (rename_node lc t p q d)"

definition run_ops :: "(string \<Rightarrow> string) \<Rightarrow> tree_op list \<Rightarrow> tree_node \<Rightarrow> tree_node" where
  "run_ops lc ops t = foldl (run_op lc) t ops"

lemma run_ops_ok: "tree_ok lc [] t \<Longrightarrow> tree_ok lc [] (run_ops lc ops t)"
  unfolding run_ops_def
proof (induction ops arbitrary: t)
  case (Cons x ops)
  then show ?case by (cases x) (auto simp: inv_intros)
qed simp

text \<open>
  C2. \<open>add_node\<close> refines the update of a partial map from component lists to "is a directory": it
  answers true exactly when the path was not there, and then the path is mapped to the given kind,
  every missing ancestor becomes a directory, and no other path changes; when it answers false
  nothing changes.
\<close>

theorem add_node_refines:
  "fst (add_node lc t p d) = (lookup t (path_parts p) = None) \<and>
   lookup (snd (add_node lc t p d)) =
     (\<lambda>qs. if fst (add_node lc t p d) \<and> qs = path_parts p then Some d
           else if fst (add_node lc t p d) \<and> prefix qs (path_parts p) \<and> lookup t qs = None then Some True
           else lookup t qs)"
  by (auto simp: fun_eq_iff ft.add_result ft.add_look)

text \<open>
  C3. \<open>remove_node\<close> refines the restriction of that map: it answers true exactly when the path is
  not empty and was there, and afterwards the path and everything below it are gone and every other
  path is as it was.
\<close>

theorem remove_node_refines:
  "fst (remove_node t p) = (path_parts p \<noteq> [] \<and> lookup t (path_parts p) \<noteq> None) \<and>
   lookup (snd (remove_node t p)) =
     (\<lambda>qs. if path_parts p \<noteq> [] \<and> prefix (path_parts p) qs then None else lookup t qs)"
  by (simp add: fun_eq_iff ft.remove_result ft.remove_look)

text \<open>
  C14. A tree that grows from an empty root by any sequence of insertions, removals and renames is
  well formed at every level (children in display order, distinct names, path fields that spell the
  position), and the full recursive sort leaves it as it is: the incremental sorted insertion and
  \<open>sort_recursive\<close> agree.
\<close>

theorem tree_history_ok:
  "tree_ok lc [] (run_ops lc ops (tree_dir name path)) \<and>
   sort_recursive lc (run_ops lc ops (tree_dir name path)) = run_ops lc ops (tree_dir name path)"
  using run_ops_ok[OF tree_ok_leaf, of "tree_dir name path"] by (auto intro: sort_recursive_ok)

text \<open>
  In such a tree, looking a node up by its own path field finds that very node, wherever it is.
\<close>

theorem find_node_by_own_path:
  assumes "find_node_recursive (run_ops lc ops (tree_dir name path)) ps = Some n" "ps \<noteq> []"
  shows "find_node (run_ops lc ops (tree_dir name path)) (tn_path n) = Some n"
proof -
  have "tree_ok lc [] (run_ops lc ops (tree_dir name path))" by (intro run_ops_ok tree_ok_leaf) simp
  from tree_ok_find[OF this assms] assms(1) show ?thesis by (simp add: find_node_def)
qed

theorem find_node_by_own_path_witness:
  "find_node (run_ops id [OpAdd ''src//main.rs'' False, OpAdd ''README'' False] (tree_dir [] []))
     (tn_path (tree_file ''main.rs'' ''src//main.rs'')) = Some (tree_file ''main.rs'' ''src//main.rs'')"
proof -
  have "find_node_recursive (run_ops id [OpAdd ''src//main.rs'' False, OpAdd ''README'' False] (tree_dir [] []))
      [''src'', ''main.rs''] = Some (tree_file ''main.rs'' ''src//main.rs'')"
    by code_simp
  then show ?thesis by (rule find_node_by_own_path) simp
qed

lemma foldl_insert_sorted:
  "mset (foldl (insert_sorted lc) ys xs) = mset ys + mset xs \<and>
   (sorted (map (node_key lc) ys) \<longrightarrow> sorted (map (node_key lc) (foldl (insert_sorted lc) ys xs)))"
  by (induction xs arbitrary: ys) (simp_all add: mset_insert_sorted sorted_insert)

text \<open>
  C31. Inserting one at a time and sorting agree: for children whose display keys (directories first,
  then the lower-case name) differ, the list that binary insertion builds from the empty list, in
  whatever order the children come, is the list that \<open>sort_recursive\<close> would sort them into.
\<close>

theorem insertion_equals_sorting:
  assumes "inj_on (node_key lc) (set cs)" and "mset arrivals = mset cs"
  shows "tn_children (sort_recursive lc (TreeNode name path d cs))
    = map (sort_recursive lc) (foldl (insert_sorted lc) [] arrivals)"
proof -
  have "mset cs = mset (foldl (insert_sorted lc) [] arrivals)" "sorted (map (node_key lc) (foldl (insert_sorted lc) [] arrivals))"
    using foldl_insert_sorted[of lc "[]" arrivals] assms(2) by simp_all
  then have "sort_key (node_key lc) cs = foldl (insert_sorted lc) [] arrivals"
    using sort_key_inj_key_eq[OF _ assms(1)] by blast
  then show ?thesis by simp
qed

theorem insertion_equals_sorting_witness:
  "tn_children (sort_recursive id (TreeNode [] [] True [tree_file ''b'' ''b'', tree_dir ''c'' ''c'', tree_file ''a'' ''a'']))
     = map (sort_recursive id) (foldl (insert_sorted id) [] [tree_file ''a'' ''a'', tree_file ''b'' ''b'', tree_dir ''c'' ''c''])"
  by (rule insertion_equals_sorting) (auto simp: inj_on_def node_key_def tree_file_def tree_dir_def)

end
