(* ===== verification/Project_Tree.thy ===== *)
theory Project_Tree
  imports File_Tree Path_Filter Events
begin

text \<open>
  The live project tree of \<open>crates/ambient-fs-server/src/tree_state.rs\<close>: the scan that builds it
  from a directory, and the patches that file events make.  The file system is a function from
  full paths to directory listings (\<open>None\<close> for a directory that cannot be read), fixed during the
  scan.
\<close>

datatype tree_patch =
  PatchAdd string bool
| PatchRemove string
| PatchRename string string bool

record project_tree =
  pt_root :: tree_node
  pt_project_id :: string

definition max_depth :: nat where
  "max_depth = 20"

definition max_entries :: nat where
  "max_entries = 10000"

definition project_tree_new :: "string \<Rightarrow> project_tree" where
  "project_tree_new pid = \<lparr>pt_root = tree_dir [] [], pt_project_id = pid\<rparr>"

subsection \<open>Scanning a directory\<close>

datatype file_type = FtFile | FtDir | FtSymlink | FtOther

text \<open>An item of \<open>read_dir\<close>: an error, or a name (bytes) and the file type unless it cannot be read.\<close>

datatype dir_entry = EntryErr | DirEntry string "file_type option"

type_synonym file_system = "string \<Rightarrow> dir_entry list option"

text \<open>
  The argument of type \<open>nat\<close> is the number of levels left, \<open>MAX_DEPTH - depth\<close>; the pair is the
  root node and \<open>entry_count\<close>.  \<open>scan_entries\<close> is the loop over the entries of one directory:
  \<open>continue\<close> is the recursive call on the rest, \<open>break\<close> returns the state.
\<close>

function (sequential)
  scan_directory :: "(string \<Rightarrow> string) \<Rightarrow> file_system \<Rightarrow> path_filter \<Rightarrow> string \<Rightarrow> string \<Rightarrow> nat
    \<Rightarrow> tree_node \<times> nat \<Rightarrow> tree_node \<times> nat"
and scan_entries :: "(string \<Rightarrow> string) \<Rightarrow> file_system \<Rightarrow> path_filter \<Rightarrow> string \<Rightarrow> string \<Rightarrow> nat
    \<Rightarrow> dir_entry list \<Rightarrow> tree_node \<times> nat \<Rightarrow> tree_node \<times> nat"
where
  "scan_directory lc fs filt base rel 0 st = st"
| "scan_directory lc fs filt base rel (Suc k) st =
     (case fs (if rel = [] then base else join_path base rel) of
        None \<Rightarrow> st
      | Some entries \<Rightarrow> scan_entries lc fs filt base rel k entries st)"
| "scan_entries lc fs filt base rel k [] st = st"
| "scan_entries lc fs filt base rel k (EntryErr # es) st = scan_entries lc fs filt base rel k es st"
| "scan_entries lc fs filt base rel k (DirEntry raw ft # es) st =
     (case to_str raw of
        None \<Rightarrow> scan_entries lc fs filt base rel k es st
      | Some name \<Rightarrow>
          (let child = (if rel = [] then name else rel @ [slash] @ name) in
           if should_ignore filt child then scan_entries lc fs filt base rel k es st
           else (case ft of
               None \<Rightarrow> scan_entries lc fs filt base rel k es st
             | Some t \<Rightarrow>
                 if t = FtSymlink then scan_entries lc fs filt base rel k es st
                 else if max_entries \<le> snd st then st
                 else
                   (let st' = (snd (add_node lc (fst st) child (t = FtDir)), snd st + 1);
                        st'' = (if t = FtDir then scan_directory lc fs filt base child k st' else st')
                    in scan_entries lc fs filt base rel k es st''))))"
  by pat_completeness auto
termination
  by (relation "measures [
       case_sum (\<lambda>(lc, fs, filt, base, rel, k, st). 2 * k)
                (\<lambda>(lc, fs, filt, base, rel, k, es, st). 2 * k + 1),
       case_sum (\<lambda>_. 0) (\<lambda>(lc, fs, filt, base, rel, k, es, st). length es)]") auto

definition from_directory ::
  "(string \<Rightarrow> string) \<Rightarrow> file_system \<Rightarrow> string \<Rightarrow> path_filter \<Rightarrow> project_tree" where
  "from_directory lc fs path filt =
     (let pid = (case file_name path of
                   None \<Rightarrow> ''unknown''
                 | Some n \<Rightarrow> (case to_str n of None \<Rightarrow> ''unknown'' | Some s \<Rightarrow> s));
          t = project_tree_new pid
      in t\<lparr>pt_root := fst (scan_directory lc fs filt path [] max_depth (pt_root t, 0))\<rparr>)"

subsection \<open>Applying events\<close>

definition apply_rename ::
  "(string \<Rightarrow> string) \<Rightarrow> project_tree \<Rightarrow> string \<Rightarrow> string \<Rightarrow> bool \<Rightarrow> tree_patch option \<times> project_tree" where
  "apply_rename lc t old new is_dir =
     (let (renamed, root') = rename_node lc (pt_root t) old new is_dir
      in (if renamed then Some (PatchRename old new is_dir) else None, t\<lparr>pt_root := root'\<rparr>))"

definition apply_event ::
  "(string \<Rightarrow> string) \<Rightarrow> project_tree \<Rightarrow> file_event \<Rightarrow> tree_patch option \<times> project_tree" where
  "apply_event lc t e =
     (case ev_type e of
        Created \<Rightarrow>
          (let (added, root') = add_node lc (pt_root t) (ev_file_path e) False
           in (if added then Some (PatchAdd (ev_file_path e) False) else None, t\<lparr>pt_root := root'\<rparr>))
      | Deleted \<Rightarrow>
          (let (removed, root') = remove_node (pt_root t) (ev_file_path e)
           in (if removed then Some (PatchRemove (ev_file_path e)) else None, t\<lparr>pt_root := root'\<rparr>))
      | Renamed \<Rightarrow>
          (case ev_old_path e of
             Some old \<Rightarrow> apply_rename lc t old (ev_file_path e) False
           | None \<Rightarrow> (None, t))
      | Modified \<Rightarrow> (None, t))"

definition project_find :: "project_tree \<Rightarrow> string \<Rightarrow> tree_node option" where
  "project_find t path = find_node (pt_root t) path"

subsection \<open>What the scan keeps\<close>

text \<open>A path (relative, as components) of a file or directory that the listings show.\<close>

inductive on_disk :: "file_system \<Rightarrow> string \<Rightarrow> string list \<Rightarrow> bool \<Rightarrow> bool" for fs base where
  on_disk_top: "fs base = Some es \<Longrightarrow> DirEntry name (Some ft) \<in> set es \<Longrightarrow> utf8_valid name
    \<Longrightarrow> ft \<noteq> FtSymlink \<Longrightarrow> on_disk fs base [name] (ft = FtDir)"
| on_disk_sub: "on_disk fs base ps True \<Longrightarrow> fs (join_path base (join_with [slash] ps)) = Some es
    \<Longrightarrow> DirEntry name (Some ft) \<in> set es \<Longrightarrow> utf8_valid name \<Longrightarrow> ft \<noteq> FtSymlink
    \<Longrightarrow> on_disk fs base (ps @ [name]) (ft = FtDir)"

text \<open>The operating system's names: not empty, without a slash.\<close>

definition fs_names_ok :: "file_system \<Rightarrow> bool" where
  "fs_names_ok fs \<longleftrightarrow> (\<forall>p es name ft. fs p = Some es \<longrightarrow> DirEntry name ft \<in> set es \<longrightarrow> valid_parts [name])"

definition scan_ok :: "(string \<Rightarrow> string) \<Rightarrow> file_system \<Rightarrow> path_filter \<Rightarrow> string \<Rightarrow> tree_node \<times> nat \<Rightarrow> bool" where
  "scan_ok lc fs filt base st \<longleftrightarrow>
     tree_ok lc [] (fst st) \<and> snd st \<le> max_entries \<and>
     finite (dom (lookup (fst st))) \<and> card (dom (lookup (fst st))) \<le> Suc (snd st) \<and>
     (\<forall>ps d. lookup (fst st) ps = Some d \<longrightarrow> ps \<noteq> [] \<longrightarrow>
        on_disk fs base ps d \<and> \<not> should_ignore filt (join_with [slash] ps) \<and> length ps \<le> max_depth)"

definition at_dir :: "file_system \<Rightarrow> string \<Rightarrow> tree_node \<Rightarrow> string \<Rightarrow> string list \<Rightarrow> bool" where
  "at_dir fs base root rel rp \<longleftrightarrow> rel = join_with [slash] rp \<and> valid_parts rp \<and>
     lookup root rp \<noteq> None \<and> (rp = [] \<or> on_disk fs base rp True)"

lemma join_with_snoc: "ws \<noteq> [] \<Longrightarrow> join_with sep (ws @ [w]) = join_with sep ws @ sep @ w"
  by (induction sep ws rule: join_with.induct) auto

lemma join_with_eq_Nil: "valid_parts ws \<Longrightarrow> join_with [slash] ws = [] \<longleftrightarrow> ws = []"
  by (induction "[slash]" ws rule: join_with.induct) auto

lemma dom_lookup_add:
  assumes "lookup root (butlast (path_parts p)) \<noteq> None"
  shows "dom (lookup (snd (add_node lc root p d))) = insert (path_parts p) (dom (lookup root))"
proof -
  have *: "lookup root qs \<noteq> None" if "prefix qs (path_parts p)" "qs \<noteq> path_parts p" for qs
  proof -
    from that have "prefix qs (butlast (path_parts p))"
      by (metis append_butlast_last_id prefix_snoc butlast.simps(1))
    from lookup_prefix[OF this, of root] assms show ?thesis by auto
  qed
  have "lookup (snd (add_node lc root p d)) qs \<noteq> None \<longleftrightarrow> qs = path_parts p \<or> lookup root qs \<noteq> None" for qs
  proof (cases "lookup root qs")
    case None
    then have "\<not> (prefix qs (path_parts p) \<and> qs \<noteq> path_parts p)" using * by blast
    with None show ?thesis unfolding ft.add_look by (cases "qs = path_parts p") simp_all
  qed (auto simp: ft.add_look)
  then show ?thesis unfolding dom_def by blast
qed

lemma scan_ok_add:
  assumes ok: "scan_ok lc fs filt base (root, n)" and lt: "n < max_entries"
    and at: "at_dir fs base root rel rp" and len: "length rp < max_depth"
    and name: "valid_parts [name]" "child = (if rel = [] then name else rel @ [slash] @ name)"
    and disk: "on_disk fs base (rp @ [name]) d" and ign: "\<not> should_ignore filt child"
    and root': "root' = snd (add_node lc root child d)"
  shows "scan_ok lc fs filt base (root', n + 1)"
    and "dom (lookup root) \<subseteq> dom (lookup root')"
    and "d \<Longrightarrow> at_dir fs base root' child (rp @ [name])"
    and "at_dir fs base root' rel rp"
proof -
  have child: "child = join_with [slash] (rp @ [name])"
    using at name by (auto simp: at_dir_def join_with_snoc join_with_eq_Nil)
  have parts: "path_parts child = rp @ [name]"
    using at name unfolding child by (intro path_parts_join) (simp add: at_dir_def)
  have dom: "dom (lookup root') = insert (rp @ [name]) (dom (lookup root))"
    unfolding root' using at dom_lookup_add[of root child lc d] by (simp add: parts at_dir_def)
  have look: "lookup root' qs = (if qs = rp @ [name] \<and> lookup root qs = None then Some d else lookup root qs)" for qs
  proof (cases "lookup root qs = None \<and> qs \<noteq> rp @ [name]")
    case True
    then have "qs \<notin> dom (lookup root')" using dom by auto
    with True show ?thesis by auto
  qed (auto simp: root' ft.add_look parts)
  have "tree_ok lc [] root'" using ok unfolding root' scan_ok_def by (simp add: inv_intros)
  moreover have "finite (dom (lookup root'))" "card (dom (lookup root')) \<le> Suc (n + 1)"
    using ok unfolding dom scan_ok_def by (simp_all add: card_insert_if)
  moreover have "on_disk fs base ps d' \<and> \<not> should_ignore filt (join_with [slash] ps) \<and> length ps \<le> max_depth"
    if "lookup root' ps = Some d'" "ps \<noteq> []" for ps d'
  proof (cases "ps = rp @ [name] \<and> lookup root ps = None")
    case True
    have "lookup root' ps = Some d" unfolding look[of ps] if_P[OF True] ..
    with that(1) have "d' = d" by simp
    with True len disk ign child show ?thesis by simp
  next
    case False
    then have "lookup root ps = Some d'" using that(1) by (simp add: look split: if_splits)
    with that(2) ok show ?thesis unfolding scan_ok_def by simp
  qed
  ultimately show "scan_ok lc fs filt base (root', n + 1)"
    using lt unfolding scan_ok_def by simp
  show "dom (lookup root) \<subseteq> dom (lookup root')" using dom by auto
  show "at_dir fs base root' child (rp @ [name])" if d
    unfolding at_dir_def using at name disk that child look by (auto simp: at_dir_def)
  show "at_dir fs base root' rel rp"
    using at look by (auto simp: at_dir_def)
qed

lemma at_dir_mono: "at_dir fs base root rel rp \<Longrightarrow> dom (lookup root) \<subseteq> dom (lookup root') \<Longrightarrow> at_dir fs base root' rel rp"
  by (auto simp: at_dir_def)

lemma scan_invariant:
  fixes lc fs filt base rel k st es
  shows "fs_names_ok fs \<Longrightarrow> scan_ok lc fs filt base st \<Longrightarrow> at_dir fs base (fst st) rel rp
      \<Longrightarrow> length rp + k \<le> max_depth
      \<Longrightarrow> scan_ok lc fs filt base (scan_directory lc fs filt base rel k st) \<and>
          dom (lookup (fst st)) \<subseteq> dom (lookup (fst (scan_directory lc fs filt base rel k st)))"
    and "fs_names_ok fs \<Longrightarrow> scan_ok lc fs filt base st \<Longrightarrow> at_dir fs base (fst st) rel rp
      \<Longrightarrow> length rp + k < max_depth \<Longrightarrow> fs (if rel = [] then base else join_path base rel) = Some all
      \<Longrightarrow> set es \<subseteq> set all
      \<Longrightarrow> scan_ok lc fs filt base (scan_entries lc fs filt base rel k es st) \<and>
          dom (lookup (fst st)) \<subseteq> dom (lookup (fst (scan_entries lc fs filt base rel k es st)))"
proof (induction lc fs filt base rel k st and lc fs filt base rel k es st arbitrary: rp and rp all
    rule: scan_directory_scan_entries.induct)
  case (2 lc fs filt base rel k st)
  show ?case
  proof (cases "fs (if rel = [] then base else join_path base rel)")
    case (Some es)
    with "2.IH"[OF Some "2.prems"(1-3) _ Some order_refl] "2.prems"(4) show ?thesis by simp
  qed (use "2.prems"(2) in simp)
next
  case (4 lc fs filt base rel k es st)
  then show ?case by simp
next
  case (5 lc fs filt base rel k raw ft es st)
  let ?child = "if rel = [] then raw else rel @ [slash] @ raw"
  show ?case
  proof (cases "to_str raw = None \<or> should_ignore filt ?child \<or> ft = None \<or> ft = Some FtSymlink")
    case True
    then show ?thesis using 5 by (auto simp: to_str_def Let_def split: if_splits option.splits)
  next
    case False
    then obtain t where t: "ft = Some t" "t \<noteq> FtSymlink" and v: "to_str raw = Some raw" "utf8_valid raw"
        and ign: "\<not> should_ignore filt ?child"
      by (auto simp: to_str_def split: if_splits)
    show ?thesis
    proof (cases "max_entries \<le> snd st")
      case True
      then show ?thesis using 5 t v ign by (simp add: Let_def)
    next
      case lt: False
      let ?root = "snd (add_node lc (fst st) ?child (t = FtDir))"
      let ?st' = "(?root, snd st + 1)"
      let ?st'' = "if t = FtDir then scan_directory lc fs filt base ?child k ?st' else ?st'"
      have mem: "DirEntry raw (Some t) \<in> set all" using 5 t by simp
      have name: "valid_parts [raw]"
        using "5.prems"(1,5) mem unfolding fs_names_ok_def by blast
      have at: "at_dir fs base (fst st) rel rp" by fact
      have disk: "on_disk fs base (rp @ [raw]) (t = FtDir)"
      proof (cases "rp = []")
        case True
        with 5 at mem t v show ?thesis by (auto simp: at_dir_def intro: on_disk_top)
      next
        case False
        with at have "rel \<noteq> []" "on_disk fs base rp True" "rel = join_with [slash] rp"
          by (auto simp: at_dir_def join_with_eq_Nil)
        with 5 mem t v show ?thesis by (auto intro: on_disk_sub)
      qed
      have st: "scan_ok lc fs filt base (fst st, snd st)" using 5 by simp
      have len: "length rp < max_depth" using 5 by simp
      from lt have lt': "snd st < max_entries" by simp
      note add = scan_ok_add[OF st lt' at len name refl disk ign refl]
      have rec: "scan_ok lc fs filt base ?st'' \<and> dom (lookup ?root) \<subseteq> dom (lookup (fst ?st''))"
      proof (cases "t = FtDir")
        case True
        have "length (rp @ [raw]) + k \<le> max_depth" using "5.prems"(4) by simp
        from "5.IH"(5)[OF v(1) refl ign t(1) t(2) lt refl True "5.prems"(1) _ _ this] add(1) add(3)[OF True] True
        show ?thesis by simp
      qed (use add in simp)
      have "at_dir fs base (fst ?st'') rel rp"
        using add(4) rec at_dir_mono by blast
      from "5.IH"(6)[OF v(1) refl ign t(1) t(2) lt refl refl "5.prems"(1) conjunct1[OF rec] this "5.prems"(4,5)] "5.prems"(6)
      have main: "scan_ok lc fs filt base (scan_entries lc fs filt base rel k es ?st'')
          \<and> dom (lookup (fst ?st'')) \<subseteq> dom (lookup (fst (scan_entries lc fs filt base rel k es ?st'')))"
        by simp
      have "scan_entries lc fs filt base rel k (DirEntry raw ft # es) st
          = scan_entries lc fs filt base rel k es ?st''"
        using t v ign lt by (simp add: Let_def)
      with conjunct1[OF main] order_trans[OF order_trans[OF add(2) conjunct2[OF rec]] conjunct2[OF main]]
      show ?thesis by simp
    qed
  qed
qed simp_all

subsection \<open>Properties\<close>

text \<open>
  The tree that the scan of a directory builds is well formed, holds at most \<open>MAX_ENTRIES\<close>
  nodes besides its root, none deeper than \<open>MAX_DEPTH\<close>, and shows nothing that is not there: every
  node is an entry of the listings with the recorded kind, reached through directories and not
  through a symbolic link, and its relative path is not ignored by the filter.
\<close>

theorem from_directory_sound:
  assumes "fs_names_ok fs"
  shows "let r = pt_root (from_directory lc fs path filt) in
    tree_ok lc [] r \<and> finite (dom (lookup r)) \<and> card (dom (lookup r)) \<le> max_entries + 1 \<and>
    (\<forall>ps d. lookup r ps = Some d \<longrightarrow> ps \<noteq> [] \<longrightarrow>
       on_disk fs path ps d \<and> \<not> should_ignore filt (join_with [slash] ps) \<and> length ps \<le> max_depth)"
proof -
  have "dom (lookup (tree_dir [] [])) = {[]}" by (auto simp: dom_def lookup_leaf split: if_splits)
  then have "scan_ok lc fs filt path (tree_dir [] [], 0)"
    by (simp add: scan_ok_def tree_ok_leaf lookup_leaf)
  moreover have "at_dir fs path (fst (tree_dir [] [], 0)) [] []" by (simp add: at_dir_def)
  ultimately have "scan_ok lc fs filt path (scan_directory lc fs filt path [] max_depth (tree_dir [] [], 0))"
    using scan_invariant(1)[OF assms(1), of lc filt path "(tree_dir [] [], 0)" "[]" "[]" max_depth] by simp
  moreover have "pt_root (from_directory lc fs path filt) = fst (scan_directory lc fs filt path [] max_depth (tree_dir [] [], 0))"
    by (simp add: from_directory_def project_tree_new_def Let_def)
  ultimately show ?thesis by (simp add: scan_ok_def Let_def)
qed

definition demo_fs :: file_system where
  "demo_fs p = (if p = ''/w/app'' then
      Some [DirEntry ''src'' (Some FtDir), DirEntry ''.git'' (Some FtDir), EntryErr,
            DirEntry ''link'' (Some FtSymlink), DirEntry ''README'' (Some FtFile)]
    else if p = ''/w/app/src'' then Some [DirEntry ''main.rs'' (Some FtFile), DirEntry ''a.swp'' (Some FtFile)]
    else None)"

theorem from_directory_sound_witness:
  "fs_names_ok demo_fs \<and>
   lookup (pt_root (from_directory id demo_fs ''/w/app'' path_filter_default)) [''src'', ''main.rs''] = Some False \<and>
   lookup (pt_root (from_directory id demo_fs ''/w/app'' path_filter_default)) [''src'', ''a.swp''] = None \<and>
   on_disk demo_fs ''/w/app'' [''src'', ''main.rs''] False \<and>
   card (dom (lookup (pt_root (from_directory id demo_fs ''/w/app'' path_filter_default)))) \<le> 10001"
proof -
  let ?r = "pt_root (from_directory id demo_fs ''/w/app'' path_filter_default)"
  have ok: "fs_names_ok demo_fs"
    by (auto simp: fs_names_ok_def demo_fs_def slash_def split: if_splits)
  have 1: "lookup ?r [''src'', ''main.rs''] = Some False" by code_simp
  have 2: "lookup ?r [''src'', ''a.swp''] = None" by code_simp
  from from_directory_sound[OF ok, of id "''/w/app''" path_filter_default] ok 1 2
  show ?thesis by (simp add: max_entries_def Let_def)
qed

text \<open>
  For an event that is not a rename, \<open>apply_event\<close> answers a patch exactly when the structure of
  the tree changes, and the patch names the change: an added file that was not there, or a removed
  path that was there.
\<close>

theorem apply_event_patch_exact:
  assumes "ev_type e \<noteq> Renamed"
  shows "(fst (apply_event lc t e) = None \<longleftrightarrow>
            lookup (pt_root (snd (apply_event lc t e))) = lookup (pt_root t)) \<and>
         (fst (apply_event lc t e) = Some (PatchAdd (ev_file_path e) False) \<longleftrightarrow>
            ev_type e = Created \<and> lookup (pt_root t) (path_parts (ev_file_path e)) = None) \<and>
         (fst (apply_event lc t e) = Some (PatchRemove (ev_file_path e)) \<longleftrightarrow>
            ev_type e = Deleted \<and> path_parts (ev_file_path e) \<noteq> [] \<and>
            lookup (pt_root t) (path_parts (ev_file_path e)) \<noteq> None)"
proof (cases "ev_type e")
  case Created
  have "lookup (snd (add_node lc (pt_root t) (ev_file_path e) False)) = lookup (pt_root t)
      \<longleftrightarrow> lookup (pt_root t) (path_parts (ev_file_path e)) \<noteq> None"
    unfolding fun_eq_iff ft.add_look by (metis option.distinct(1))
  with Created show ?thesis
    by (auto simp: apply_event_def split_beta Let_def ft.add_result)
next
  case Deleted
  have "lookup (snd (remove_node (pt_root t) (ev_file_path e))) = lookup (pt_root t)
      \<longleftrightarrow> path_parts (ev_file_path e) = [] \<or> lookup (pt_root t) (path_parts (ev_file_path e)) = None"
    unfolding fun_eq_iff ft.remove_look by (metis prefix_order.order_refl lookup_prefix)
  with Deleted show ?thesis
    by (auto simp: apply_event_def split_beta Let_def ft.remove_result)
qed (use assms in \<open>simp_all add: apply_event_def\<close>)

definition demo_event :: "event_type \<Rightarrow> string \<Rightarrow> file_event" where
  "demo_event et p = file_event_new 0 et p ''app'' ''m1''"

theorem apply_event_patch_exact_witness:
  "fst (apply_event id (project_tree_new ''app'') (demo_event Created ''src/lib.rs''))
     = Some (PatchAdd ''src/lib.rs'' False)"
proof -
  have nr: "ev_type (demo_event Created ''src/lib.rs'') \<noteq> Renamed"
    by (simp add: demo_event_def event_builder_defs)
  have "ev_type (demo_event Created ''src/lib.rs'') = Created"
    "ev_file_path (demo_event Created ''src/lib.rs'') = ''src/lib.rs''"
    "lookup (pt_root (project_tree_new ''app'')) (path_parts ''src/lib.rs'') = None"
    by (simp_all add: demo_event_def event_builder_defs) code_simp
  with apply_event_patch_exact[OF nr, of id "project_tree_new ''app''"] show ?thesis by simp
qed

text \<open>
  A rename event onto a path that already exists is lossy and silent: no patch is sent, but the
  node at the old path and everything below it have been removed from the tree.
\<close>

theorem rename_conflict_loses_node:
  assumes "ev_type e = Renamed" "ev_old_path e = Some old" "path_parts old \<noteq> []"
    and "lookup (pt_root t) (path_parts old) \<noteq> None"
    and "lookup (pt_root t) (path_parts (ev_file_path e)) \<noteq> None"
    and "\<not> prefix (path_parts old) (path_parts (ev_file_path e))"
  shows "fst (apply_event lc t e) = None \<and>
    lookup (pt_root (snd (apply_event lc t e))) =
      (\<lambda>qs. if prefix (path_parts old) qs then None else lookup (pt_root t) qs)"
proof -
  let ?r = "rename_node lc (pt_root t) old (ev_file_path e) False"
  have "\<not> fst ?r"
    using assms(5,6) unfolding rename_node_def ft.rename_result by simp
  with assms ft.rename_look_gone[OF assms(3,4), of lc "ev_file_path e" False] show ?thesis
    by (auto simp: apply_event_def apply_rename_def rename_node_def split_beta fun_eq_iff)
qed

definition demo_tree :: "tree_op list \<Rightarrow> project_tree" where
  "demo_tree ops = \<lparr>pt_root = run_ops id ops (tree_dir [] []), pt_project_id = ''app''\<rparr>"

theorem rename_conflict_loses_node_witness:
  defines "t \<equiv> demo_tree [OpAdd ''a.rs'' False, OpAdd ''b.rs'' False]"
    and "e \<equiv> with_old_path ''a.rs'' (demo_event Renamed ''b.rs'')"
  shows "fst (apply_event id t e) = None \<and> lookup (pt_root t) [''a.rs''] = Some False \<and>
    lookup (pt_root (snd (apply_event id t e))) [''a.rs''] = None"
proof -
  have e: "ev_type e = Renamed" "ev_old_path e = Some ''a.rs''" "ev_file_path e = ''b.rs''"
    by (simp_all add: e_def demo_event_def event_builder_defs)
  have p: "path_parts ''a.rs'' = [''a.rs'']" "path_parts ''b.rs'' = [''b.rs'']" by code_simp+
  have l: "lookup (pt_root t) [''a.rs''] = Some False" "lookup (pt_root t) [''b.rs''] = Some False"
    unfolding t_def by code_simp+
  from rename_conflict_loses_node[OF e(1,2), of t id] e p l show ?thesis by simp
qed

end
