(* ===== verification/Database.thy ===== *)
theory Database
  imports Core_Awareness
begin

text \<open>
  The SQLite database files that the store, the analysis cache, the migrations and the pruner work
  on: the values and their order, the four tables, and the errors.  A table is \<open>None\<close> until a
  \<open>CREATE TABLE IF NOT EXISTS\<close> creates it, and keeps the columns it was created with.
  SQLite itself is not modelled beyond what its documentation promises for the statements in the
  sources: values of different storage classes compare NULL < INTEGER < TEXT, an \<open>AUTOINCREMENT\<close>
  key is larger than every key the table ever had and is refused when the largest key is used, and
  a text that is not a number is stored as text in a column of INTEGER affinity too.
\<close>

subsection \<open>SQL values\<close>

datatype sqlval = SNull | SInt int | SText string

instantiation sqlval :: linorder
begin

fun less_eq_sqlval :: "sqlval \<Rightarrow> sqlval \<Rightarrow> bool" where
  "less_eq_sqlval SNull _ = True"
| "less_eq_sqlval (SInt i) SNull = False"
| "less_eq_sqlval (SInt i) (SInt j) = (i \<le> j)"
| "less_eq_sqlval (SInt i) (SText t) = True"
| "less_eq_sqlval (SText s) (SText t) = (s \<le> t)"
| "less_eq_sqlval (SText s) _ = False"

definition less_sqlval :: "sqlval \<Rightarrow> sqlval \<Rightarrow> bool" where
  "less_sqlval a b = (a \<le> b \<and> \<not> b \<le> a)"

instance
proof
  fix a b c :: sqlval
  show "a < b \<longleftrightarrow> a \<le> b \<and> \<not> b \<le> a" by (rule less_sqlval_def)
  show "a \<le> a" by (cases a) auto
  show "a \<le> b \<Longrightarrow> b \<le> c \<Longrightarrow> a \<le> c" by (cases a; cases b; cases c) auto
  show "a \<le> b \<Longrightarrow> b \<le> a \<Longrightarrow> a = b" by (cases a; cases b) auto
  show "a \<le> b \<or> b \<le> a" by (cases a; cases b) auto
qed

end

lemma less_sqlval_simps [simp]:
  "SInt i < SText t" "SInt i < SInt j \<longleftrightarrow> i < j" "SText s < SText t \<longleftrightarrow> s < t"
  by (auto simp: less_sqlval_def)

subsection \<open>Errors\<close>

datatype sqlite_error =
  NoSuchTable string
| NoSuchColumn string
| ConstraintFailed string
| DatabaseFull
| DatatypeMismatch
| CannotOpen

datatype store_error =
  Sqlite sqlite_error
| DatabaseLocked string
| Parse parse_error
| TimestampParse string

subsection \<open>Tables\<close>

record event_row =
  er_id :: int
  er_timestamp :: string
  er_event_type :: string
  er_file_path :: string
  er_project_id :: string
  er_source :: string
  er_source_id :: "string option"
  er_machine_id :: string
  er_content_hash :: "string option"
  er_old_path :: "string option"

text \<open>\<open>et_checked\<close>: the table was created with the CHECK constraints of \<open>EventStore::new\<close>;
  \<open>et_seq\<close>: the largest key ever used.\<close>

record event_table =
  et_rows :: "event_row list"
  et_seq :: int
  et_checked :: bool

record project_row =
  pr_project_id :: string
  pr_path :: string
  pr_created_at :: string

text \<open>The store and the migrations declare different columns for the table \<open>projects\<close>: the
  migrated one has \<open>id, path, name, added_at, active\<close>, and no column \<open>project_id\<close>.  No code inserts
  into the migrated one.\<close>

datatype projects_table = StoreProjects "project_row list" | MigratedProjects

record analysis_row =
  ar_file_path :: string
  ar_project_id :: string
  ar_content_hash :: string
  ar_analyzed_at :: sqlval
  ar_exports :: string
  ar_imports :: string
  ar_todo_count :: u32
  ar_lint_hints :: string
  ar_line_count :: u32

record database =
  db_events :: "event_table option"
  db_projects :: "projects_table option"
  db_analysis :: "analysis_row list option"
  db_migrations :: "(int \<times> int) list option"

definition database_empty :: database where
  "database_empty = \<lparr>db_events = None, db_projects = None, db_analysis = None, db_migrations = None\<rparr>"

definition max_i64 :: int where
  "max_i64 = 9223372036854775807"

subsection \<open>Text forms of timestamps, and the order of query results\<close>

text \<open>
  \<open>to_rfc3339\<close> and \<open>parse_from_rfc3339\<close> of the crate chrono are parameters.  What the store relies
  on, for the timestamps \<open>T\<close> that it meets (RFC 3339 covers the years 0 to 9999): parsing gives back
  the instant, and the texts of UTC instants sort as the instants do.
\<close>

definition time_text_ok :: "(timestamp \<Rightarrow> string) \<Rightarrow> (string \<Rightarrow> string + timestamp) \<Rightarrow> timestamp set \<Rightarrow> bool" where
  "time_text_ok fmt parse T \<longleftrightarrow>
     (\<forall>t \<in> T. parse (fmt t) = Inr t) \<and> (\<forall>s \<in> T. \<forall>t \<in> T. fmt s < fmt t \<longleftrightarrow> s < t)"

lemma time_text_parse: "time_text_ok fmt parse T \<Longrightarrow> t \<in> T \<Longrightarrow> parse (fmt t) = Inr t"
  by (simp add: time_text_ok_def)

lemma time_text_le: "time_text_ok fmt parse T \<Longrightarrow> s \<in> T \<Longrightarrow> t \<in> T \<Longrightarrow> fmt s \<le> fmt t \<longleftrightarrow> s \<le> t"
  by (auto simp: time_text_ok_def not_less[symmetric])

text \<open>
  \<open>ORDER BY timestamp DESC\<close> leaves the order of rows with equal timestamps open, so the ordering
  step is a parameter: any function that returns the given rows in descending order of the column.
\<close>

definition orders_desc :: "(event_row list \<Rightarrow> event_row list) \<Rightarrow> bool" where
  "orders_desc od \<longleftrightarrow>
     (\<forall>rs. mset (od rs) = mset rs \<and> sorted_wrt (\<lambda>a b. er_timestamp b \<le> er_timestamp a) (od rs))"

text \<open>An instance of each parameter: one byte per timestamp, and a stable sort.\<close>

definition byte_fmt :: "timestamp \<Rightarrow> string" where
  "byte_fmt t = [char_of (nat t)]"

definition byte_parse :: "string \<Rightarrow> string + timestamp" where
  "byte_parse s = (case s of [c] \<Rightarrow> Inr (of_char c) | _ \<Rightarrow> Inl ''input is invalid'')"

lemma of_char_of_nat: "0 \<le> t \<Longrightarrow> t < 256 \<Longrightarrow> of_char (char_of (nat t)) = (t :: int)"
  using char_of_nat[of "nat t", where ?'a = int] of_char_of[of t] by (simp add: mod_pos_pos_trivial)

lemma byte_time_text_ok: "time_text_ok byte_fmt byte_parse {0..<256}"
  by (auto simp: time_text_ok_def byte_fmt_def byte_parse_def less_char_def of_char_of_nat)

definition stable_desc :: "event_row list \<Rightarrow> event_row list" where
  "stable_desc rs = rev (sort_key er_timestamp rs)"

lemma stable_desc_ok: "orders_desc stable_desc"
proof -
  have "sorted_wrt (\<lambda>a b. er_timestamp a \<le> er_timestamp b) (sort_key er_timestamp rs)" for rs
    using sorted_sort_key[of er_timestamp rs] by (simp add: sorted_map)
  then have "sorted_wrt (\<lambda>a b. er_timestamp b \<le> er_timestamp a) (stable_desc rs)" for rs
    by (simp add: stable_desc_def sorted_wrt_rev)
  moreover have "mset (stable_desc rs) = mset rs" for rs by (simp add: stable_desc_def)
  ultimately show ?thesis by (simp add: orders_desc_def)
qed

end
