(* ===== verification/Tables.thy ===== *)
theory Tables
  imports Prelude
begin

text \<open>
  The interface of a table with one row per key: SQL tables with a primary key and upserts, and
  hash maps whose iteration order shows and which are therefore lists.  Clients use the lookup laws
  only; each table of the model interprets the locale in its own theory.
\<close>

locale keyed_table =
  fixes inv :: "'t \<Rightarrow> bool"
    and adm :: "'v \<Rightarrow> bool"
    and key :: "'v \<Rightarrow> 'k"
    and lookup :: "'t \<Rightarrow> 'k \<Rightarrow> 'v option"
    and update :: "'v \<Rightarrow> 't \<Rightarrow> 't"
    and remove :: "'k \<Rightarrow> 't \<Rightarrow> 't"
  assumes inv_update: "inv t \<Longrightarrow> adm v \<Longrightarrow> inv (update v t)"
    and inv_remove: "inv t \<Longrightarrow> inv (remove k t)"
    and lookup_update: "inv t \<Longrightarrow> adm v \<Longrightarrow> lookup (update v t) j = (if j = key v then Some v else lookup t j)"
    and lookup_remove: "inv t \<Longrightarrow> lookup (remove k t) j = (if j = k then None else lookup t j)"
begin

text \<open>The table is a finite map: updates act on its view as they do on a HOL map.\<close>

lemma view_update: "inv t \<Longrightarrow> adm v \<Longrightarrow> lookup (update v t) = (lookup t)(key v \<mapsto> v)"
  by (auto simp: fun_eq_iff lookup_update)

lemma view_remove: "inv t \<Longrightarrow> lookup (remove k t) = (lookup t)(k := None)"
  by (auto simp: fun_eq_iff lookup_remove)

lemma inv_updates: "inv t \<Longrightarrow> \<forall>v \<in> set vs. adm v \<Longrightarrow> inv (fold update vs t)"
  by (induction vs arbitrary: t) (auto simp: inv_update)

lemma view_updates:
  "inv t \<Longrightarrow> \<forall>v \<in> set vs. adm v
    \<Longrightarrow> lookup (fold update vs t) = lookup t ++ map_of (map (\<lambda>v. (key v, v)) (rev vs))"
proof (induction vs arbitrary: t)
  case (Cons v vs)
  then have "lookup (fold update vs (update v t))
      = lookup (update v t) ++ map_of (map (\<lambda>v. (key v, v)) (rev vs))"
    by (simp add: inv_update)
  with Cons.prems show ?case by (simp add: view_update)
qed simp

text \<open>The last write to a key wins.\<close>

lemma last_write_wins:
  assumes "inv t" and "\<forall>w \<in> set (vs @ v # ws). adm w" and "key v \<notin> key ` set ws"
  shows "lookup (fold update (vs @ v # ws) t) (key v) = Some v"
proof -
  have "map_of (map (\<lambda>v. (key v, v)) (rev ws)) (key v) = None"
    using assms(3) by (auto simp: map_of_eq_None_iff)
  then show ?thesis using view_updates[OF assms(1,2)] by (simp add: map_add_def)
qed

text \<open>A removed key stays absent until it is written again.\<close>

lemma removed_stays:
  assumes "inv t" and "\<forall>w \<in> set ws. adm w" and "k \<notin> key ` set ws"
  shows "lookup (fold update ws (remove k t)) k = None"
  using view_updates[OF inv_remove[OF assms(1)] assms(2), of k] assms(1,3)
  by (auto simp: map_add_def view_remove map_of_eq_None_iff split: option.split)

end

subsection \<open>Rows in a list\<close>

text \<open>The rows of an SQL table or of an insertion-ordered map: a new key goes to the end, an update
  keeps its place.\<close>

fun upsert :: "('v \<Rightarrow> 'k) \<Rightarrow> 'v \<Rightarrow> 'v list \<Rightarrow> 'v list" where
  "upsert key v [] = [v]"
| "upsert key v (r # rs) = (if key r = key v then v # rs else r # upsert key v rs)"

lemma upsert_keys: "key ` set (upsert key v rs) = insert (key v) (key ` set rs)"
  by (induction rs) auto

lemma upsert_distinct: "distinct (map key rs) \<Longrightarrow> distinct (map key (upsert key v rs))"
proof (induction rs)
  case (Cons r rs)
  then show ?case using upsert_keys[of key v rs] by (auto simp: image_iff)
qed simp

lemma upsert_find:
  "List.find (\<lambda>r. key r = k) (upsert key v rs)
    = (if k = key v then Some v else List.find (\<lambda>r. key r = k) rs)"
  by (induction rs) auto

lemma upsert_all: "list_all P rs \<Longrightarrow> P v \<Longrightarrow> list_all P (upsert key v rs)"
  by (induction rs) auto

end
