(* ===== verification/Analysis_Cache.thy ===== *)
theory Analysis_Cache
  imports Database Tables
begin

text \<open>
  The cache of analysis results of \<open>crates/ambient-fs-store/src/cache.rs\<close>.  The JSON texts of the
  list columns are written and read by the crate serde_json, the parameter \<open>list_codec\<close>; a text that
  does not parse reads as the empty list, as \<open>unwrap_or_default\<close> does.
\<close>

record list_codec =
  enc_exports :: "string list \<Rightarrow> string"
  dec_exports :: "string \<Rightarrow> string list option"
  enc_imports :: "import_ref list \<Rightarrow> string"
  dec_imports :: "string \<Rightarrow> import_ref list option"
  enc_hints :: "lint_hint list \<Rightarrow> string"
  dec_hints :: "string \<Rightarrow> lint_hint list option"

definition or_default :: "'a list option \<Rightarrow> 'a list" where
  "or_default x = (case x of None \<Rightarrow> [] | Some l \<Rightarrow> l)"

text \<open>The lists of an analysis survive serialization.\<close>

definition codec_keeps :: "list_codec \<Rightarrow> file_analysis \<Rightarrow> bool" where
  "codec_keeps c a \<longleftrightarrow>
     dec_exports c (enc_exports c (an_exports a)) = Some (an_exports a) \<and>
     dec_imports c (enc_imports c (an_imports a)) = Some (an_imports a) \<and>
     dec_hints c (enc_hints c (an_lint_hints a)) = Some (an_lint_hints a)"

subsection \<open>Operations\<close>

definition cache_open :: "database \<Rightarrow> database" where
  "cache_open db = db\<lparr>db_analysis := (case db_analysis db of None \<Rightarrow> Some [] | Some t \<Rightarrow> Some t)\<rparr>"

definition with_analysis :: "database \<Rightarrow> (analysis_row list \<Rightarrow> 'a) \<Rightarrow> sqlite_error + 'a" where
  "with_analysis db f =
     (case db_analysis db of None \<Rightarrow> Inl (NoSuchTable ''file_analysis'') | Some rs \<Rightarrow> Inr (f rs))"

definition analysis_of_row :: "list_codec \<Rightarrow> analysis_row \<Rightarrow> file_analysis" where
  "analysis_of_row c r =
     \<lparr>an_file_path = ar_file_path r, an_project_id = ar_project_id r,
      an_content_hash = ar_content_hash r,
      an_exports = or_default (dec_exports c (ar_exports r)),
      an_imports = or_default (dec_imports c (ar_imports r)),
      an_todo_count = ar_todo_count r,
      an_lint_hints = or_default (dec_hints c (ar_lint_hints r)),
      an_line_count = ar_line_count r\<rparr>"

definition row_key :: "analysis_row \<Rightarrow> string \<times> string" where
  "row_key r = (ar_project_id r, ar_file_path r)"

definition cache_get :: "list_codec \<Rightarrow> string \<Rightarrow> string \<Rightarrow> database \<Rightarrow> sqlite_error + file_analysis option" where
  "cache_get c pid path db =
     with_analysis db (\<lambda>rs.
       map_option (analysis_of_row c) (List.find (\<lambda>r. row_key r = (pid, path)) rs))"

definition cache_get_if_fresh ::
  "list_codec \<Rightarrow> string \<Rightarrow> string \<Rightarrow> string \<Rightarrow> database \<Rightarrow> sqlite_error + file_analysis option" where
  "cache_get_if_fresh c pid path hash db =
     with_analysis db (\<lambda>rs. map_option (analysis_of_row c)
       (List.find (\<lambda>r. row_key r = (pid, path) \<and> ar_content_hash r = hash) rs))"

definition cache_is_fresh :: "string \<Rightarrow> string \<Rightarrow> string \<Rightarrow> database \<Rightarrow> sqlite_error + bool" where
  "cache_is_fresh pid path hash db =
     with_analysis db (\<lambda>rs. list_ex (\<lambda>r. row_key r = (pid, path) \<and> ar_content_hash r = hash) rs)"

definition analysis_row_of :: "list_codec \<Rightarrow> timestamp \<Rightarrow> file_analysis \<Rightarrow> analysis_row" where
  "analysis_row_of c now a =
     \<lparr>ar_file_path = an_file_path a, ar_project_id = an_project_id a,
      ar_content_hash = an_content_hash a, ar_analyzed_at = SInt (now div nanos_per_sec),
      ar_exports = enc_exports c (an_exports a), ar_imports = enc_imports c (an_imports a),
      ar_todo_count = an_todo_count a, ar_lint_hints = enc_hints c (an_lint_hints a),
      ar_line_count = an_line_count a\<rparr>"

definition cache_put :: "list_codec \<Rightarrow> timestamp \<Rightarrow> file_analysis \<Rightarrow> database \<Rightarrow> sqlite_error + database" where
  "cache_put c now a db =
     with_analysis db (\<lambda>rs. db\<lparr>db_analysis := Some (upsert row_key (analysis_row_of c now a) rs)\<rparr>)"

definition cache_invalidate :: "string \<Rightarrow> string \<Rightarrow> database \<Rightarrow> sqlite_error + database" where
  "cache_invalidate pid path db =
     with_analysis db (\<lambda>rs. db\<lparr>db_analysis := Some (filter (\<lambda>r. row_key r \<noteq> (pid, path)) rs)\<rparr>)"

text \<open>\<open>LIMIT 1\<close> without an order: the row the query plan meets first, the parameter \<open>plan\<close>.\<close>

definition cache_get_by_hash ::
  "(analysis_row list \<Rightarrow> analysis_row list) \<Rightarrow> list_codec \<Rightarrow> string \<Rightarrow> string \<Rightarrow> database
    \<Rightarrow> sqlite_error + file_analysis option" where
  "cache_get_by_hash plan c pid hash db =
     with_analysis db (\<lambda>rs. map_option (analysis_of_row c)
       (case plan (filter (\<lambda>r. ar_project_id r = pid \<and> ar_content_hash r = hash) rs) of
          [] \<Rightarrow> None | r # _ \<Rightarrow> Some r))"

subsection \<open>The table behind the cache\<close>

definition cache_rows :: "database \<Rightarrow> analysis_row list" where
  "cache_rows db = (case db_analysis db of None \<Rightarrow> [] | Some rs \<Rightarrow> rs)"

definition cache_ok :: "database \<Rightarrow> bool" where
  "cache_ok db \<longleftrightarrow> db_analysis db \<noteq> None \<and> distinct (map row_key (cache_rows db))"

definition analysis_key :: "file_analysis \<Rightarrow> string \<times> string" where
  "analysis_key a = (an_project_id a, an_file_path a)"

definition cache_view :: "list_codec \<Rightarrow> database \<Rightarrow> string \<times> string \<Rightarrow> file_analysis option" where
  "cache_view c db k = the (ok_of (cache_get c (fst k) (snd k) db))"

definition cache_write :: "list_codec \<Rightarrow> timestamp \<Rightarrow> file_analysis \<Rightarrow> database \<Rightarrow> database" where
  "cache_write c now a db = the (ok_of (cache_put c now a db))"

definition cache_drop :: "string \<times> string \<Rightarrow> database \<Rightarrow> database" where
  "cache_drop k db = the (ok_of (cache_invalidate (fst k) (snd k) db))"

lemma with_analysis_ok: "cache_ok db \<Longrightarrow> with_analysis db f = Inr (f (cache_rows db))"
  by (auto simp: cache_ok_def with_analysis_def cache_rows_def)

lemma row_key_of [simp]: "row_key (analysis_row_of c now a) = analysis_key a"
  by (simp add: row_key_def analysis_row_of_def analysis_key_def)

lemma analysis_of_row_of: "codec_keeps c a \<Longrightarrow> analysis_of_row c (analysis_row_of c now a) = a"
  by (simp add: analysis_of_row_def analysis_row_of_def codec_keeps_def or_default_def)

lemma cache_open_ok: "db_analysis db = None \<Longrightarrow> cache_ok (cache_open db)"
  by (simp add: cache_ok_def cache_open_def cache_rows_def)

text \<open>On a cache that has its table, no operation fails.\<close>

lemma cache_ops_succeed:
  assumes "cache_ok db"
  shows "cache_get c pid path db = Inr (cache_view c db (pid, path))"
    and "cache_put c now a db = Inr (cache_write c now a db)"
    and "cache_invalidate pid path db = Inr (cache_drop (pid, path) db)"
  using assms
  by (simp_all add: cache_get_def cache_view_def cache_put_def cache_write_def
      cache_invalidate_def cache_drop_def with_analysis_ok)

interpretation cache: keyed_table cache_ok "codec_keeps c" analysis_key "cache_view c"
  "cache_write c now" cache_drop for c now
proof
  fix db a j k
  assume ok: "cache_ok db"
  show "cache_ok (cache_drop k db)"
    using ok by (simp add: cache_drop_def cache_invalidate_def with_analysis_ok)
      (simp add: cache_ok_def cache_rows_def distinct_map_filter)
  show "cache_view c (cache_drop k db) j = (if j = k then None else cache_view c db j)"
  proof -
    have "cache_rows (cache_drop k db) = filter (\<lambda>r. row_key r \<noteq> k) (cache_rows db)"
      using ok by (simp add: cache_drop_def cache_invalidate_def with_analysis_ok) (simp add: cache_rows_def)
    then show ?thesis using ok \<open>cache_ok (cache_drop k db)\<close>
      by (auto simp: cache_view_def cache_get_def with_analysis_ok find_filter_ne)
  qed
  assume keeps: "codec_keeps c a"
  have rows: "cache_rows (cache_write c now a db) = upsert row_key (analysis_row_of c now a) (cache_rows db)"
    using ok by (simp add: cache_write_def cache_put_def with_analysis_ok) (simp add: cache_rows_def)
  show ok': "cache_ok (cache_write c now a db)"
    using ok rows by (simp add: cache_write_def cache_put_def with_analysis_ok)
      (simp add: cache_ok_def upsert_distinct)
  show "cache_view c (cache_write c now a db) j
      = (if j = analysis_key a then Some a else cache_view c db j)"
    using ok ok' keeps
    by (auto simp: cache_view_def cache_get_def with_analysis_ok rows upsert_find analysis_of_row_of)
qed

text \<open>Freshness is about the row that \<open>get\<close> finds, because a key has one row only.\<close>

lemma find_conj_unique:
  "distinct (map f rs) \<Longrightarrow>
    List.find (\<lambda>r. f r = k \<and> Q r) rs = (case List.find (\<lambda>r. f r = k) rs of
      None \<Rightarrow> None | Some r \<Rightarrow> if Q r then Some r else None)"
proof (induction rs)
  case (Cons r rs)
  show ?case
  proof (cases "f r = k")
    case True
    then have "\<forall>r' \<in> set rs. f r' \<noteq> k" using Cons.prems by (auto simp: image_iff)
    then have "List.find (\<lambda>r. f r = k \<and> Q r) rs = None" by (auto simp: find_None_iff)
    with True show ?thesis by simp
  qed (use Cons in simp)
qed simp

definition fresh_view :: "list_codec \<Rightarrow> database \<Rightarrow> string \<times> string \<Rightarrow> string \<Rightarrow> file_analysis option" where
  "fresh_view c db k hash =
     (case cache_view c db k of None \<Rightarrow> None | Some a \<Rightarrow> if is_valid_for a hash then Some a else None)"

lemma cache_fresh_spec:
  assumes "cache_ok db"
  shows "cache_get_if_fresh c pid path hash db = Inr (fresh_view c db (pid, path) hash)"
    and "cache_is_fresh pid path hash db = Inr (fresh_view c db (pid, path) hash \<noteq> None)"
proof -
  have d: "distinct (map row_key (cache_rows db))" using assms by (simp add: cache_ok_def)
  have hash: "an_content_hash (analysis_of_row c r) = ar_content_hash r" for r
    by (simp add: analysis_of_row_def)
  note find_conj_unique[OF d, of "(pid, path)" "\<lambda>r. ar_content_hash r = hash"]
  moreover have "list_ex P rs \<longleftrightarrow> List.find P rs \<noteq> None" for P and rs :: "analysis_row list"
    by (auto simp: list_ex_iff find_None_iff)
  ultimately show "cache_get_if_fresh c pid path hash db = Inr (fresh_view c db (pid, path) hash)"
    and "cache_is_fresh pid path hash db = Inr (fresh_view c db (pid, path) hash \<noteq> None)"
    using assms
    by (auto simp: fresh_view_def cache_get_if_fresh_def cache_is_fresh_def cache_view_def cache_get_def
        with_analysis_ok is_valid_for_def hash split: option.split)
qed

subsection \<open>Properties\<close>

text \<open>
  C35. The cache answers with the last analysis stored for a file: after any writes the last of which
  for its file is \<open>a\<close>, \<open>get\<close> returns \<open>a\<close>, \<open>get_if_fresh\<close> returns it exactly for the content hash it was
  computed from, \<open>is_fresh\<close> agrees, and after \<open>invalidate\<close> all three find nothing.  Hypotheses: the cache has its table, and the
  JSON texts of the stored lists read back as the lists.
\<close>

theorem cache_answers_last_write:
  assumes "cache_ok db" and "\<forall>b \<in> set (as @ a # bs). codec_keeps c b"
    and "analysis_key a \<notin> analysis_key ` set bs"
  shows "let db' = fold (cache_write c now) (as @ a # bs) db;
             pid = an_project_id a; path = an_file_path a; db'' = cache_drop (pid, path) db' in
    cache_get c pid path db' = Inr (Some a) \<and>
    cache_get_if_fresh c pid path h db' = Inr (if h = an_content_hash a then Some a else None) \<and>
    cache_is_fresh pid path h db' = Inr (h = an_content_hash a) \<and>
    cache_invalidate pid path db' = Inr db'' \<and>
    cache_get c pid path db'' = Inr None \<and> cache_get_if_fresh c pid path h db'' = Inr None \<and>
    cache_is_fresh pid path h db'' = Inr False"
proof -
  let ?db' = "fold (cache_write c now) (as @ a # bs) db"
  have ok: "cache_ok ?db'" by (rule cache.inv_updates[OF assms(1,2)])
  have ok': "cache_ok (cache_drop (an_project_id a, an_file_path a) ?db')"
    by (rule cache.inv_remove[OF ok])
  have view: "cache_view c ?db' (an_project_id a, an_file_path a) = Some a"
    using cache.last_write_wins[OF assms] by (simp add: analysis_key_def)
  have none: "cache_view c (cache_drop (an_project_id a, an_file_path a) ?db')
      (an_project_id a, an_file_path a) = None"
    using cache.lookup_remove[OF ok] by simp
  note fresh = cache_fresh_spec[OF ok, where c = c] cache_fresh_spec[OF ok', where c = c]
  show ?thesis
    unfolding Let_def fresh cache_ops_succeed[OF ok] cache_ops_succeed[OF ok']
    using view none by (auto simp: fresh_view_def is_valid_for_def)
qed

definition demo_codec :: list_codec where
  "demo_codec = \<lparr>enc_exports = (\<lambda>_. ''[]''), dec_exports = (\<lambda>_. Some []),
     enc_imports = (\<lambda>_. ''[]''), dec_imports = (\<lambda>_. Some []),
     enc_hints = (\<lambda>_. ''[]''), dec_hints = (\<lambda>_. Some [])\<rparr>"

theorem cache_answers_last_write_witness:
  "let db' = fold (cache_write demo_codec 0)
       [file_analysis_empty ''f'' ''p'' ''h1'', file_analysis_empty ''f'' ''p'' ''h2'',
        file_analysis_empty ''g'' ''p'' ''h3''] (cache_open database_empty) in
   cache_get demo_codec ''p'' ''f'' db' = Inr (Some (file_analysis_empty ''f'' ''p'' ''h2'')) \<and>
   cache_is_fresh ''p'' ''f'' ''h1'' db' = Inr False"
proof -
  have "cache_ok (cache_open database_empty)" by (simp add: cache_open_ok database_empty_def)
  from cache_answers_last_write[OF this, of "[file_analysis_empty ''f'' ''p'' ''h1'']"
      "file_analysis_empty ''f'' ''p'' ''h2''" "[file_analysis_empty ''g'' ''p'' ''h3'']" demo_codec 0 "''h1''"]
  show ?thesis
    by (simp add: codec_keeps_def demo_codec_def file_analysis_empty_def analysis_key_def Let_def)
qed

end
