(* ===== verification/Event_Store.thy ===== *)
theory Event_Store
  imports Database
begin

text \<open>
  The event log and project registry of \<open>crates/ambient-fs-store/src/store.rs\<close>.  An operation that
  the code performs on its connection takes the database and returns an error or the result with
  the new database.  \<open>fmt\<close>, \<open>parse\<close> and \<open>od\<close> are the parameters of the theory \<open>Database\<close>.
\<close>

subsection \<open>Filters\<close>

record event_filter =
  flt_project_id :: "string option"
  flt_file_path :: "string option"
  flt_source :: "source option"
  flt_since :: "timestamp option"
  flt_limit :: "nat option"

definition event_filter_new :: event_filter where
  "event_filter_new = \<lparr>flt_project_id = None, flt_file_path = None, flt_source = None,
     flt_since = None, flt_limit = None\<rparr>"

definition filter_project_id :: "string \<Rightarrow> event_filter \<Rightarrow> event_filter" where
  "filter_project_id p f = f\<lparr>flt_project_id := Some p\<rparr>"

definition filter_file_path :: "string \<Rightarrow> event_filter \<Rightarrow> event_filter" where
  "filter_file_path p f = f\<lparr>flt_file_path := Some p\<rparr>"

definition filter_source :: "source \<Rightarrow> event_filter \<Rightarrow> event_filter" where
  "filter_source s f = f\<lparr>flt_source := Some s\<rparr>"

definition filter_since :: "timestamp \<Rightarrow> event_filter \<Rightarrow> event_filter" where
  "filter_since t f = f\<lparr>flt_since := Some t\<rparr>"

definition filter_limit :: "nat \<Rightarrow> event_filter \<Rightarrow> event_filter" where
  "filter_limit n f = f\<lparr>flt_limit := Some n\<rparr>"

lemmas filter_builder_defs = event_filter_new_def filter_project_id_def filter_file_path_def
  filter_source_def filter_since_def filter_limit_def

subsection \<open>Opening\<close>

text \<open>The indexes that are created as well have no effect on results.\<close>

definition event_store_new :: "database \<Rightarrow> database" where
  "event_store_new db = db
     \<lparr>db_events := (case db_events db of
          None \<Rightarrow> Some \<lparr>et_rows = [], et_seq = 0, et_checked = True\<rparr> | Some t \<Rightarrow> Some t),
      db_projects := (case db_projects db of None \<Rightarrow> Some (StoreProjects []) | Some t \<Rightarrow> Some t)\<rparr>"

subsection \<open>Inserting\<close>

definition event_row_of :: "(timestamp \<Rightarrow> string) \<Rightarrow> int \<Rightarrow> file_event \<Rightarrow> event_row" where
  "event_row_of fmt i e =
     \<lparr>er_id = i, er_timestamp = fmt (ev_timestamp e), er_event_type = event_type_as_str (ev_type e),
      er_file_path = ev_file_path e, er_project_id = ev_project_id e,
      er_source = source_as_str (ev_source e), er_source_id = ev_source_id e,
      er_machine_id = ev_machine_id e, er_content_hash = ev_content_hash e,
      er_old_path = ev_old_path e\<rparr>"

definition row_checks :: "event_row \<Rightarrow> bool" where
  "row_checks r \<longleftrightarrow>
     er_event_type r \<in> set [''created'', ''modified'', ''deleted'', ''renamed''] \<and>
     er_source r \<in> set [''user'', ''ai_agent'', ''git'', ''build'', ''voice'']"

definition store_insert ::
  "(timestamp \<Rightarrow> string) \<Rightarrow> file_event \<Rightarrow> database \<Rightarrow> store_error + int \<times> database" where
  "store_insert fmt e db =
     (case db_events db of
        None \<Rightarrow> Inl (Sqlite (NoSuchTable ''file_events''))
      | Some t \<Rightarrow>
          (let i = et_seq t + 1; r = event_row_of fmt i e in
           if max_i64 < i then Inl (Sqlite DatabaseFull)
           else if et_checked t \<and> \<not> row_checks r then Inl (Sqlite (ConstraintFailed ''file_events''))
           else Inr (i, db\<lparr>db_events := Some (t\<lparr>et_rows := et_rows t @ [r], et_seq := i\<rparr>)\<rparr>)))"

text \<open>The loop of \<open>insert_batch\<close>; an error leaves the function before \<open>commit\<close>, so the transaction is
  rolled back and the database is the old one.\<close>

fun insert_all ::
  "(timestamp \<Rightarrow> string) \<Rightarrow> file_event list \<Rightarrow> database \<Rightarrow> store_error + int list \<times> database" where
  "insert_all fmt [] db = Inr ([], db)"
| "insert_all fmt (e # es) db =
     bind_res (store_insert fmt e db) (\<lambda>(i, db').
     bind_res (insert_all fmt es db') (\<lambda>(is, db''). Inr (i # is, db'')))"

definition store_insert_batch ::
  "(timestamp \<Rightarrow> string) \<Rightarrow> file_event list \<Rightarrow> database \<Rightarrow> (store_error + int list) \<times> database" where
  "store_insert_batch fmt es db =
     (case insert_all fmt es db of Inl err \<Rightarrow> (Inl err, db) | Inr (is, db') \<Rightarrow> (Inr is, db'))"

subsection \<open>Querying\<close>

definition event_of_row :: "(string \<Rightarrow> string + timestamp) \<Rightarrow> event_row \<Rightarrow> store_error + file_event" where
  "event_of_row parse r =
     bind_res (map_err TimestampParse (parse (er_timestamp r))) (\<lambda>ts.
     bind_res (map_err Parse (event_type_from_str (er_event_type r))) (\<lambda>et.
     bind_res (map_err Parse (source_from_str (er_source r))) (\<lambda>src.
     Inr \<lparr>ev_timestamp = ts, ev_type = et, ev_file_path = er_file_path r,
          ev_project_id = er_project_id r, ev_source = src, ev_source_id = er_source_id r,
          ev_machine_id = er_machine_id r, ev_content_hash = er_content_hash r,
          ev_old_path = er_old_path r\<rparr>)))"

fun collect_rows :: "(string \<Rightarrow> string + timestamp) \<Rightarrow> event_row list \<Rightarrow> store_error + file_event list" where
  "collect_rows parse [] = Inr []"
| "collect_rows parse (r # rs) =
     bind_res (event_of_row parse r) (\<lambda>e. bind_res (collect_rows parse rs) (\<lambda>es. Inr (e # es)))"

text \<open>The WHERE clause that the code assembles from the filter's fields.\<close>

definition row_matches :: "(timestamp \<Rightarrow> string) \<Rightarrow> event_filter \<Rightarrow> event_row \<Rightarrow> bool" where
  "row_matches fmt f r \<longleftrightarrow>
     (case flt_project_id f of None \<Rightarrow> True | Some p \<Rightarrow> er_project_id r = p) \<and>
     (case flt_file_path f of None \<Rightarrow> True | Some p \<Rightarrow> er_file_path r = p) \<and>
     (case flt_source f of None \<Rightarrow> True | Some s \<Rightarrow> er_source r = source_as_str s) \<and>
     (case flt_since f of None \<Rightarrow> True | Some t \<Rightarrow> fmt t \<le> er_timestamp r)"

text \<open>A LIMIT that is not a 64-bit integer is a datatype mismatch.\<close>

definition store_query ::
  "(event_row list \<Rightarrow> event_row list) \<Rightarrow> (timestamp \<Rightarrow> string) \<Rightarrow> (string \<Rightarrow> string + timestamp)
    \<Rightarrow> event_filter \<Rightarrow> database \<Rightarrow> store_error + file_event list" where
  "store_query od fmt parse f db =
     (case db_events db of
        None \<Rightarrow> Inl (Sqlite (NoSuchTable ''file_events''))
      | Some t \<Rightarrow>
          (let rows = od (filter (row_matches fmt f) (et_rows t)) in
           case flt_limit f of
             None \<Rightarrow> collect_rows parse rows
           | Some n \<Rightarrow> if max_i64 < int n then Inl (Sqlite DatatypeMismatch)
                       else collect_rows parse (take n rows)))"

definition store_get_latest ::
  "(event_row list \<Rightarrow> event_row list) \<Rightarrow> (string \<Rightarrow> string + timestamp)
    \<Rightarrow> string \<Rightarrow> string \<Rightarrow> database \<Rightarrow> store_error + file_event option" where
  "store_get_latest od parse pid path db =
     (case db_events db of
        None \<Rightarrow> Inl (Sqlite (NoSuchTable ''file_events''))
      | Some t \<Rightarrow>
          (case take 1 (od (filter (\<lambda>r. er_project_id r = pid \<and> er_file_path r = path) (et_rows t))) of
             [] \<Rightarrow> Inr None
           | r # _ \<Rightarrow> bind_res (event_of_row parse r) (\<lambda>e. Inr (Some e))))"

subsection \<open>The project registry\<close>

definition with_projects ::
  "database \<Rightarrow> (project_row list \<Rightarrow> store_error + 'a) \<Rightarrow> store_error + 'a" where
  "with_projects db f =
     (case db_projects db of
        None \<Rightarrow> Inl (Sqlite (NoSuchTable ''projects''))
      | Some MigratedProjects \<Rightarrow> Inl (Sqlite (NoSuchColumn ''project_id''))
      | Some (StoreProjects rs) \<Rightarrow> f rs)"

definition set_projects :: "database \<Rightarrow> project_row list \<Rightarrow> database" where
  "set_projects db rs = db\<lparr>db_projects := Some (StoreProjects rs)\<rparr>"

text \<open>\<open>INSERT OR IGNORE\<close>: a row with the key stays as it is.\<close>

definition store_add_project ::
  "(timestamp \<Rightarrow> string) \<Rightarrow> timestamp \<Rightarrow> string \<Rightarrow> string \<Rightarrow> database \<Rightarrow> store_error + database" where
  "store_add_project fmt now pid path db =
     (case to_str path of
        None \<Rightarrow> Inl (TimestampParse ''invalid path'')
      | Some p \<Rightarrow> with_projects db (\<lambda>rs.
          Inr (if list_ex (\<lambda>r. pr_project_id r = pid) rs then db
               else set_projects db
                 (rs @ [\<lparr>pr_project_id = pid, pr_path = p, pr_created_at = fmt now\<rparr>]))))"

definition store_remove_project :: "string \<Rightarrow> database \<Rightarrow> store_error + database" where
  "store_remove_project pid db =
     with_projects db (\<lambda>rs. Inr (set_projects db (filter (\<lambda>r. pr_project_id r \<noteq> pid) rs)))"

definition store_get_project_path :: "string \<Rightarrow> database \<Rightarrow> store_error + string option" where
  "store_get_project_path pid db =
     with_projects db (\<lambda>rs. Inr (map_option pr_path (List.find (\<lambda>r. pr_project_id r = pid) rs)))"

text \<open>\<open>ORDER BY created_at\<close>; \<open>op\<close> orders the rows, as \<open>od\<close> does for events.\<close>

definition store_list_projects ::
  "(project_row list \<Rightarrow> project_row list) \<Rightarrow> database \<Rightarrow> store_error + (string \<times> string) list" where
  "store_list_projects op db =
     with_projects db (\<lambda>rs. Inr (map (\<lambda>r. (pr_project_id r, pr_path r)) (op rs)))"


subsection \<open>The interface of an event log\<close>

text \<open>What the servers rely on: storing an event adds exactly that event to the answer of every
  query it matches, and answers are ordered.\<close>

locale event_log =
  fixes inv :: "'s \<Rightarrow> bool"
    and adm :: "'e \<Rightarrow> bool"
    and put :: "'e \<Rightarrow> 's \<Rightarrow> 's option"
    and qadm :: "'f \<Rightarrow> bool"
    and sel :: "'f \<Rightarrow> 's \<Rightarrow> 'e list"
    and matches :: "'f \<Rightarrow> 'e \<Rightarrow> bool"
    and ordered :: "'e list \<Rightarrow> bool"
  assumes put_inv: "inv s \<Longrightarrow> adm e \<Longrightarrow> put e s = Some s' \<Longrightarrow> inv s'"
    and sel_put: "inv s \<Longrightarrow> adm e \<Longrightarrow> put e s = Some s' \<Longrightarrow> qadm f
      \<Longrightarrow> mset (sel f s') = mset (sel f s) + mset (filter (matches f) [e])"
    and sel_ordered: "inv s \<Longrightarrow> qadm f \<Longrightarrow> ordered (sel f s)"
begin

fun puts :: "'e list \<Rightarrow> 's \<Rightarrow> 's option" where
  "puts [] s = Some s"
| "puts (e # es) s = Option.bind (put e s) (puts es)"

lemma puts_inv: "inv s \<Longrightarrow> \<forall>e \<in> set es. adm e \<Longrightarrow> puts es s = Some s' \<Longrightarrow> inv s'"
  by (induction es arbitrary: s) (auto simp: bind_eq_Some_conv dest: put_inv)

lemma sel_puts:
  "inv s \<Longrightarrow> \<forall>e \<in> set es. adm e \<Longrightarrow> puts es s = Some s' \<Longrightarrow> qadm f
    \<Longrightarrow> mset (sel f s') = mset (sel f s) + mset (filter (matches f) es)"
proof (induction es arbitrary: s)
  case (Cons e es)
  then obtain s1 where 1: "put e s = Some s1" "puts es s1 = Some s'"
    by (auto simp: bind_eq_Some_conv)
  have "mset (sel f s') = mset (sel f s1) + mset (filter (matches f) es)"
    using Cons.IH[of s1] Cons.prems 1 put_inv[OF _ _ 1(1)] by simp
  then show ?case using sel_put[OF _ _ 1(1), of f] Cons.prems by simp
qed simp

text \<open>The order in which events arrive does not show in the set of answers.\<close>

lemma puts_perm:
  assumes "inv s" and "\<forall>e \<in> set es. adm e" and "mset es = mset fs"
    and "puts es s = Some s1" and "puts fs s = Some s2" and "qadm f"
  shows "mset (sel f s1) = mset (sel f s2)"
proof -
  have "\<forall>e \<in> set fs. adm e" using assms(2,3) by (metis set_mset_mset)
  then show ?thesis
    using sel_puts[OF assms(1,2,4,6)] sel_puts[OF assms(1) _ assms(5,6)] assms(3) by simp
qed

end

subsection \<open>What the log promises\<close>

text \<open>The abstract log is the list of the stored events with their keys.  A database holds it when the
  table's rows are the encodings of its entries, with increasing keys that were all handed out.\<close>

definition holds_log :: "(timestamp \<Rightarrow> string) \<Rightarrow> timestamp set \<Rightarrow> database \<Rightarrow> (int \<times> file_event) list \<Rightarrow> bool" where
  "holds_log fmt T db L \<longleftrightarrow>
     (\<exists>t. db_events db = Some t \<and> et_rows t = map (\<lambda>(i, e). event_row_of fmt i e) L \<and>
        0 \<le> et_seq t \<and> sorted_wrt (<) (map fst L) \<and>
        (\<forall>(i, e) \<in> set L. 0 < i \<and> i \<le> et_seq t \<and> ev_timestamp e \<in> T))"

definition key_seq :: "database \<Rightarrow> int" where
  "key_seq db = (case db_events db of None \<Rightarrow> 0 | Some t \<Rightarrow> et_seq t)"

definition event_matches :: "event_filter \<Rightarrow> file_event \<Rightarrow> bool" where
  "event_matches f e \<longleftrightarrow>
     (\<forall>p. flt_project_id f = Some p \<longrightarrow> ev_project_id e = p) \<and>
     (\<forall>p. flt_file_path f = Some p \<longrightarrow> ev_file_path e = p) \<and>
     (\<forall>s. flt_source f = Some s \<longrightarrow> ev_source e = s) \<and>
     (\<forall>t. flt_since f = Some t \<longrightarrow> t \<le> ev_timestamp e)"

definition newest_first :: "file_event list \<Rightarrow> bool" where
  "newest_first es \<longleftrightarrow> sorted_wrt (\<lambda>a b. ev_timestamp b \<le> ev_timestamp a) es"

definition row_event :: "(string \<Rightarrow> string + timestamp) \<Rightarrow> event_row \<Rightarrow> file_event" where
  "row_event parse r = the (ok_of (event_of_row parse r))"

lemma row_checks_event [simp]: "row_checks (event_row_of fmt i e)"
  by (cases "ev_type e"; cases "ev_source e")
    (simp_all add: row_checks_def event_row_of_def)

lemma event_row_of_sel [simp]:
  "er_id (event_row_of fmt i e) = i"
  "er_timestamp (event_row_of fmt i e) = fmt (ev_timestamp e)"
  "er_file_path (event_row_of fmt i e) = ev_file_path e"
  "er_project_id (event_row_of fmt i e) = ev_project_id e"
  "er_source (event_row_of fmt i e) = source_as_str (ev_source e)"
  by (simp_all add: event_row_of_def)

lemma event_of_row_of:
  "time_text_ok fmt parse T \<Longrightarrow> ev_timestamp e \<in> T
    \<Longrightarrow> event_of_row parse (event_row_of fmt i e) = Inr e"
  by (simp add: event_of_row_def event_row_of_def time_text_parse
      event_type_text.parse_print source_text.parse_print)

lemma row_event_of [simp]:
  "time_text_ok fmt parse T \<Longrightarrow> ev_timestamp e \<in> T \<Longrightarrow> row_event parse (event_row_of fmt i e) = e"
  by (simp add: row_event_def event_of_row_of)

lemma collect_rows_ok:
  "\<forall>r \<in> set rs. \<exists>e. event_of_row parse r = Inr e
    \<Longrightarrow> collect_rows parse rs = Inr (map (row_event parse) rs)"
  by (induction rs) (auto simp: row_event_def)

lemma row_matches_event:
  assumes "time_text_ok fmt parse T" and "ev_timestamp e \<in> T" and "set_option (flt_since f) \<subseteq> T"
  shows "row_matches fmt f (event_row_of fmt i e) = event_matches f e"
  using assms
  by (auto simp: row_matches_def event_matches_def time_text_le source_text.print_inj
      split: option.splits)

lemma holds_log_new [inv_intros]:
  "db_events db = None \<Longrightarrow> holds_log fmt T (event_store_new db) []"
  by (simp add: holds_log_def event_store_new_def)

lemma holds_log_keys:
  assumes "holds_log fmt T db L"
  shows "0 \<le> key_seq db" and "distinct (map fst L)" and "(i, e) \<in> set L \<Longrightarrow> 0 < i \<and> i \<le> key_seq db"
  using assms by (auto simp: holds_log_def key_seq_def strict_sorted_iff)

lemma store_insert_holds:
  assumes "holds_log fmt T db L" and "ev_timestamp e \<in> T" and "key_seq db < max_i64"
  shows "\<exists>db'. store_insert fmt e db = Inr (key_seq db + 1, db') \<and> key_seq db' = key_seq db + 1 \<and>
    holds_log fmt T db' (L @ [(key_seq db + 1, e)])"
proof -
  obtain t where t: "db_events db = Some t" "et_rows t = map (\<lambda>(i, e). event_row_of fmt i e) L"
    "0 \<le> et_seq t" "sorted_wrt (<) (map fst L)"
    "\<forall>(i, e) \<in> set L. 0 < i \<and> i \<le> et_seq t \<and> ev_timestamp e \<in> T"
    using assms(1) by (auto simp: holds_log_def)
  let ?db' = "db\<lparr>db_events := Some (t\<lparr>et_rows := et_rows t @ [event_row_of fmt (et_seq t + 1) e],
                                     et_seq := et_seq t + 1\<rparr>)\<rparr>"
  have "store_insert fmt e db = Inr (et_seq t + 1, ?db')"
    using t assms(3) by (simp add: store_insert_def key_seq_def Let_def)
  moreover have "holds_log fmt T ?db' (L @ [(et_seq t + 1, e)])"
    using t assms(2) by (fastforce simp: holds_log_def sorted_wrt_append)
  ultimately show ?thesis using t(1) by (simp add: key_seq_def)
qed

text \<open>The keys that inserting some events one after the other hands out.\<close>

fun keyed_from :: "int \<Rightarrow> 'a list \<Rightarrow> (int \<times> 'a) list" where
  "keyed_from i [] = []"
| "keyed_from i (e # es) = (i + 1, e) # keyed_from (i + 1) es"

lemma keyed_from_snd [simp]: "map snd (keyed_from i es) = es"
  by (induction es arbitrary: i) auto

lemma keyed_from_fst: "map fst (keyed_from i es) = map (\<lambda>k. i + 1 + int k) [0..<length es]"
proof (induction es arbitrary: i)
  case (Cons e es)
  have "map (\<lambda>k. i + 1 + int k) [0..<Suc (length es)]
      = (i + 1) # map (\<lambda>k. i + 1 + int (Suc k)) [0..<length es]"
    by (simp add: upt_conv_Cons map_Suc_upt[symmetric] comp_def del: upt_Suc)
  with Cons show ?case by (simp add: algebra_simps del: upt_Suc)
qed simp

lemma insert_all_holds:
  assumes "holds_log fmt T db L" and "ev_timestamp ` set es \<subseteq> T"
    and "key_seq db + int (length es) \<le> max_i64"
  shows "\<exists>db'. insert_all fmt es db = Inr (map fst (keyed_from (key_seq db) es), db') \<and>
    key_seq db' = key_seq db + int (length es) \<and>
    holds_log fmt T db' (L @ keyed_from (key_seq db) es)"
  using assms
proof (induction es arbitrary: db L)
  case (Cons e es)
  from Cons.prems obtain db1 where 1: "store_insert fmt e db = Inr (key_seq db + 1, db1)"
    "key_seq db1 = key_seq db + 1" "holds_log fmt T db1 (L @ [(key_seq db + 1, e)])"
    using store_insert_holds[of fmt T db L e] by auto
  with Cons.IH[OF 1(3)] Cons.prems show ?case by auto
qed auto

lemma store_query_spec:
  assumes ok: "time_text_ok fmt parse T" "orders_desc od" and log: "holds_log fmt T db L"
    and since: "set_option (flt_since f) \<subseteq> T" and lim: "\<forall>n \<in> set_option (flt_limit f). int n \<le> max_i64"
  shows "\<exists>es. mset es = mset (filter (event_matches f) (map snd L)) \<and> newest_first es \<and>
    store_query od fmt parse f db
      = Inr (case flt_limit f of None \<Rightarrow> es | Some n \<Rightarrow> take n es)"
proof -
  obtain t where t: "db_events db = Some t" "et_rows t = map (\<lambda>(i, e). event_row_of fmt i e) L"
    and T: "\<forall>(i, e) \<in> set L. ev_timestamp e \<in> T"
    using log by (auto simp: holds_log_def)
  let ?rows = "filter (row_matches fmt f) (et_rows t)"
  have rows: "?rows = map (\<lambda>(i, e). event_row_of fmt i e) (filter (event_matches f \<circ> snd) L)"
    unfolding t filter_map using row_matches_event[OF ok(1) _ since] T
    by (auto intro!: arg_cong[where f = "map _"] filter_cong)
  let ?es = "map (row_event parse) (od ?rows)"
  have perm: "mset (od ?rows) = mset ?rows" using ok(2) by (simp add: orders_desc_def)
  then have mem: "set (od ?rows) = set ?rows" by (metis set_mset_mset)
  have "map (row_event parse) ?rows = map snd (filter (event_matches f \<circ> snd) L)"
    unfolding rows using ok(1) T by auto
  also have "\<dots> = filter (event_matches f) (map snd L)" by (simp add: filter_map)
  finally have 1: "mset ?es = mset (filter (event_matches f) (map snd L))"
    using perm by (metis mset_map)
  have decoded: "\<exists>i e. r = event_row_of fmt i e \<and> ev_timestamp e \<in> T" if "r \<in> set (od ?rows)" for r
    using that T unfolding mem unfolding rows by fastforce
  have "sorted_wrt (\<lambda>a b. er_timestamp b \<le> er_timestamp a) (od ?rows)"
    using ok(2) by (simp add: orders_desc_def)
  then have 2: "newest_first ?es"
    unfolding newest_first_def sorted_wrt_map
  proof (rule sorted_wrt_mono_rel[rotated])
    fix a b assume "a \<in> set (od ?rows)" "b \<in> set (od ?rows)" "er_timestamp b \<le> er_timestamp a"
    then show "ev_timestamp (row_event parse b) \<le> ev_timestamp (row_event parse a)"
      using decoded[of a] decoded[of b] ok(1) by (auto simp: time_text_le)
  qed
  have 3: "collect_rows parse rs = Inr (map (row_event parse) rs)" if "set rs \<subseteq> set (od ?rows)" for rs
    using that decoded event_of_row_of[OF ok(1)] by (intro collect_rows_ok) blast
  have "store_query od fmt parse f db = Inr (case flt_limit f of None \<Rightarrow> ?es | Some n \<Rightarrow> take n ?es)"
    using lim t(1) 3[of "od ?rows"] 3[of "take _ (od ?rows)"] set_take_subset[of _ "od ?rows"]
    by (auto simp: store_query_def Let_def take_map split: option.split)
  with 1 2 show ?thesis by blast
qed

text \<open>The store is such a log, with the parameters' hypotheses in its invariant.\<close>

definition log_inv ::
  "(event_row list \<Rightarrow> event_row list) \<Rightarrow> (timestamp \<Rightarrow> string) \<Rightarrow> (string \<Rightarrow> string + timestamp)
    \<Rightarrow> timestamp set \<Rightarrow> database \<Rightarrow> bool" where
  "log_inv od fmt parse T db \<longleftrightarrow> time_text_ok fmt parse T \<and> orders_desc od \<and> (\<exists>L. holds_log fmt T db L)"

definition log_put :: "(timestamp \<Rightarrow> string) \<Rightarrow> file_event \<Rightarrow> database \<Rightarrow> database option" where
  "log_put fmt e db = map_option snd (ok_of (store_insert fmt e db))"

definition log_sel ::
  "(event_row list \<Rightarrow> event_row list) \<Rightarrow> (timestamp \<Rightarrow> string) \<Rightarrow> (string \<Rightarrow> string + timestamp)
    \<Rightarrow> event_filter \<Rightarrow> database \<Rightarrow> file_event list" where
  "log_sel od fmt parse f db = the (ok_of (store_query od fmt parse f db))"

definition filter_adm :: "timestamp set \<Rightarrow> event_filter \<Rightarrow> bool" where
  "filter_adm T f \<longleftrightarrow> set_option (flt_since f) \<subseteq> T \<and> flt_limit f = None"

lemma log_sel_holds:
  assumes "time_text_ok fmt parse T" "orders_desc od" "holds_log fmt T db L" "filter_adm T f"
  shows "mset (log_sel od fmt parse f db) = mset (filter (event_matches f) (map snd L))"
    and "newest_first (log_sel od fmt parse f db)"
  using store_query_spec[OF assms(1,2,3), of f] assms(4) by (auto simp: filter_adm_def log_sel_def)

lemma log_put_holds:
  assumes "holds_log fmt T db L" "ev_timestamp e \<in> T" "log_put fmt e db = Some db'"
  shows "holds_log fmt T db' (L @ [(key_seq db + 1, e)])"
proof (cases "key_seq db < max_i64")
  case True
  with store_insert_holds[OF assms(1,2)] assms(3) show ?thesis by (auto simp: log_put_def)
next
  case False
  then have "log_put fmt e db = None" using assms(1)
    by (auto simp: log_put_def store_insert_def holds_log_def key_seq_def Let_def)
  with assms(3) show ?thesis by simp
qed

interpretation store_log: event_log "log_inv od fmt parse T" "\<lambda>e. ev_timestamp e \<in> T" "log_put fmt"
  "filter_adm T" "log_sel od fmt parse" event_matches newest_first for od fmt parse T
proof
  fix db db' e f
  assume inv: "log_inv od fmt parse T db"
  then obtain L where L: "time_text_ok fmt parse T" "orders_desc od" "holds_log fmt T db L"
    by (auto simp: log_inv_def)
  show "newest_first (log_sel od fmt parse f db)" if "filter_adm T f"
    using log_sel_holds(2)[OF L that] .
  assume e: "ev_timestamp e \<in> T" "log_put fmt e db = Some db'"
  note L' = log_put_holds[OF L(3) e]
  then show "log_inv od fmt parse T db'" using L by (auto simp: log_inv_def)
  assume f: "filter_adm T f"
  show "mset (log_sel od fmt parse f db')
      = mset (log_sel od fmt parse f db) + mset (filter (event_matches f) [e])"
    using log_sel_holds(1)[OF L f] log_sel_holds(1)[OF L(1,2) L' f] by simp
qed

subsection \<open>Properties\<close>

definition log_event :: "timestamp \<Rightarrow> string \<Rightarrow> file_event" where
  "log_event t path = file_event_new t Modified path ''p'' ''m''"

definition log_db :: database where
  "log_db = snd (the (ok_of (insert_all byte_fmt [log_event 5 ''a'', log_event 9 ''b'', log_event 7 ''a'']
     (event_store_new database_empty))))"

lemma log_holds:
  "holds_log byte_fmt {0..<256} log_db [(1, log_event 5 ''a''), (2, log_event 9 ''b''), (3, log_event 7 ''a'')]"
proof -
  have "holds_log byte_fmt {0..<256} (event_store_new database_empty) []"
    "key_seq (event_store_new database_empty) = 0"
    by (simp_all add: holds_log_new database_empty_def) (simp add: event_store_new_def key_seq_def)
  from insert_all_holds[OF this(1), of "[log_event 5 ''a'', log_event 9 ''b'', log_event 7 ''a'']"] this(2)
  show ?thesis by (auto simp: log_db_def log_event_def file_event_new_def max_i64_def)
qed

text \<open>
  C1. A query on a store that holds a log of events returns exactly the logged events that match the
  filter (project, file, source, not before \<open>since\<close>), the newest first, cut to the limit; it fails
  on no stored row.  Hypotheses: the documented behaviour of \<open>to_rfc3339\<close> and \<open>parse_from_rfc3339\<close>
  on the timestamps in use, and of ORDER BY.
\<close>

theorem query_returns_matching_newest_first:
  assumes "time_text_ok fmt parse T" and "orders_desc od" and "holds_log fmt T db L"
    and "set_option (flt_since f) \<subseteq> T" and "\<forall>n \<in> set_option (flt_limit f). int n \<le> max_i64"
  shows "\<exists>es. mset es = mset (filter (event_matches f) (map snd L)) \<and> newest_first es \<and>
    store_query od fmt parse f db = Inr (case flt_limit f of None \<Rightarrow> es | Some n \<Rightarrow> take n es)"
  using assms by (rule store_query_spec)

theorem query_returns_matching_newest_first_witness:
  "\<exists>es. mset es = {#log_event 5 ''a'', log_event 7 ''a''#} \<and> newest_first es \<and>
    store_query stable_desc byte_fmt byte_parse (filter_limit 1 (filter_file_path ''a'' event_filter_new)) log_db
      = Inr (take 1 es)"
  using query_returns_matching_newest_first[OF byte_time_text_ok stable_desc_ok log_holds,
      of "filter_limit 1 (filter_file_path ''a'' event_filter_new)"]
  by (auto simp: filter_builder_defs event_matches_def log_event_def file_event_new_def max_i64_def
      source_default_def add_mset_commute)

text \<open>
  C18. \<open>insert_batch\<close> is all or nothing: an error leaves the database as it was, and on success there
  is one id per event, the ids are the next consecutive ones, and the table is the old one followed
  by the events in their order.
\<close>

theorem insert_batch_all_or_nothing:
  "case store_insert_batch fmt es db of
     (Inl err, db') \<Rightarrow> db' = db
   | (Inr is, db') \<Rightarrow>
       is = map (\<lambda>k. key_seq db + 1 + int k) [0..<length es] \<and>
       (es = [] \<and> db' = db \<or> (\<exists>t t'. db_events db = Some t \<and> db_events db' = Some t' \<and>
          et_rows t' = et_rows t @ map (\<lambda>(i, e). event_row_of fmt i e) (zip is es)))"
proof -
  have all: "insert_all fmt es db = Inr (is, db') \<Longrightarrow>
      is = map fst (keyed_from (key_seq db) es) \<and>
      (es = [] \<and> db' = db \<or> (\<exists>t t'. db_events db = Some t \<and> db_events db' = Some t' \<and>
          et_rows t' = et_rows t @ map (\<lambda>(i, e). event_row_of fmt i e) (keyed_from (key_seq db) es)))"
    for "is" db'
  proof (induction es arbitrary: db "is")
    case (Cons e es)
    then obtain i db1 js where 1: "store_insert fmt e db = Inr (i, db1)"
      "insert_all fmt es db1 = Inr (js, db')" "is = i # js"
      by (auto simp: bind_res_Inr)
    then obtain t where t: "db_events db = Some t" "i = et_seq t + 1"
      "db1 = db\<lparr>db_events := Some (t\<lparr>et_rows := et_rows t @ [event_row_of fmt i e], et_seq := i\<rparr>)\<rparr>"
      by (auto simp: store_insert_def Let_def split: option.splits if_splits)
    then have "key_seq db = i - 1" "key_seq db1 = i" by (simp_all add: key_seq_def)
    with Cons.IH[OF 1(2)] 1(3) t show ?case by auto
  qed simp
  have "zip (map fst (keyed_from i es)) es = keyed_from i es" for i
    by (metis keyed_from_snd zip_map_fst_snd)
  then show ?thesis
    using all by (cases "insert_all fmt es db") (auto simp: store_insert_batch_def keyed_from_fst)
qed

lemma store_get_latest_spec:
  assumes "time_text_ok fmt parse T" and "orders_desc od" and "holds_log fmt T db L"
  shows "\<exists>r. store_get_latest od parse pid path db = Inr r \<and>
    (case r of
       None \<Rightarrow> \<forall>e \<in> snd ` set L. \<not> (ev_project_id e = pid \<and> ev_file_path e = path)
     | Some e \<Rightarrow> e \<in> snd ` set L \<and> ev_project_id e = pid \<and> ev_file_path e = path \<and>
         (\<forall>e' \<in> snd ` set L. ev_project_id e' = pid \<and> ev_file_path e' = path
            \<longrightarrow> ev_timestamp e' \<le> ev_timestamp e))"
proof -
  let ?f = "filter_limit 1 (filter_file_path path (filter_project_id pid event_filter_new))"
  let ?P = "\<lambda>e. ev_project_id e = pid \<and> ev_file_path e = path"
  have P: "event_matches ?f = ?P" by (auto simp: fun_eq_iff event_matches_def filter_builder_defs)
  have "set_option (flt_since ?f) \<subseteq> T" "\<forall>n \<in> set_option (flt_limit ?f). int n \<le> max_i64"
    by (simp_all add: filter_builder_defs max_i64_def)
  from store_query_spec[OF assms this] obtain es where
    es: "mset es = mset (filter ?P (map snd L))" "newest_first es"
      "store_query od fmt parse ?f db = Inr (take 1 es)"
    unfolding P by (auto simp: filter_builder_defs)
  have mem: "set es = {e \<in> snd ` set L. ?P e}" using mset_eq_setD[OF es(1)] by auto
  have "bind_res (store_query od fmt parse ?f db) (\<lambda>es. Inr (case es of [] \<Rightarrow> None | e # _ \<Rightarrow> Some e))
      = store_get_latest od parse pid path db"
  proof -
    obtain t where t: "db_events db = Some t" using assms(3) by (auto simp: holds_log_def)
    have m: "row_matches fmt ?f = (\<lambda>r. er_project_id r = pid \<and> er_file_path r = path)"
      by (simp add: fun_eq_iff row_matches_def filter_builder_defs)
    have lim: "flt_limit ?f = Some 1" by (simp add: filter_builder_defs)
    show ?thesis
      unfolding store_query_def store_get_latest_def t m lim option.case
      by (cases "od (filter (\<lambda>r. er_project_id r = pid \<and> er_file_path r = path) (et_rows t))")
        (simp_all add: max_i64_def Let_def bind_res_assoc)
  qed
  then have "store_get_latest od parse pid path db = Inr (case es of [] \<Rightarrow> None | e # _ \<Rightarrow> Some e)"
    unfolding es(3) by (auto split: list.splits)
  moreover have "(\<forall>e' \<in> snd ` set L. ?P e' \<longrightarrow> ev_timestamp e' \<le> ev_timestamp e) \<and> e \<in> snd ` set L \<and> ?P e"
    if "es = e # es'" for e es'
  proof -
    have "e \<in> set es" "\<forall>e' \<in> set es. ev_timestamp e' \<le> ev_timestamp e"
      using es(2) that by (auto simp: newest_first_def)
    then show ?thesis unfolding mem by blast
  qed
  ultimately show ?thesis using mem by (cases es) auto
qed

text \<open>
  \<open>get_latest\<close> answers \<open>None\<close> exactly when the log has no event for the file of the project, and
  otherwise an event of that file than which the log has none newer.
\<close>

theorem get_latest_is_newest:
  assumes "time_text_ok fmt parse T" and "orders_desc od" and "holds_log fmt T db L"
  shows "\<exists>r. store_get_latest od parse pid path db = Inr r \<and>
    (case r of
       None \<Rightarrow> \<forall>e \<in> snd ` set L. \<not> (ev_project_id e = pid \<and> ev_file_path e = path)
     | Some e \<Rightarrow> e \<in> snd ` set L \<and> ev_project_id e = pid \<and> ev_file_path e = path \<and>
         (\<forall>e' \<in> snd ` set L. ev_project_id e' = pid \<and> ev_file_path e' = path
            \<longrightarrow> ev_timestamp e' \<le> ev_timestamp e))"
  using assms by (rule store_get_latest_spec)

theorem get_latest_is_newest_witness:
  "store_get_latest stable_desc byte_parse ''p'' ''a'' log_db = Inr (Some (log_event 7 ''a''))"
  using get_latest_is_newest[OF byte_time_text_ok stable_desc_ok log_holds, of "''p''" "''a''"]
  by (auto simp: log_event_def file_event_new_def split: option.splits)

end
