(* ===== verification/Migrations.thy ===== *)
theory Migrations
  imports Event_Store Analysis_Cache
begin

text \<open>
  Schema versions, \<open>crates/ambient-fs-store/src/migrations.rs\<close>.  The loop of \<open>ensure_schema\<close> calls
  \<open>run_migration\<close> for every version after the recorded one, and panics on a version it does not know;
  \<open>DB\<close> is the error of a statement and \<open>Panicked\<close> the panic.
\<close>

datatype schema_error = DB sqlite_error | Panicked string

definition CURRENT_VERSION :: int where
  "CURRENT_VERSION = 1"

definition ensure_migrations_table :: "database \<Rightarrow> database" where
  "ensure_migrations_table db =
     db\<lparr>db_migrations := (case db_migrations db of None \<Rightarrow> Some [] | Some ms \<Rightarrow> Some ms)\<rparr>"

text \<open>\<open>COALESCE(MAX(version), 0)\<close>\<close>

definition max_version :: "(int \<times> int) list \<Rightarrow> int" where
  "max_version ms = (if ms = [] then 0 else fold max (map fst ms) (fst (hd ms)))"

definition get_current_version :: "database \<Rightarrow> schema_error + int" where
  "get_current_version db =
     (case db_migrations db of None \<Rightarrow> Inl (DB (NoSuchTable ''migrations'')) | Some ms \<Rightarrow> Inr (max_version ms))"

definition create_tables_v1 :: "database \<Rightarrow> database" where
  "create_tables_v1 db = db
     \<lparr>db_events := (case db_events db of
          None \<Rightarrow> Some \<lparr>et_rows = [], et_seq = 0, et_checked = False\<rparr> | Some t \<Rightarrow> Some t),
      db_analysis := (case db_analysis db of None \<Rightarrow> Some [] | Some rs \<Rightarrow> Some rs),
      db_projects := (case db_projects db of None \<Rightarrow> Some MigratedProjects | Some t \<Rightarrow> Some t)\<rparr>"

definition run_migration :: "int \<Rightarrow> database \<Rightarrow> schema_error + database" where
  "run_migration v db =
     (if v = 1 then Inr (create_tables_v1 db) else Inl (Panicked ''undefined migration version''))"

definition record_migration :: "timestamp \<Rightarrow> int \<Rightarrow> database \<Rightarrow> schema_error + database" where
  "record_migration now v db =
     (case db_migrations db of
        None \<Rightarrow> Inl (DB (NoSuchTable ''migrations''))
      | Some ms \<Rightarrow>
          if v \<in> fst ` set ms then Inl (DB (ConstraintFailed ''migrations.version''))
          else Inr (db\<lparr>db_migrations := Some (ms @ [(v, now div nanos_per_sec)])\<rparr>))"

function run_pending :: "timestamp \<Rightarrow> int \<Rightarrow> database \<Rightarrow> schema_error + database" where
  "run_pending now v db =
     (if v < CURRENT_VERSION then
        bind_res (run_migration (v + 1) db) (\<lambda>db1.
        bind_res (record_migration now (v + 1) db1) (\<lambda>db2. run_pending now (v + 1) db2))
      else Inr db)"
  by auto
termination by (relation "measure (\<lambda>(_, v, _). nat (CURRENT_VERSION - v))") auto

declare run_pending.simps [simp del]

definition ensure_schema :: "timestamp \<Rightarrow> database \<Rightarrow> schema_error + database" where
  "ensure_schema now db =
     (let db1 = ensure_migrations_table db in
      bind_res (get_current_version db1) (\<lambda>v. run_pending now v db1))"

subsection \<open>What a migrated database has\<close>

definition at_current_version :: "database \<Rightarrow> bool" where
  "at_current_version db \<longleftrightarrow> get_current_version db = Inr CURRENT_VERSION"

lemma ensure_schema_current: "at_current_version db \<Longrightarrow> ensure_schema now db = Inr db"
  by (cases "db_migrations db")
    (simp_all add: ensure_schema_def at_current_version_def ensure_migrations_table_def
      get_current_version_def Let_def run_pending.simps)

lemma ensure_schema_fresh:
  assumes "db_migrations db = None \<or> db_migrations db = Some []"
  shows "ensure_schema now db
    = Inr ((create_tables_v1 db)\<lparr>db_migrations := Some [(1, now div nanos_per_sec)]\<rparr>)"
proof -
  have "run_pending now 0 d = Inr ((create_tables_v1 d)\<lparr>db_migrations := Some [(1, now div nanos_per_sec)]\<rparr>)"
    if "db_migrations d = Some []" for d
    using that by (simp add: run_pending.simps[of now 0] run_pending.simps[of now 1]
        CURRENT_VERSION_def run_migration_def record_migration_def create_tables_v1_def)
  then show ?thesis using assms
    by (auto simp: ensure_schema_def ensure_migrations_table_def get_current_version_def
        max_version_def Let_def create_tables_v1_def)
qed

text \<open>The databases on which \<open>ensure_schema\<close> has nothing to do or starts from the beginning.\<close>

definition versions_ok :: "database \<Rightarrow> bool" where
  "versions_ok db \<longleftrightarrow> (case db_migrations db of None \<Rightarrow> True | Some ms \<Rightarrow> ms = [] \<or> CURRENT_VERSION \<le> max_version ms)"

lemma ensure_schema_total:
  assumes "versions_ok db"
  shows "\<exists>db'. ensure_schema now db = Inr db' \<and> versions_ok db' \<and> (db_events db \<noteq> None \<longrightarrow> db_events db' = db_events db) \<and>
    (db_analysis db \<noteq> None \<or> db_migrations db = None \<or> db_migrations db = Some [] \<longrightarrow> db_analysis db' \<noteq> None)"
proof (cases "db_migrations db = None \<or> db_migrations db = Some []")
  case True
  then show ?thesis
    by (auto simp: ensure_schema_fresh create_tables_v1_def versions_ok_def max_version_def CURRENT_VERSION_def split: option.splits)
next
  case False
  then obtain ms where ms: "db_migrations db = Some ms" "ms \<noteq> []" "CURRENT_VERSION \<le> max_version ms"
    using assms by (auto simp: versions_ok_def)
  then have "ensure_schema now db = Inr db"
    by (simp add: ensure_schema_def ensure_migrations_table_def get_current_version_def Let_def run_pending.simps)
  then show ?thesis using assms ms(1,2) by auto
qed

text \<open>
  \<open>ensure_schema\<close> is idempotent and loses nothing: on a database without migrations it succeeds,
  every table exists afterwards, the tables that existed are unchanged, and running it again, at any
  later time, changes nothing.
\<close>

theorem ensure_schema_idempotent:
  assumes "db_migrations db = None"
  shows "\<exists>db'. ensure_schema now db = Inr db' \<and> ensure_schema later db' = Inr db' \<and>
    db_events db' \<noteq> None \<and> db_analysis db' \<noteq> None \<and> db_projects db' \<noteq> None \<and>
    (db_events db \<noteq> None \<longrightarrow> db_events db' = db_events db) \<and>
    (db_analysis db \<noteq> None \<longrightarrow> db_analysis db' = db_analysis db) \<and>
    (db_projects db \<noteq> None \<longrightarrow> db_projects db' = db_projects db)"
proof -
  let ?db' = "(create_tables_v1 db)\<lparr>db_migrations := Some [(1, now div nanos_per_sec)]\<rparr>"
  have "ensure_schema later ?db' = Inr ?db'"
    by (rule ensure_schema_current)
      (simp add: at_current_version_def get_current_version_def max_version_def CURRENT_VERSION_def)
  then show ?thesis using assms
    by (intro exI[of _ ?db']) (auto simp: ensure_schema_fresh create_tables_v1_def split: option.splits)
qed

theorem ensure_schema_idempotent_witness:
  "\<exists>db'. ensure_schema 0 database_empty = Inr db' \<and> ensure_schema 5 db' = Inr db'"
  using ensure_schema_idempotent[of database_empty 0 5] by (auto simp: database_empty_def)

text \<open>
  The order of \<open>EventStore::new\<close> and \<open>ensure_schema\<close> on a new database file decides whether the
  project registry works, since both create a table \<open>projects\<close> with different columns and neither
  notices: after the store's creation first, adding and finding a project works; after the
  migrations first (as \<open>cmd_prune\<close> does), every registry operation fails for want of a column.
\<close>

theorem registry_needs_store_first:
  "(\<exists>db'. ensure_schema now (event_store_new database_empty) = Inr db' \<and>
     (\<forall>pid p. to_str p = Some p \<longrightarrow>
        (\<exists>db''. store_add_project fmt t pid p db' = Inr db'' \<and> store_get_project_path pid db'' = Inr (Some p)))) \<and>
   (\<exists>db'. ensure_schema now database_empty = Inr db' \<and>
     (\<forall>pid p ord. to_str p = Some p \<longrightarrow>
        store_add_project fmt t pid p (event_store_new db') = Inl (Sqlite (NoSuchColumn ''project_id'')) \<and>
        store_remove_project pid (event_store_new db') = Inl (Sqlite (NoSuchColumn ''project_id'')) \<and>
        store_list_projects ord (event_store_new db') = Inl (Sqlite (NoSuchColumn ''project_id''))))"
  by (simp add: ensure_schema_fresh database_empty_def event_store_new_def create_tables_v1_def
      store_add_project_def store_remove_project_def store_list_projects_def store_get_project_path_def
      with_projects_def set_projects_def)

theorem registry_needs_store_first_witness:
  "to_str ''/w'' = Some ''/w'' \<and> (\<exists>db'. ensure_schema 0 database_empty = Inr db' \<and>
     store_add_project byte_fmt 7 ''p'' ''/w'' (event_store_new db')
       = Inl (Sqlite (NoSuchColumn ''project_id'')))"
proof -
  have "to_str ''/w'' = Some ''/w''" by code_simp
  with registry_needs_store_first[of 0 byte_fmt 7] show ?thesis by blast
qed

end
