(* ===== verification/Pruning.thy ===== *)
theory Pruning
  imports Migrations
begin

text \<open>
  Retention: \<open>crates/ambient-fs-store/src/prune.rs\<close> and the prune cycle of the daemon
  (\<open>PruneScheduler\<close> in \<open>crates/ambient-fsd/src/server.rs\<close>), and the histories of store operations.
\<close>

record prune_config =
  retention_days :: int

definition prune_config_new :: "int \<Rightarrow> prune_config" where
  "prune_config_new days = \<lparr>retention_days = days\<rparr>"

definition prune_config_default :: prune_config where
  "prune_config_default = \<lparr>retention_days = 90\<rparr>"

text \<open>\<open>None\<close>: chrono panics.\<close>

definition cutoff_timestamp :: "timestamp \<Rightarrow> prune_config \<Rightarrow> timestamp option" where
  "cutoff_timestamp now c =
     Option.bind (checked_seconds (retention_days c * 86400)) (utc_minus now)"

definition prune_events_before ::
  "(timestamp \<Rightarrow> string) \<Rightarrow> timestamp \<Rightarrow> database \<Rightarrow> sqlite_error + nat \<times> database" where
  "prune_events_before fmt cutoff db =
     (case db_events db of
        None \<Rightarrow> Inl (NoSuchTable ''file_events'')
      | Some t \<Rightarrow>
          Inr (length (filter (\<lambda>r. er_timestamp r < fmt cutoff) (et_rows t)),
               db\<lparr>db_events := Some (t\<lparr>et_rows :=
                    filter (\<lambda>r. \<not> er_timestamp r < fmt cutoff) (et_rows t)\<rparr>)\<rparr>))"

definition prune_analysis_before ::
  "(timestamp \<Rightarrow> string) \<Rightarrow> timestamp \<Rightarrow> database \<Rightarrow> sqlite_error + nat \<times> database" where
  "prune_analysis_before fmt cutoff db =
     (case db_analysis db of
        None \<Rightarrow> Inl (NoSuchTable ''file_analysis'')
      | Some rs \<Rightarrow>
          Inr (length (filter (\<lambda>r. ar_analyzed_at r < SText (fmt cutoff)) rs),
               db\<lparr>db_analysis := Some (filter (\<lambda>r. \<not> ar_analyzed_at r < SText (fmt cutoff)) rs)\<rparr>))"

text \<open>The daemon's scheduler.\<close>

record prune_scheduler =
  pn_config :: prune_config
  pn_store_path :: string
  pn_interval :: duration

definition prune_scheduler_new :: "string \<Rightarrow> int \<Rightarrow> prune_scheduler" where
  "prune_scheduler_new path days =
     \<lparr>pn_config = prune_config_new days, pn_store_path = path, pn_interval = 24 * 3600 * nanos_per_sec\<rparr>"

definition prune_scheduler_default :: prune_scheduler where
  "prune_scheduler_default =
     \<lparr>pn_config = prune_config_default, pn_store_path = ''/tmp/ambient-fs/events.db'', pn_interval = 24 * 3600 * nanos_per_sec\<rparr>"

lemma prune_scheduler_config [simp]: "pn_config (prune_scheduler_new path days) = \<lparr>retention_days = days\<rparr>"
  by (simp add: prune_scheduler_new_def prune_config_new_def)

text \<open>One cycle of the scheduler: the result, and the database also where it fails half way.  VACUUM,
  run when something was deleted, does not change the tables.\<close>

definition prune_cycle ::
  "(timestamp \<Rightarrow> string) \<Rightarrow> timestamp \<Rightarrow> prune_config \<Rightarrow> database
    \<Rightarrow> (schema_error + nat \<times> nat) \<times> database" where
  "prune_cycle fmt now c db =
     (case cutoff_timestamp now c of
        None \<Rightarrow> (Inl (Panicked ''overflow''), db)
      | Some cutoff \<Rightarrow>
          (case ensure_schema now db of
             Inl err \<Rightarrow> (Inl err, ensure_migrations_table db)
           | Inr db1 \<Rightarrow>
               (case prune_events_before fmt cutoff db1 of
                  Inl err \<Rightarrow> (Inl (DB err), db1)
                | Inr (n, db2) \<Rightarrow>
                    (case prune_analysis_before fmt cutoff db2 of
                       Inl err \<Rightarrow> (Inl (DB err), db2)
                     | Inr (k, db3) \<Rightarrow> (Inr (n, k), db3)))))"

subsection \<open>What pruning keeps\<close>

lemma sorted_wrt_map_filter: "sorted_wrt R (map f xs) \<Longrightarrow> sorted_wrt R (map f (filter P xs))"
  by (simp add: sorted_wrt_map sorted_wrt_filter)

lemma prune_events_holds:
  assumes "time_text_ok fmt parse T" and "holds_log fmt T db L" and "cutoff \<in> T"
  shows "\<exists>db'. prune_events_before fmt cutoff db
      = Inr (length (filter (\<lambda>(_, e). ev_timestamp e < cutoff) L), db') \<and>
    holds_log fmt T db' (filter (\<lambda>(_, e). cutoff \<le> ev_timestamp e) L) \<and> key_seq db' = key_seq db"
proof -
  obtain t where t: "db_events db = Some t" "et_rows t = map (\<lambda>(i, e). event_row_of fmt i e) L"
    "0 \<le> et_seq t" "sorted_wrt (<) (map fst L)"
    "\<forall>(i, e) \<in> set L. 0 < i \<and> i \<le> et_seq t \<and> ev_timestamp e \<in> T"
    using assms(2) by (auto simp: holds_log_def)
  have less: "fmt (ev_timestamp e) < fmt cutoff \<longleftrightarrow> ev_timestamp e < cutoff" if "(i, e) \<in> set L" for i e
    using assms(1,3) t(5) that by (fastforce simp: time_text_ok_def)
  have drop: "filter (\<lambda>r. er_timestamp r < fmt cutoff) (et_rows t)
      = map (\<lambda>(i, e). event_row_of fmt i e) (filter (\<lambda>(_, e). ev_timestamp e < cutoff) L)"
    unfolding t filter_map by (auto intro!: arg_cong[where f = "map _"] filter_cong simp: less)
  have keep: "filter (\<lambda>r. \<not> er_timestamp r < fmt cutoff) (et_rows t)
      = map (\<lambda>(i, e). event_row_of fmt i e) (filter (\<lambda>(_, e). cutoff \<le> ev_timestamp e) L)"
    unfolding t filter_map
    by (intro arg_cong[where f = "map _"] filter_cong) (auto simp: less not_less[symmetric])
  show ?thesis
    using t(1,3,5) sorted_wrt_map_filter[OF t(4)] 
    by (auto simp: prune_events_before_def drop keep holds_log_def key_seq_def)
qed

subsection \<open>Histories\<close>

datatype store_op =
  OpInsert file_event
| OpBatch "file_event list"
| OpPrune timestamp
| OpReopen
| OpAddProject timestamp string string
| OpRemoveProject string

text \<open>The keys that an operation returns, and the new database; an operation that fails returns none
  and leaves the database as it is.\<close>

fun store_step :: "(timestamp \<Rightarrow> string) \<Rightarrow> store_op \<Rightarrow> database \<Rightarrow> int list \<times> database" where
  "store_step fmt (OpInsert e) db =
     (case store_insert fmt e db of Inl _ \<Rightarrow> ([], db) | Inr (i, db') \<Rightarrow> ([i], db'))"
| "store_step fmt (OpBatch es) db =
     (case store_insert_batch fmt es db of (Inl _, db') \<Rightarrow> ([], db') | (Inr is, db') \<Rightarrow> (is, db'))"
| "store_step fmt (OpPrune cutoff) db =
     (case prune_events_before fmt cutoff db of Inl _ \<Rightarrow> ([], db) | Inr (_, db') \<Rightarrow> ([], db'))"
| "store_step fmt OpReopen db = ([], event_store_new db)"
| "store_step fmt (OpAddProject now pid p) db =
     (case store_add_project fmt now pid p db of Inl _ \<Rightarrow> ([], db) | Inr db' \<Rightarrow> ([], db'))"
| "store_step fmt (OpRemoveProject pid) db =
     (case store_remove_project pid db of Inl _ \<Rightarrow> ([], db) | Inr db' \<Rightarrow> ([], db'))"

fun store_run :: "(timestamp \<Rightarrow> string) \<Rightarrow> store_op list \<Rightarrow> database \<Rightarrow> int list \<times> database" where
  "store_run fmt [] db = ([], db)"
| "store_run fmt (op # ops) db =
     (let (is, db1) = store_step fmt op db; (js, db2) = store_run fmt ops db1 in (is @ js, db2))"

definition keys_in :: "database \<Rightarrow> int set" where
  "keys_in db = (case db_events db of None \<Rightarrow> {} | Some t \<Rightarrow> er_id ` set (et_rows t))"

definition increasing_above :: "int \<Rightarrow> int list \<Rightarrow> int \<Rightarrow> bool" where
  "increasing_above lo is hi \<longleftrightarrow> sorted_wrt (<) is \<and> (\<forall>i \<in> set is. lo < i \<and> i \<le> hi) \<and> lo \<le> hi"

lemma increasing_append:
  "increasing_above a is b \<Longrightarrow> increasing_above b js c \<Longrightarrow> increasing_above a (is @ js) c"
  by (fastforce simp: increasing_above_def sorted_wrt_append)

lemma insert_step:
  "store_insert fmt e db = Inr (i, db')
    \<Longrightarrow> i = key_seq db + 1 \<and> key_seq db' = i \<and> keys_in db' = insert i (keys_in db)"
  by (auto simp: store_insert_def key_seq_def keys_in_def Let_def split: option.splits if_splits)

lemma insert_all_step:
  "insert_all fmt es db = Inr (is, db')
    \<Longrightarrow> increasing_above (key_seq db) is (key_seq db') \<and> keys_in db' = keys_in db \<union> set is"
proof (induction es arbitrary: db "is")
  case (Cons e es)
  then obtain i db1 js where 1: "store_insert fmt e db = Inr (i, db1)"
    "insert_all fmt es db1 = Inr (js, db')" "is = i # js"
    by (auto simp: bind_res_Inr)
  have "increasing_above (key_seq db) [i] (key_seq db1)"
    using insert_step[OF 1(1)] by (simp add: increasing_above_def)
  then show ?case using Cons.IH[OF 1(2)] insert_step[OF 1(1)] increasing_append[of _ "[i]" _ js] 1(3)
    by auto
qed (simp add: increasing_above_def)

lemma store_step_keys:
  assumes "store_step fmt op db = (is, db')"
  shows "increasing_above (key_seq db) is (key_seq db') \<and> keys_in db' \<subseteq> keys_in db \<union> set is"
proof (cases op)
  case (OpInsert e)
  with assms show ?thesis
    by (auto simp: increasing_above_def dest!: insert_step split: sum.splits)
next
  case (OpBatch es)
  with assms show ?thesis
    by (auto simp: store_insert_batch_def increasing_above_def[of _ "[]"] dest!: insert_all_step split: sum.splits)
next
  case (OpPrune c)
  with assms show ?thesis
    by (auto simp: prune_events_before_def increasing_above_def key_seq_def keys_in_def split: option.splits)
next
  case OpReopen
  with assms show ?thesis
    by (auto simp: event_store_new_def increasing_above_def key_seq_def keys_in_def split: option.splits)
next
  case (OpAddProject now pid p)
  with assms show ?thesis
    by (auto simp: store_add_project_def with_projects_def set_projects_def increasing_above_def
        key_seq_def keys_in_def split: option.splits projects_table.splits if_splits)
next
  case (OpRemoveProject pid)
  with assms show ?thesis
    by (auto simp: store_remove_project_def with_projects_def set_projects_def increasing_above_def
        key_seq_def keys_in_def split: option.splits projects_table.splits)
qed

lemma store_run_keys:
  "store_run fmt ops db = (is, db')
    \<Longrightarrow> increasing_above (key_seq db) is (key_seq db') \<and> keys_in db' \<subseteq> keys_in db \<union> set is"
proof (induction ops arbitrary: db "is" db')
  case (Cons op ops)
  obtain js db1 where 1: "store_step fmt op db = (js, db1)" by force
  obtain ks db2 where 2: "store_run fmt ops db1 = (ks, db2)" by force
  have "is = js @ ks" "db' = db2" using Cons.prems 1 2 by auto
  with store_step_keys[OF 1] Cons.IH[OF 2] show ?case using increasing_append by fastforce
qed (simp add: increasing_above_def)

text \<open>
  C25. Event ids are never reused: in every history of insertions, batches, prunes, registry operations
  and reopenings of a new store, the ids that were returned increase strictly from 1 on, and the ids
  in the table are among them.
\<close>

theorem event_ids_never_reused:
  "case store_run fmt ops (event_store_new database_empty) of (is, db) \<Rightarrow>
     sorted_wrt (<) is \<and> list_all (\<lambda>i. 1 \<le> i) is \<and> keys_in db \<subseteq> set is"
proof -
  obtain "is" db where r: "store_run fmt ops (event_store_new database_empty) = (is, db)" by force
  have "key_seq (event_store_new database_empty) = 0" "keys_in (event_store_new database_empty) = {}"
    by (simp_all add: event_store_new_def database_empty_def key_seq_def keys_in_def)
  with store_run_keys[OF r] r show ?thesis by (auto simp: increasing_above_def list_all_iff)
qed

text \<open>
  Pruning analysis results deletes all of them, whatever the cutoff: \<open>put\<close> stores the time as a
  number, the cutoff is compared as a text, and SQLite orders every number before every text.  After
  any writes to a new cache, one prune removes one row per key written and leaves every lookup empty.
\<close>

theorem prune_analysis_deletes_all:
  "let db = fold (\<lambda>(now, a). cache_write c now a) puts (cache_open database_empty) in
   \<exists>db'. prune_analysis_before fmt cutoff db = Inr (card (analysis_key ` snd ` set puts), db') \<and>
     cache_get c pid path db' = Inr None"
proof -
  let ?db = "fold (\<lambda>(now, a). cache_write c now a) puts (cache_open database_empty)"
  let ?num = "\<lambda>r. \<exists>i. ar_analyzed_at r = SInt i"
  have step: "cache_ok (cache_write c now a db) \<and>
      cache_rows (cache_write c now a db) = upsert row_key (analysis_row_of c now a) (cache_rows db)"
    if "cache_ok db" for now a db
    using that by (simp add: cache_write_def cache_put_def with_analysis_ok)
      (simp add: cache_ok_def cache_rows_def upsert_distinct)
  have inv: "cache_ok db \<Longrightarrow> list_all ?num (cache_rows db)
      \<Longrightarrow> cache_ok (fold (\<lambda>(now, a). cache_write c now a) ps db) \<and>
        list_all ?num (cache_rows (fold (\<lambda>(now, a). cache_write c now a) ps db)) \<and>
        row_key ` set (cache_rows (fold (\<lambda>(now, a). cache_write c now a) ps db))
          = row_key ` set (cache_rows db) \<union> analysis_key ` snd ` set ps" for ps db
  proof (induction ps arbitrary: db)
    case (Cons p ps)
    obtain now a where p: "p = (now, a)" by force
    have "?num (analysis_row_of c now a)" by (simp add: analysis_row_of_def)
    with Cons.IH[of "cache_write c now a db"] Cons.prems step show ?case
      by (simp add: p upsert_all upsert_keys)
  qed simp
  have new: "cache_ok (cache_open database_empty)" "cache_rows (cache_open database_empty) = []"
    by (simp_all add: cache_open_ok database_empty_def) (simp add: cache_open_def cache_rows_def)
  have ok: "cache_ok ?db" and num: "list_all ?num (cache_rows ?db)"
    and keys: "row_key ` set (cache_rows ?db) = analysis_key ` snd ` set puts"
    using inv[OF new(1), of puts] by (simp_all add: new(2))
  obtain rs where rs: "db_analysis ?db = Some rs" using ok by (auto simp: cache_ok_def)
  then have rows: "cache_rows ?db = rs" by (simp add: cache_rows_def)
  have "filter (\<lambda>r. ar_analyzed_at r < SText (fmt cutoff)) rs = rs"
    "filter (\<lambda>r. \<not> ar_analyzed_at r < SText (fmt cutoff)) rs = []"
    using num rows by (auto simp: list_all_iff filter_empty_conv intro!: filter_True)
  moreover have "length rs = card (analysis_key ` snd ` set puts)"
    using ok keys rows distinct_card[of "map row_key rs"] by (simp add: cache_ok_def)
  ultimately show ?thesis
    by (auto simp: Let_def prune_analysis_before_def rs cache_get_def with_analysis_def)
qed

text \<open>The log after a cycle, also where the table of analyses is missing and the cycle fails half way.\<close>

lemma prune_cycle_log:
  assumes "time_text_ok fmt parse T" and "holds_log fmt T db L" and "versions_ok db"
    and "cutoff_timestamp now c = Some cutoff" and "cutoff \<in> T"
  shows "\<exists>r db'. prune_cycle fmt now c db = (r, db') \<and> holds_log fmt T db' (filter (\<lambda>(_, e). cutoff \<le> ev_timestamp e) L) \<and>
    key_seq db' = key_seq db \<and> versions_ok db' \<and>
    (db_analysis db \<noteq> None \<or> db_migrations db = None \<longrightarrow>
      db_analysis db' \<noteq> None \<and> (\<exists>k. r = Inr (length (filter (\<lambda>(_, e). ev_timestamp e < cutoff) L), k)))"
proof -
  have "db_events db \<noteq> None" using assms(2) by (auto simp: holds_log_def)
  then obtain db1 where 1: "ensure_schema now db = Inr db1" "versions_ok db1" "db_events db1 = db_events db"
    "db_analysis db \<noteq> None \<or> db_migrations db = None \<longrightarrow> db_analysis db1 \<noteq> None"
    using ensure_schema_total[OF assms(3), of now] by blast
  then have "holds_log fmt T db1 L" "key_seq db1 = key_seq db" using assms(2) by (simp_all add: holds_log_def key_seq_def)
  from prune_events_holds[OF assms(1) this(1) assms(5)] this(2) obtain db2 where
    2: "prune_events_before fmt cutoff db1 = Inr (length (filter (\<lambda>(_, e). ev_timestamp e < cutoff) L), db2)"
      "holds_log fmt T db2 (filter (\<lambda>(_, e). cutoff \<le> ev_timestamp e) L)" "key_seq db2 = key_seq db" by auto
  then have kept: "db_analysis db2 = db_analysis db1" "versions_ok db2"
    using 1(2) by (auto simp: prune_events_before_def versions_ok_def split: option.splits)
  show ?thesis
  proof (cases "db_analysis db2")
    case None
    then have "prune_cycle fmt now c db = (Inl (DB (NoSuchTable ''file_analysis'')), db2)"
      using assms(4) 1(1) 2(1) by (simp add: prune_cycle_def prune_analysis_before_def)
    then show ?thesis using 1(4) 2 kept None by (intro exI conjI) auto
  next
    case (Some rs)
    then obtain k rs' where "prune_cycle fmt now c db
        = (Inr (length (filter (\<lambda>(_, e). ev_timestamp e < cutoff) L), k), db2\<lparr>db_analysis := Some rs'\<rparr>)"
      using assms(4) 1(1) 2(1) by (simp add: prune_cycle_def prune_analysis_before_def)
    moreover have "holds_log fmt T (db2\<lparr>db_analysis := Some rs'\<rparr>) (filter (\<lambda>(_, e). cutoff \<le> ev_timestamp e) L)"
      "key_seq (db2\<lparr>db_analysis := Some rs'\<rparr>) = key_seq db" "versions_ok (db2\<lparr>db_analysis := Some rs'\<rparr>)"
      using 2(2,3) kept(2) by (simp_all add: holds_log_def key_seq_def versions_ok_def)
    ultimately show ?thesis by (intro exI conjI impI) auto
  qed
qed

text \<open>A time whose cutoff, ninety days before, is 6, and a database without migrations.\<close>

lemma ninety_days_before: "cutoff_timestamp (6 + 90 * 86400 * 1000000000) prune_config_default = Some 6"
  by (simp add: cutoff_timestamp_def prune_config_default_def checked_seconds_def max_dur_millis_def
      utc_minus_def dur_defs min_utc_def max_utc_def)

lemma log_db_new: "db_migrations log_db = None"
  by (simp add: log_db_def store_insert_def event_store_new_def database_empty_def Let_def max_i64_def)

text \<open>
  C16. A prune cycle on a store deletes exactly the events older than the retention cutoff: it succeeds,
  the log that remains is the old one without them, in the same order and with the same ids, the next id is
  unchanged, the first number it returns counts what was deleted, and the database is one on which the
  next cycle does the same.  Hypotheses: the documented behaviour of \<open>to_rfc3339\<close> on the timestamps in
  use, a cutoff within chrono's range, and a database never migrated or with the table of analyses.
\<close>

theorem prune_cycle_exact:
  assumes "time_text_ok fmt parse T" and "holds_log fmt T db L"
    and "versions_ok db" and "db_migrations db = None \<or> db_analysis db \<noteq> None"
    and "cutoff_timestamp now c = Some cutoff" and "cutoff \<in> T"
  shows "\<exists>k db'. prune_cycle fmt now c db
      = (Inr (length (filter (\<lambda>(_, e). ev_timestamp e < cutoff) L), k), db') \<and>
    holds_log fmt T db' (filter (\<lambda>(_, e). cutoff \<le> ev_timestamp e) L) \<and> key_seq db' = key_seq db \<and>
    versions_ok db' \<and> db_analysis db' \<noteq> None"
  using prune_cycle_log[OF assms(1-3,5,6)] assms(4) by auto

theorem prune_cycle_exact_witness:
  "\<exists>k db'. prune_cycle byte_fmt (6 + 90 * 86400 * 1000000000) prune_config_default log_db = (Inr (1, k), db') \<and>
    holds_log byte_fmt {0..<256} db' [(2, log_event 9 ''b''), (3, log_event 7 ''a'')]"
proof -
  have "db_migrations log_db = None" by (simp add: log_db_new)
  moreover from this have "versions_ok log_db" by (simp add: versions_ok_def)
  ultimately show ?thesis
    using prune_cycle_exact[OF byte_time_text_ok log_holds _ _ ninety_days_before]
    by (auto simp: log_event_def file_event_new_def)
qed

end
