(* ===== verification/Attribution.thy ===== *)
theory Attribution
  imports Events Path_Filter
begin

text \<open>
  Who changed a file: \<open>crates/ambient-fs-watcher/src/attribution.rs\<close>, and the content hashes of
  \<open>crates/ambient-fs-watcher/src/dedup.rs\<close>.  What the code asks of the file system is the record
  \<open>disk\<close>; \<open>blake3\<close> is the hash function of that crate, an argument.
\<close>

subsection \<open>Build patterns\<close>

definition build_patterns_default :: "string list" where
  "build_patterns_default =
     [''dist/'', ''build/'', ''target/'', ''out/'', ''.next/'', ''.nuxt/'', ''node_modules/.cache/'',
      ''.cache/'', ''coverage/'', ''*.o'', ''*.so'', ''*.dylib'', ''*.dll'', ''*.exe'', ''*.a'', ''*.lib'',
      ''*.pyc'', ''*.pyo'', ''__pycache__/'', ''.pytest_cache/'', ''.venv/'', ''venv/'', ''*.rmeta'', ''*.rlib'']"

definition build_pattern_matches :: "string \<Rightarrow> string \<Rightarrow> bool" where
  "build_pattern_matches path_str pattern =
     (if ends_with pattern [slash] then
        (let pre = trim_end_char slash pattern in
         starts_with path_str pre \<or> contains_str path_str (pre @ [slash]))
      else if starts_with pattern ''*.'' then ends_with path_str (drop 2 pattern)
      else contains_str path_str pattern)"

definition build_matches :: "string list \<Rightarrow> string \<Rightarrow> bool" where
  "build_matches ps path = list_ex (build_pattern_matches (to_string_lossy path)) ps"

subsection \<open>The attributor\<close>

datatype mtime_result = NoMetadata | NoModified | Mtime timestamp

record event_attributor =
  at_explicit_source :: "source option"
  at_build_patterns :: "string list"
  at_last_git_index_mtime :: "timestamp option"

definition event_attributor_new :: event_attributor where
  "event_attributor_new = \<lparr>at_explicit_source = None, at_build_patterns = build_patterns_default,
     at_last_git_index_mtime = None\<rparr>"

definition with_explicit_source :: "source \<Rightarrow> event_attributor \<Rightarrow> event_attributor" where
  "with_explicit_source s a = a\<lparr>at_explicit_source := Some s\<rparr>"

definition with_build_patterns :: "string list \<Rightarrow> event_attributor \<Rightarrow> event_attributor" where
  "with_build_patterns ps a = a\<lparr>at_build_patterns := ps\<rparr>"

text \<open>\<open>meta\<close> is \<open>fs::metadata\<close> with \<open>modified\<close>; \<open>duration_since\<close> fails for a time after now.\<close>

definition is_git_active ::
  "(string \<Rightarrow> mtime_result) \<Rightarrow> timestamp \<Rightarrow> string \<Rightarrow> event_attributor \<Rightarrow> bool \<times> event_attributor" where
  "is_git_active meta now root a =
     (case meta (join_path root ''.git/index'') of
        NoModified \<Rightarrow> (False, a)
      | NoMetadata \<Rightarrow> (False, a\<lparr>at_last_git_index_mtime := None\<rparr>)
      | Mtime m \<Rightarrow>
          (case at_last_git_index_mtime a of
             Some l \<Rightarrow> (m \<le> now \<and> (now - m) div nanos_per_sec < 5 \<and> l < m)
           | None \<Rightarrow> False,
           a\<lparr>at_last_git_index_mtime := Some m\<rparr>))"

definition mark_git_activity ::
  "(string \<Rightarrow> mtime_result) \<Rightarrow> string \<Rightarrow> event_attributor \<Rightarrow> event_attributor" where
  "mark_git_activity meta root a =
     (case meta (join_path root ''.git/index'') of
        Mtime m \<Rightarrow> a\<lparr>at_last_git_index_mtime := Some m\<rparr> | _ \<Rightarrow> a)"

definition detect_source ::
  "(string \<Rightarrow> mtime_result) \<Rightarrow> timestamp \<Rightarrow> string \<Rightarrow> string \<Rightarrow> event_attributor \<Rightarrow> source \<times> event_attributor" where
  "detect_source meta now path root a =
     (case at_explicit_source a of
        Some s \<Rightarrow> (s, a)
      | None \<Rightarrow>
          (let (active, a') = is_git_active meta now root a in
           (if active then Git else if build_matches (at_build_patterns a') path then Build else User, a')))"

text \<open>A sequence of detections on one attributor; the clock and the index may change between them.\<close>

fun detect_all ::
  "string \<Rightarrow> ((string \<Rightarrow> mtime_result) \<times> timestamp \<times> string) list \<Rightarrow> event_attributor
    \<Rightarrow> source list \<times> event_attributor" where
  "detect_all root [] a = ([], a)"
| "detect_all root ((meta, now, path) # es) a =
     (let (s, a1) = detect_source meta now path root a; (ss, a2) = detect_all root es a1 in (s # ss, a2))"

subsection \<open>Content hashes\<close>

record disk =
  dk_exists :: "string \<Rightarrow> bool"
  dk_is_dir :: "string \<Rightarrow> bool"
  dk_len :: "string \<Rightarrow> string + nat"
  dk_read :: "string \<Rightarrow> string + string"
  dk_mtime :: "string \<Rightarrow> mtime_result"

datatype hash_error = HashIo string | FileTooLarge nat nat | HashNotFound string

record content_dedup =
  cd_max_size_bytes :: nat

definition content_dedup_new :: "nat \<Rightarrow> content_dedup" where
  "content_dedup_new n = \<lparr>cd_max_size_bytes = n\<rparr>"

definition content_dedup_default :: content_dedup where
  "content_dedup_default = content_dedup_new (10 * 1024 * 1024)"

definition hash_file ::
  "(string \<Rightarrow> string) \<Rightarrow> disk \<Rightarrow> string \<Rightarrow> content_dedup \<Rightarrow> hash_error + string" where
  "hash_file blake3 dk path d =
     (if \<not> dk_exists dk path then Inl (HashNotFound path)
      else bind_res (map_err HashIo (dk_len dk path)) (\<lambda>n.
        if cd_max_size_bytes d < n then Inl (FileTooLarge n (cd_max_size_bytes d))
        else bind_res (map_err HashIo (dk_read dk path)) (\<lambda>content. Inr (blake3 content))))"

definition hash_matches ::
  "(string \<Rightarrow> string) \<Rightarrow> disk \<Rightarrow> string \<Rightarrow> string \<Rightarrow> content_dedup \<Rightarrow> hash_error + bool" where
  "hash_matches blake3 dk path expected d =
     bind_res (hash_file blake3 dk path d) (\<lambda>actual. Inr (actual = expected))"

subsection \<open>Properties\<close>

lemma detect_git_iff:
  assumes "at_explicit_source a = None"
  shows "fst (detect_source meta now path root a) = Git \<longleftrightarrow>
    (\<exists>m l. meta (join_path root ''.git/index'') = Mtime m \<and> at_last_git_index_mtime a = Some l \<and>
       l < m \<and> m \<le> now \<and> (now - m) div nanos_per_sec < 5)"
  using assms
  by (auto simp: detect_source_def is_git_active_def split: mtime_result.splits option.splits)

lemma detect_state:
  assumes "at_explicit_source a = None"
  shows "snd (detect_source meta now path root a)
    = (case meta (join_path root ''.git/index'') of
         NoModified \<Rightarrow> a | NoMetadata \<Rightarrow> a\<lparr>at_last_git_index_mtime := None\<rparr>
       | Mtime m \<Rightarrow> a\<lparr>at_last_git_index_mtime := Some m\<rparr>)"
  using assms
  by (auto simp: detect_source_def is_git_active_def split: mtime_result.splits)

lemma detect_settled:
  assumes "at_explicit_source a = None" and "at_last_git_index_mtime a = Some m"
    and "\<forall>(meta, now, path) \<in> set es. meta (join_path root ''.git/index'') = Mtime m"
  shows "Git \<notin> set (fst (detect_all root es a))"
  using assms
proof (induction es arbitrary: a)
  case (Cons e es)
  obtain meta now path where e: "e = (meta, now, path)" by (cases e)
  obtain s a1 where 1: "detect_source meta now path root a = (s, a1)" by force
  have "s \<noteq> Git"
    using detect_git_iff[OF Cons.prems(1), of meta now path root] Cons.prems by (auto simp: 1 e)
  moreover have "at_explicit_source a1 = None" "at_last_git_index_mtime a1 = Some m"
    using detect_state[OF Cons.prems(1), of meta now path root] Cons.prems by (simp_all add: 1 e)
  ultimately show ?case using Cons.IH[of a1] Cons.prems(3) by (simp add: e 1 split_beta)
qed simp

text \<open>
  C37. A write of the git index explains at most one file event: while the index keeps one modification
  time, only the first detection of a sequence can answer \<open>Git\<close>, and it can only for an
  attributor that saw an older index before.  Hypothesis: no explicit source is set.
\<close>

theorem git_explains_one_event_per_index_write:
  assumes "at_explicit_source a = None"
    and "\<forall>(meta, now, path) \<in> set es. meta (join_path root ''.git/index'') = Mtime m"
  shows "Git \<notin> set (tl (fst (detect_all root es a))) \<and>
    (Git \<in> set (fst (detect_all root es a)) \<longrightarrow> (\<exists>l < m. at_last_git_index_mtime a = Some l))"
proof (cases es)
  case (Cons e es')
  obtain meta now path where e: "e = (meta, now, path)" by (cases e)
  obtain s a1 where 1: "detect_source meta now path root a = (s, a1)" by force
  have "at_explicit_source a1 = None" "at_last_git_index_mtime a1 = Some m"
    using detect_state[OF assms(1), of meta now path root] assms by (simp_all add: 1 e Cons)
  then have "Git \<notin> set (fst (detect_all root es' a1))"
    using assms(2) by (intro detect_settled) (auto simp: Cons)
  then show ?thesis
    using detect_git_iff[OF assms(1), of meta now path root] assms(2)
    by (auto simp: 1 e Cons split_beta)
qed simp

theorem git_explains_one_event_per_index_write_witness:
  "(let a = event_attributor_new\<lparr>at_last_git_index_mtime := Some 0\<rparr>; meta = (\<lambda>_. Mtime 7) in
    fst (detect_all ''/w'' [(meta, 8, ''/w/x''), (meta, 9, ''/w/y'')] a) = [Git, User]) \<and>
   Git \<notin> set (tl (fst (detect_all ''/w'' [(\<lambda>_. Mtime 7, 8, ''/w/x''), (\<lambda>_. Mtime 7, 9, ''/w/y'')]
     (event_attributor_new\<lparr>at_last_git_index_mtime := Some 0\<rparr>))))"
proof
  show "let a = event_attributor_new\<lparr>at_last_git_index_mtime := Some 0\<rparr>; meta = (\<lambda>_. Mtime 7) in
    fst (detect_all ''/w'' [(meta, 8, ''/w/x''), (meta, 9, ''/w/y'')] a) = [Git, User]"
    by code_simp
  show "Git \<notin> set (tl (fst (detect_all ''/w'' [(\<lambda>_. Mtime 7, 8, ''/w/x''), (\<lambda>_. Mtime 7, 9, ''/w/y'')]
     (event_attributor_new\<lparr>at_last_git_index_mtime := Some 0\<rparr>))))"
    using git_explains_one_event_per_index_write[of "event_attributor_new\<lparr>at_last_git_index_mtime := Some 0\<rparr>"
        "[(\<lambda>_. Mtime 7, 8, ''/w/x''), (\<lambda>_. Mtime 7, 9, ''/w/y'')]" "''/w''" 7]
    by (simp add: event_attributor_new_def)
qed

text \<open>
  The extension patterns ignore the dot: \<open>*.o\<close> and \<open>*.a\<close> are compared as the bare suffixes
  \<open>o\<close> and \<open>a\<close>, so a new attributor takes every path that ends in one of the two letters, such as
  \<open>main.go\<close> or \<open>schema\<close>, for a build artifact.
\<close>

theorem bare_suffix_is_build:
  assumes "utf8_valid path" and "path \<noteq> []" and "last path \<in> {CHR ''o'', CHR ''a''}"
  shows "fst (detect_source meta now path root event_attributor_new) = Build"
proof -
  have "fst (detect_source meta now path root event_attributor_new) \<noteq> Git"
    by (simp add: detect_git_iff event_attributor_new_def)
  moreover have "build_matches build_patterns_default path"
  proof -
    have "suffix [last path] path" using assms(2) by (metis append_butlast_last_id suffixI)
    then have "build_pattern_matches path ''*.o'' \<or> build_pattern_matches path ''*.a''"
      using assms(3) by (auto simp: build_pattern_matches_def ends_with_def starts_with_def slash_def
          suffix_def)
    then show ?thesis using assms(1) by (auto simp: build_matches_def list_ex_iff build_patterns_default_def)
  qed
  ultimately show ?thesis
    by (auto simp: detect_source_def is_git_active_def event_attributor_new_def
        split: mtime_result.splits)
qed

theorem bare_suffix_is_build_witness:
  "fst (detect_source (\<lambda>_. NoMetadata) 0 ''/w/main.go'' ''/w'' event_attributor_new) = Build"
proof -
  have "utf8_valid ''/w/main.go''" by code_simp
  then show ?thesis by (intro bare_suffix_is_build) simp_all
qed

end
