(* ===== verification/Analyzer.thy ===== *)
theory Analyzer
  imports Core_Awareness Attribution
begin

text \<open>
  Local analysis of source files: \<open>analyzer.rs\<close>, \<open>languages.rs\<close> and \<open>lib.rs\<close> of
  \<open>crates/ambient-fs-analyzer/src\<close>.  \<open>char::is_alphabetic\<close> and \<open>str::to_uppercase\<close> need the tables of
  Unicode and are arguments \<open>alpha\<close> and \<open>upper\<close>.  A text is scanned as the list of its characters,
  each the bytes of one character.
\<close>

subsection \<open>Languages\<close>

record language_features =
  extract_exports :: bool
  extract_imports :: bool
  ft_count_todos :: bool
  ft_count_lines :: bool

definition features_all :: language_features where
  "features_all = \<lparr>extract_exports = True, extract_imports = True, ft_count_todos = True, ft_count_lines = True\<rparr>"

definition features_none :: language_features where
  "features_none = \<lparr>extract_exports = False, extract_imports = False, ft_count_todos = False, ft_count_lines = False\<rparr>"

record language_config =
  lc_name :: string
  lc_extensions :: "string list"
  lc_features :: language_features

definition builtin_configs :: "language_config list" where
  "builtin_configs =
     [\<lparr>lc_name = ''TypeScript'', lc_extensions = [''ts'', ''tsx''], lc_features = features_all\<rparr>,
      \<lparr>lc_name = ''JavaScript'', lc_extensions = [''js'', ''jsx'', ''mjs'', ''cjs''], lc_features = features_all\<rparr>,
      \<lparr>lc_name = ''Rust'', lc_extensions = [''rs''], lc_features = features_all\<rparr>,
      \<lparr>lc_name = ''Python'', lc_extensions = [''py'', ''pyi''], lc_features = features_all\<rparr>,
      \<lparr>lc_name = ''Vue'', lc_extensions = [''vue''], lc_features = features_all\<rparr>,
      \<lparr>lc_name = ''Markdown'', lc_extensions = [''md'', ''markdown''],
       lc_features = \<lparr>extract_exports = False, extract_imports = False, ft_count_todos = True, ft_count_lines = True\<rparr>\<rparr>]"

definition insert_extensions ::
  "language_config \<Rightarrow> (string \<Rightarrow> language_config option) \<Rightarrow> (string \<Rightarrow> language_config option)" where
  "insert_extensions c m = fold (\<lambda>ext m. m(ext \<mapsto> c)) (lc_extensions c) m"

record language_registry =
  by_extension :: "string \<Rightarrow> language_config option"
  custom :: "string \<Rightarrow> language_config option"

definition with_builtin_languages :: language_registry where
  "with_builtin_languages =
     \<lparr>by_extension = fold insert_extensions builtin_configs Map.empty, custom = Map.empty\<rparr>"

text \<open>\<open>contended\<close>: a writer holds the lock, so \<open>try_read\<close> fails and the custom layer is skipped.\<close>

definition get_for_path :: "bool \<Rightarrow> string \<Rightarrow> language_registry \<Rightarrow> language_config option" where
  "get_for_path contended path reg =
     Option.bind (Option.bind (path_extension path) to_str) (\<lambda>ext.
       case (if contended then None else custom reg ext) of
         Some owned \<Rightarrow> Some \<lparr>lc_name = ''custom'', lc_extensions = [], lc_features = lc_features owned\<rparr>
       | None \<Rightarrow> by_extension reg ext)"

definition register_language :: "language_config \<Rightarrow> language_registry \<Rightarrow> language_registry" where
  "register_language c reg = reg\<lparr>custom := insert_extensions c (custom reg)\<rparr>"

subsection \<open>Lines and comments\<close>

definition newline :: string where
  "newline = [CHR 0x0A]"

text \<open>\<open>str::lines\<close> counts the final line only when it is not empty.\<close>

definition count_lines :: "string \<Rightarrow> nat" where
  "count_lines content =
     (if content = [] then 0
      else length (filter (\<lambda>c. c = CHR 0x0A) content) + (if last content = CHR 0x0A then 0 else 1))"

fun skip_blanks :: "string list \<Rightarrow> string list" where
  "skip_blanks [] = []"
| "skip_blanks (c # cs) = (if c = '' '' \<or> c = [CHR 0x09] then skip_blanks cs else c # cs)"

fun collect_keyword :: "(string \<Rightarrow> bool) \<Rightarrow> string \<Rightarrow> string list \<Rightarrow> string \<times> string list" where
  "collect_keyword alpha buf [] = (buf, [])"
| "collect_keyword alpha buf (c # cs) =
     (if c = newline then (buf, c # cs)
      else if alpha c \<or> c = '':'' then
        (if 10 < length (buf @ c) then (buf @ c, cs) else collect_keyword alpha (buf @ c) cs)
      else if buf \<noteq> [] then (buf, c # cs)
      else collect_keyword alpha buf cs)"

fun skip_line :: "string list \<Rightarrow> string list" where
  "skip_line [] = []"
| "skip_line (c # cs) = (if c = newline then cs else skip_line cs)"

definition is_keyword :: "(string \<Rightarrow> string) \<Rightarrow> string \<Rightarrow> bool" where
  "is_keyword upper buf =
     (let k = upper buf in contains_str k ''TODO'' \<or> contains_str k ''FIXME'' \<or> contains_str k ''HACK'')"

definition scan_line_comment ::
  "(string \<Rightarrow> bool) \<Rightarrow> (string \<Rightarrow> string) \<Rightarrow> string list \<Rightarrow> bool \<times> string list" where
  "scan_line_comment alpha upper cs =
     (let (buf, rest) = collect_keyword alpha [] (skip_blanks cs)
      in (is_keyword upper buf, skip_line rest))"

lemma skip_blanks_length: "length (skip_blanks cs) \<le> length cs"
  by (induction cs) auto

lemma collect_keyword_length: "length (snd (collect_keyword alpha buf cs)) \<le> length cs"
proof (induction cs arbitrary: buf)
  case (Cons c cs)
  show ?case using Cons[of buf] Cons[of "buf @ c"] by (cases "buf = []") (simp_all add: le_SucI)
qed simp

lemma skip_line_length: "length (skip_line cs) \<le> length cs"
  by (induction cs) auto

lemma scan_line_comment_length: "length (snd (scan_line_comment alpha upper cs)) \<le> length cs"
  using skip_blanks_length[of cs] collect_keyword_length[of alpha "[]" "skip_blanks cs"]
    skip_line_length[of "snd (collect_keyword alpha [] (skip_blanks cs))"]
  by (simp add: scan_line_comment_def split_beta Let_def)

lemma rest_length:
  "(hit, rest) = scan_line_comment alpha upper cs' \<Longrightarrow> length cs' \<le> n \<Longrightarrow> length rest < Suc n"
  using scan_line_comment_length[of alpha upper cs'] by (metis le_imp_less_Suc order.trans snd_conv)

text \<open>The loop of \<open>count_todos\<close> over the characters that are left; \<open>peek\<close> is the head of the rest.\<close>

function count_from :: "(string \<Rightarrow> bool) \<Rightarrow> (string \<Rightarrow> string) \<Rightarrow> string list \<Rightarrow> nat" where
  "count_from alpha upper [] = 0"
| "count_from alpha upper (c # cs) =
     (if (c = ''/'' \<or> c = ''-'') \<and> cs \<noteq> [] \<and> hd cs = c then
        (let (hit, rest) = scan_line_comment alpha upper (tl cs)
         in of_bool hit + count_from alpha upper rest)
      else if c = ''#'' then
        (let (hit, rest) = scan_line_comment alpha upper cs
         in of_bool hit + count_from alpha upper rest)
      else count_from alpha upper cs)"
  by pat_completeness auto
termination
  by (relation "measure (\<lambda>(_, _, cs). length cs)") (auto intro: rest_length)

definition count_todos :: "(string \<Rightarrow> bool) \<Rightarrow> (string \<Rightarrow> string) \<Rightarrow> string \<Rightarrow> nat" where
  "count_todos alpha upper content = count_from alpha upper (chars content)"

subsection \<open>The analyzer\<close>

datatype analysis_error = AnIo string | AnFileTooLarge nat nat | UnsupportedFileType string

record file_analyzer =
  fa_max_file_size :: nat
  fa_llm_enabled :: bool

definition analyzer_config_default :: nat where
  "analyzer_config_default = 1024 * 1024"

definition file_analyzer_new :: "nat \<Rightarrow> file_analyzer" where
  "file_analyzer_new n = \<lparr>fa_max_file_size = n, fa_llm_enabled = False\<rparr>"

definition with_llm :: "bool \<Rightarrow> file_analyzer \<Rightarrow> file_analyzer" where
  "with_llm b a = a\<lparr>fa_llm_enabled := b\<rparr>"

text \<open>\<open>fs::read_to_string\<close> fails on bytes that are not UTF-8; the counts are cast to 32 bits.\<close>

definition analyze ::
  "(string \<Rightarrow> bool) \<Rightarrow> (string \<Rightarrow> string) \<Rightarrow> disk \<Rightarrow> file_analyzer \<Rightarrow> string \<Rightarrow> string \<Rightarrow> string
    \<Rightarrow> analysis_error + file_analysis" where
  "analyze alpha upper dk fa path pid hash =
     bind_res (map_err AnIo (dk_len dk path)) (\<lambda>sz.
     if fa_max_file_size fa < sz then Inl (AnFileTooLarge sz (fa_max_file_size fa))
     else bind_res (map_err AnIo (dk_read dk path)) (\<lambda>content.
     if \<not> utf8_valid content then Inl (AnIo ''stream did not contain valid UTF-8'')
     else Inr \<lparr>an_file_path = to_string_lossy path, an_project_id = pid, an_content_hash = hash,
       an_exports = [], an_imports = [], an_todo_count = of_nat (count_todos alpha upper content),
       an_lint_hints = [], an_line_count = of_nat (count_lines content)\<rparr>))"

subsection \<open>The comment scanner, line by line\<close>

text \<open>The reference: a line counts when the word after its first comment marker is a keyword.\<close>

fun line_todo :: "(string \<Rightarrow> bool) \<Rightarrow> (string \<Rightarrow> string) \<Rightarrow> string list \<Rightarrow> bool" where
  "line_todo alpha upper [] = False"
| "line_todo alpha upper (c # cs) =
     (if (c = ''/'' \<or> c = ''-'') \<and> cs \<noteq> [] \<and> hd cs = c then
        is_keyword upper (fst (collect_keyword alpha [] (skip_blanks (tl cs))))
      else if c = ''#'' then is_keyword upper (fst (collect_keyword alpha [] (skip_blanks cs)))
      else line_todo alpha upper cs)"

lemma newline_ne [simp]: "newline \<noteq> ''/''" "newline \<noteq> ''-''" "newline \<noteq> ''#''" "newline \<noteq> '' ''"
    "newline \<noteq> '':''" "newline \<noteq> [CHR 0x09]"
  by (simp_all add: newline_def)

lemma skip_line_free [simp]: "newline \<notin> set l \<Longrightarrow> skip_line l = []"
  "newline \<notin> set l \<Longrightarrow> skip_line (l @ newline # r) = r"
  by (induction l) auto

lemma skip_blanks_free:
  "skip_blanks (l @ newline # r) = skip_blanks l @ newline # r"
  "newline \<notin> set l \<Longrightarrow> newline \<notin> set (skip_blanks l)"
  by (induction l) auto

lemma collect_keyword_free:
  "newline \<notin> set l \<Longrightarrow> newline \<notin> set (snd (collect_keyword alpha buf l)) \<and>
     collect_keyword alpha buf (l @ newline # r)
       = (fst (collect_keyword alpha buf l), snd (collect_keyword alpha buf l) @ newline # r)"
proof (induction l arbitrary: buf)
  case (Cons c l)
  have c: "c \<noteq> newline" "newline \<notin> set l" using Cons.prems by auto
  show ?case using c Cons.IH[OF c(2), of buf] Cons.IH[OF c(2), of "buf @ c"]
    by (cases "buf = []"; cases "c = '':''") simp_all
qed simp

lemma scan_line_comment_free:
  assumes "newline \<notin> set l"
  shows "scan_line_comment alpha upper l
      = (is_keyword upper (fst (collect_keyword alpha [] (skip_blanks l))), [])"
    and "scan_line_comment alpha upper (l @ newline # r)
      = (is_keyword upper (fst (collect_keyword alpha [] (skip_blanks l))), r)"
  using collect_keyword_free[OF skip_blanks_free(2)[OF assms]] skip_blanks_free(1)[of l r]
  by (simp_all add: scan_line_comment_def split_beta Let_def)

lemma set_tl_subset: "x \<notin> set l \<Longrightarrow> x \<notin> set (tl l)"
  by (cases l) auto

lemma count_line:
  "newline \<notin> set l \<Longrightarrow>
     count_from alpha upper (l @ newline # r) = of_bool (line_todo alpha upper l) + count_from alpha upper r"
proof (induction l)
  case (Cons c l)
  then have l: "newline \<notin> set l" by simp
  show ?case
    using Cons scan_line_comment_free(2)[OF l] scan_line_comment_free(2)[OF set_tl_subset[OF l]]
    by (cases l) auto
qed simp

lemma count_last_line:
  "newline \<notin> set l \<Longrightarrow> count_from alpha upper l = of_bool (line_todo alpha upper l)"
proof (induction l)
  case (Cons c l)
  then have l: "newline \<notin> set l" by simp
  show ?case
    using Cons scan_line_comment_free(1)[OF l] scan_line_comment_free(1)[OF set_tl_subset[OF l]]
    by (cases l) auto
qed simp

lemma count_from_lines:
  "count_from alpha upper cs = length (filter (line_todo alpha upper) (split_on newline cs))"
proof (induction "length cs" arbitrary: cs rule: less_induct)
  case less
  show ?case
  proof (cases "newline \<in> set cs")
    case True
    then obtain l r where cs: "cs = l @ newline # r" "newline \<notin> set l" by (meson split_list_first)
    then show ?thesis
      using less[of r] count_line[OF cs(2)] by (simp add: split_on_append_sep split_on_free)
  qed (simp add: count_last_line split_on_free)
qed

subsection \<open>Lines of bytes and lines of characters\<close>

lemma utf8_step_high:
  "utf8_step b r = (True, n) \<Longrightarrow> n \<noteq> 1 \<Longrightarrow> \<forall>c \<in> set (take n (b # r)). 0x80 \<le> byte c"
  by (auto simp: utf8_step_def lead_width_def second_ok_def in_bytes_def Let_def
      split: list.splits if_splits)

lemma utf8_step_one: "utf8_step b r = (True, 1) \<Longrightarrow> take 1 (b # r) = [b]"
  by simp

lemma utf8_chunks_step:
  "utf8_step c cs = (v, n) \<Longrightarrow> utf8_chunks (c # cs) = (v, take n (c # cs)) # utf8_chunks (drop n (c # cs))"
  by simp

lemma newline_chunk:
  assumes "(True, ch) \<in> set (utf8_chunks s)"
  shows "length (filter (\<lambda>c. c = CHR 0x0A) ch) = of_bool (ch = newline)"
  using assms
proof (induction s rule: utf8_chunks.induct)
  case (2 c cs)
  obtain v n where st: "utf8_step c cs = (v, n)" by (cases "utf8_step c cs") auto
  have "(True, ch) = (v, take n (c # cs)) \<or> (True, ch) \<in> set (utf8_chunks (drop n (c # cs)))"
    using 2(2) unfolding utf8_chunks_step[OF st] by (simp only: list.set insert_iff)
  then consider "(True, ch) \<in> set (utf8_chunks (drop n (c # cs)))" | "v" "ch = take n (c # cs)"
    by blast
  then show ?case
  proof cases
    case 1
    then show ?thesis using 2(1)[OF st[symmetric]] by simp
  next
    case 2
    show ?thesis
    proof (cases "n = 1")
      case True
      then show ?thesis using 2 by (simp add: newline_def)
    next
      case False
      have "\<forall>c \<in> set (take n (c # cs)). 0x80 \<le> byte c"
        by (rule utf8_step_high[OF _ False]) (use st \<open>v\<close> in simp)
      moreover have "byte (CHR 0x0A) = 10" by (simp add: byte_def)
      ultimately have no: "CHR 0x0A \<notin> set ch" unfolding \<open>ch = take n (c # cs)\<close>
        by fastforce
      then have "filter (\<lambda>c. c = CHR 0x0A) ch = []" by (simp add: filter_empty_conv) metis
      moreover have "ch \<noteq> newline" using no by (auto simp: newline_def)
      ultimately show ?thesis by simp
    qed
  qed
qed simp

lemma newlines_chars:
  assumes "utf8_valid s"
  shows "length (filter (\<lambda>c. c = CHR 0x0A) s) = length (filter (\<lambda>ch. ch = newline) (chars s))"
proof -
  have "length (filter (\<lambda>c. c = CHR 0x0A) (concat chs)) = length (filter (\<lambda>ch. ch = newline) chs)"
    if "\<forall>ch \<in> set chs. length (filter (\<lambda>c. c = CHR 0x0A) ch) = of_bool (ch = newline)" for chs
    using that by (induction chs) auto
  moreover have "\<forall>ch \<in> set (chars s). length (filter (\<lambda>c. c = CHR 0x0A) ch) = of_bool (ch = newline)"
  proof
    fix ch assume "ch \<in> set (chars s)"
    then have "(True, ch) \<in> set (utf8_chunks s)"
      using assms by (auto simp: chars_def utf8_valid_def list_all_iff)
    then show "length (filter (\<lambda>c. c = CHR 0x0A) ch) = of_bool (ch = newline)" by (rule newline_chunk)
  qed
  ultimately show ?thesis using concat_chars[of s] by metis
qed

lemma split_on_length: "length (split_on c xs) = length (filter (\<lambda>x. x = c) xs) + 1"
  by (induction xs) (auto split: list.split)

lemma split_on_last_sep: "xs \<noteq> [] \<Longrightarrow> last xs = c \<Longrightarrow> split_on c xs = split_on c (butlast xs) @ [[]]"
  using split_on_append_sep[of c "butlast xs" "[]"] by (metis append_butlast_last_id split_on.simps(1))

lemma last_char_newline:
  assumes "s \<noteq> []" and "last s = CHR 0x0A" and "utf8_valid s"
  shows "chars s \<noteq> [] \<and> last (chars s) = newline"
proof -
  have ne: "chars s \<noteq> []" using concat_chars[of s] assms(1) by (metis concat.simps(1))
  have ch: "last (chars s) \<in> set (chars s)" using ne by simp
  then have mem: "(True, last (chars s)) \<in> set (utf8_chunks s)"
    using assms(3) by (auto simp: chars_def utf8_valid_def list_all_iff)
  have "last (chars s) \<noteq> []"
  proof -
    have "(v, ch) \<in> set (utf8_chunks s) \<Longrightarrow> ch \<noteq> []" for v ch
    proof (induction s rule: utf8_chunks.induct)
      case (2 c cs)
      obtain w n where st: "utf8_step c cs = (w, n)" by (cases "utf8_step c cs") auto
      then show ?case using 2 utf8_step_pos[of c cs] by auto
    qed simp
    with mem show ?thesis by blast
  qed
  moreover have "s = concat (butlast (chars s)) @ last (chars s)"
    using ne concat_chars[of s] by (metis append_butlast_last_id concat.simps concat_append append_Nil2)
  ultimately have "last (last (chars s)) = CHR 0x0A" using assms(2) by (metis last_appendR)
  then have "filter (\<lambda>c. c = CHR 0x0A) (last (chars s)) \<noteq> []"
    using \<open>last (chars s) \<noteq> []\<close> last_in_set[of "last (chars s)"] by (auto simp: filter_empty_conv)
  then show ?thesis using newline_chunk[OF mem] ne
    by (cases "last (chars s) = newline") simp_all
qed

lemma todos_le_lines:
  assumes "utf8_valid s"
  shows "count_todos alpha upper s \<le> count_lines s"
proof (cases "s = []")
  case False
  let ?P = "line_todo alpha upper" and ?n = "length (filter (\<lambda>ch. ch = newline) (chars s))"
  have count: "count_todos alpha upper s = length (filter ?P (split_on newline (chars s)))"
    by (simp add: count_todos_def count_from_lines)
  show ?thesis
  proof (cases "last s = CHR 0x0A")
    case True
    from last_char_newline[OF False True assms] have sp: "split_on newline (chars s) = split_on newline (butlast (chars s)) @ [[]]"
      by (intro split_on_last_sep) auto
    then have "length (split_on newline (butlast (chars s))) = ?n"
      using split_on_length[of newline "chars s"] by simp
    then have "length (filter ?P (split_on newline (butlast (chars s)))) \<le> ?n"
      by (metis length_filter_le)
    then show ?thesis using True False by (simp add: count sp count_lines_def newlines_chars[OF assms])
  next
    case F: False
    have "length (filter ?P (split_on newline (chars s))) \<le> ?n + 1"
      using length_filter_le[of ?P "split_on newline (chars s)"] split_on_length[of newline "chars s"] by simp
    then show ?thesis using F False by (simp add: count count_lines_def newlines_chars[OF assms])
  qed
qed (simp add: count_todos_def chars_def)

lemma count_lines_le: "count_lines s \<le> length s"
proof (cases "s = [] \<or> last s = CHR 0x0A")
  case False
  then have "\<exists>x \<in> set s. x \<noteq> CHR 0x0A" by (metis last_in_set)
  then show ?thesis using length_filter_ne[of "\<lambda>c. c = CHR 0x0A" s] by (simp add: count_lines_def)
qed (auto simp: count_lines_def)

subsection \<open>Properties\<close>

text \<open>
  C32. A successful analysis of a file counts its lines and its marked comments exactly: the TODO count
  is the number of lines whose first comment (after \<open>//\<close>, \<open>--\<close> or \<open>#\<close>) opens with a word, cut after 11 bytes, that
  contains TODO, FIXME or HACK in upper case, so it never exceeds the line count, and neither
  count wraps for a file of less than 4 GiB.
\<close>

theorem analysis_counts_exact:
  assumes "analyze alpha upper dk fa path pid hash = Inr a" and "dk_read dk path = Inr content"
    and "length content < 2 ^ 32"
  shows "unat (an_todo_count a) = length (filter (line_todo alpha upper) (split_on newline (chars content))) \<and>
    unat (an_line_count a) = count_lines content \<and> unat (an_todo_count a) \<le> unat (an_line_count a) \<and>
    is_valid_for a hash"
proof -
  have valid: "utf8_valid content" and a: "an_todo_count a = of_nat (count_todos alpha upper content)"
    "an_line_count a = of_nat (count_lines content)" "an_content_hash a = hash"
    using assms(1,2) by (auto simp: analyze_def bind_res_Inr split: if_splits)
  have "count_lines content < 2 ^ 32" using count_lines_le[of content] assms(3) by linarith
  then show ?thesis
    using todos_le_lines[OF valid, of alpha upper] a
    by (simp add: unat_of_nat take_bit_nat_eq_self is_valid_for_def)
      (simp add: count_todos_def count_from_lines)
qed

text \<open>The tables of Unicode restricted to ASCII, for evaluation.\<close>

definition ascii_alpha :: "string \<Rightarrow> bool" where
  "ascii_alpha ch = (case ch of [c] \<Rightarrow> (65 \<le> byte c \<and> byte c \<le> 90) \<or> (97 \<le> byte c \<and> byte c \<le> 122) | _ \<Rightarrow> False)"

definition ascii_upper :: "string \<Rightarrow> string" where
  "ascii_upper s = map (\<lambda>c. if 97 \<le> byte c \<and> byte c \<le> 122 then char_of (byte c - 32) else c) s"

definition ascii_lower :: "string \<Rightarrow> string" where
  "ascii_lower s = map (\<lambda>c. if 65 \<le> byte c \<and> byte c \<le> 90 then char_of (byte c + 32) else c) s"

definition demo_text :: string where
  "demo_text = ''let x; // todo: y'' @ newline @ ''# fix TODO'' @ newline @ ''-- Mastodon'' @ newline"

theorem analysis_counts_exact_witness:
  "\<exists>a. analyze ascii_alpha ascii_upper
        \<lparr>dk_exists = \<lambda>_. True, dk_is_dir = \<lambda>_. False, dk_len = \<lambda>_. Inr 40, dk_read = \<lambda>_. Inr demo_text,
         dk_mtime = \<lambda>_. NoMetadata\<rparr> (file_analyzer_new 1024) ''/w/f'' ''p'' ''h'' = Inr a \<and>
     unat (an_todo_count a) = 2 \<and> unat (an_line_count a) = 3"
proof -
  let ?dk = "\<lparr>dk_exists = \<lambda>_. True, dk_is_dir = \<lambda>_. False, dk_len = \<lambda>_. Inr 40, dk_read = \<lambda>_. Inr demo_text,
         dk_mtime = \<lambda>_. NoMetadata\<rparr>"
  have v: "utf8_valid demo_text" by code_simp
  have n: "length (filter (line_todo ascii_alpha ascii_upper) (split_on newline (chars demo_text))) = 2"
    "count_lines demo_text = 3" "length demo_text < 2 ^ 32" by code_simp+
  have "\<exists>a. analyze ascii_alpha ascii_upper ?dk (file_analyzer_new 1024) ''/w/f'' ''p'' ''h'' = Inr a"
    using v by (simp add: analyze_def file_analyzer_new_def)
  then show ?thesis
    using analysis_counts_exact[of ascii_alpha ascii_upper ?dk "file_analyzer_new 1024" "''/w/f''" "''p''" "''h''"
        _ demo_text] n by auto
qed

end
