(* ===== verification/Json.thy ===== *)
theory Json
  imports Core_Awareness
begin

text \<open>
  JSON values as the crate serde_json represents them, and serde's documented rules for the derived
  \<open>Deserialize\<close> of a struct: unknown fields are ignored, a repeated known field is an error, a
  missing \<open>Option\<close> field is \<open>None\<close>, a missing \<open>default\<close> field is the default, and an array stands for
  the fields in their order.  The text syntax of JSON is the crate's, an argument where it is used.
  An object keeps the order of the document; looking a key up in a \<open>Map\<close> finds its last occurrence.
  A number that is not an integer keeps its text.
\<close>

datatype json =
  JNull | JBool bool | JInt int | JFloat string | JStr string
| JArr "json list" | JObj "(string \<times> json) list"

type_synonym fields = "(string \<times> json) list"

definition obj_get :: "string \<Rightarrow> fields \<Rightarrow> json option" where
  "obj_get k fs = map_of (rev fs) k"

fun as_string :: "json \<Rightarrow> string option" where
  "as_string (JStr s) = Some s"
| "as_string _ = None"

fun as_i64 :: "json \<Rightarrow> int option" where
  "as_i64 (JInt i) = (if - (2 ^ 63) \<le> i \<and> i < 2 ^ 63 then Some i else None)"
| "as_i64 _ = None"

fun as_u64 :: "json \<Rightarrow> nat option" where
  "as_u64 (JInt i) = (if 0 \<le> i \<and> i < 2 ^ 64 then Some (nat i) else None)"
| "as_u64 _ = None"

definition get_str :: "string \<Rightarrow> fields \<Rightarrow> string option" where
  "get_str k fs = Option.bind (obj_get k fs) as_string"

definition json_opt :: "('a \<Rightarrow> json) \<Rightarrow> 'a option \<Rightarrow> json" where
  "json_opt enc x = (case x of None \<Rightarrow> JNull | Some a \<Rightarrow> enc a)"

subsection \<open>Derived deserialization\<close>

text \<open>The names of a struct's fields, each with whether it carries \<open>#[serde(default)]\<close>.\<close>

definition struct_fields :: "(string \<times> bool) list \<Rightarrow> json \<Rightarrow> string + (string \<Rightarrow> json option)" where
  "struct_fields names j =
     (case j of
        JObj fs \<Rightarrow>
          if list_ex (\<lambda>(n, _). 1 < length (filter (\<lambda>(k, _). k = n) fs)) names
          then Inl ''duplicate field'' else Inr (map_of fs)
      | JArr vs \<Rightarrow>
          if length names < length vs then Inl ''trailing characters''
          else if list_ex (\<lambda>(_, d). \<not> d) (drop (length vs) names) then Inl ''invalid length''
          else Inr (map_of (zip (map fst names) vs))
      | _ \<Rightarrow> Inl ''invalid type'')"

definition required :: "string \<Rightarrow> (json \<Rightarrow> string + 'a) \<Rightarrow> (string \<Rightarrow> json option) \<Rightarrow> string + 'a" where
  "required n dec m = (case m n of None \<Rightarrow> Inl ''missing field'' | Some j \<Rightarrow> dec j)"

definition dec_opt :: "(json \<Rightarrow> string + 'a) \<Rightarrow> json \<Rightarrow> string + 'a option" where
  "dec_opt dec j = (if j = JNull then Inr None else bind_res (dec j) (\<lambda>a. Inr (Some a)))"

definition optional :: "string \<Rightarrow> (json \<Rightarrow> string + 'a) \<Rightarrow> (string \<Rightarrow> json option) \<Rightarrow> string + 'a option" where
  "optional n dec m = (case m n of None \<Rightarrow> Inr None | Some j \<Rightarrow> dec_opt dec j)"

definition defaulted :: "string \<Rightarrow> (json \<Rightarrow> string + 'a) \<Rightarrow> 'a \<Rightarrow> (string \<Rightarrow> json option) \<Rightarrow> string + 'a" where
  "defaulted n dec d m = (case m n of None \<Rightarrow> Inr d | Some j \<Rightarrow> dec j)"

definition dec_string :: "json \<Rightarrow> string + string" where
  "dec_string j = (case j of JStr s \<Rightarrow> Inr s | _ \<Rightarrow> Inl ''invalid type'')"

definition dec_bool :: "json \<Rightarrow> string + bool" where
  "dec_bool j = (case j of JBool b \<Rightarrow> Inr b | _ \<Rightarrow> Inl ''invalid type'')"

definition dec_int :: "int \<Rightarrow> int \<Rightarrow> json \<Rightarrow> string + int" where
  "dec_int lo hi j =
     (case j of JInt i \<Rightarrow> if lo \<le> i \<and> i < hi then Inr i else Inl ''invalid value'' | _ \<Rightarrow> Inl ''invalid type'')"

definition dec_i64 :: "json \<Rightarrow> string + int" where
  "dec_i64 = dec_int (- (2 ^ 63)) (2 ^ 63)"

definition dec_i32 :: "json \<Rightarrow> string + int" where
  "dec_i32 = dec_int (- (2 ^ 31)) (2 ^ 31)"

definition dec_u32 :: "json \<Rightarrow> string + u32" where
  "dec_u32 j = bind_res (dec_int 0 (2 ^ 32) j) (\<lambda>i. Inr (of_int i))"

fun dec_all :: "(json \<Rightarrow> string + 'a) \<Rightarrow> json list \<Rightarrow> string + 'a list" where
  "dec_all dec [] = Inr []"
| "dec_all dec (j # js) = bind_res (dec j) (\<lambda>a. bind_res (dec_all dec js) (\<lambda>as. Inr (a # as)))"

definition dec_list :: "(json \<Rightarrow> string + 'a) \<Rightarrow> json \<Rightarrow> string + 'a list" where
  "dec_list dec j = (case j of JArr js \<Rightarrow> dec_all dec js | _ \<Rightarrow> Inl ''invalid type'')"

text \<open>A \<open>Value\<close> keeps one entry per key, the last.\<close>

fun norm_obj :: "fields \<Rightarrow> fields" where
  "norm_obj [] = []"
| "norm_obj ((k, v) # fs) = (if k \<in> fst ` set fs then norm_obj fs else (k, v) # norm_obj fs)"

subsection \<open>Encodings of the core types\<close>

definition json_u32 :: "u32 \<Rightarrow> json" where
  "json_u32 n = JInt (uint n)"

text \<open>\<open>tfmt\<close> is chrono's serialization of a \<open>DateTime<Utc>\<close>.\<close>

definition json_event :: "(timestamp \<Rightarrow> string) \<Rightarrow> file_event \<Rightarrow> json" where
  "json_event tfmt e = JObj
     [(''timestamp'', JStr (tfmt (ev_timestamp e))), (''event_type'', JStr (event_type_as_str (ev_type e))),
      (''file_path'', JStr (ev_file_path e)), (''project_id'', JStr (ev_project_id e)),
      (''source'', JStr (source_as_str (ev_source e))), (''source_id'', json_opt JStr (ev_source_id e)),
      (''machine_id'', JStr (ev_machine_id e)), (''content_hash'', json_opt JStr (ev_content_hash e)),
      (''old_path'', json_opt JStr (ev_old_path e))]"

definition json_awareness :: "(timestamp \<Rightarrow> string) \<Rightarrow> file_awareness \<Rightarrow> json" where
  "json_awareness tfmt a = JObj
     [(''file_path'', JStr (aw_file_path a)), (''project_id'', JStr (aw_project_id a)),
      (''last_modified'', JStr (tfmt (aw_last_modified a))),
      (''modified_by'', JStr (source_as_str (aw_modified_by a))),
      (''modified_by_label'', json_opt JStr (aw_modified_by_label a)),
      (''active_agent'', json_opt JStr (aw_active_agent a)),
      (''chat_references'', json_u32 (aw_chat_references a)), (''todo_count'', json_u32 (aw_todo_count a)),
      (''lint_hints'', json_u32 (aw_lint_hints a)), (''line_count'', json_u32 (aw_line_count a)),
      (''change_frequency'', JStr (change_frequency_as_str (aw_change_frequency a)))]"

definition dec_event_type :: "json \<Rightarrow> string + event_type" where
  "dec_event_type j = bind_res (dec_string j) (\<lambda>s. map_err (\<lambda>_. ''unknown variant'') (event_type_from_str s))"

definition dec_source :: "json \<Rightarrow> string + source" where
  "dec_source j = bind_res (dec_string j) (\<lambda>s. map_err (\<lambda>_. ''unknown variant'') (source_from_str s))"

definition dec_event :: "(string \<Rightarrow> string + timestamp) \<Rightarrow> json \<Rightarrow> string + file_event" where
  "dec_event tparse j =
     bind_res (struct_fields (map (\<lambda>n. (n, False))
       [''timestamp'', ''event_type'', ''file_path'', ''project_id'', ''source'', ''source_id'',
        ''machine_id'', ''content_hash'', ''old_path'']) j) (\<lambda>m.
     bind_res (required ''timestamp'' (\<lambda>j. bind_res (dec_string j) tparse) m) (\<lambda>ts.
     bind_res (required ''event_type'' dec_event_type m) (\<lambda>et.
     bind_res (required ''file_path'' dec_string m) (\<lambda>path.
     bind_res (required ''project_id'' dec_string m) (\<lambda>pid.
     bind_res (required ''source'' dec_source m) (\<lambda>src.
     bind_res (optional ''source_id'' dec_string m) (\<lambda>sid.
     bind_res (required ''machine_id'' dec_string m) (\<lambda>mid.
     bind_res (optional ''content_hash'' dec_string m) (\<lambda>hash.
     bind_res (optional ''old_path'' dec_string m) (\<lambda>old.
     Inr \<lparr>ev_timestamp = ts, ev_type = et, ev_file_path = path, ev_project_id = pid, ev_source = src,
          ev_source_id = sid, ev_machine_id = mid, ev_content_hash = hash, ev_old_path = old\<rparr>))))))))))"

text \<open>Encoded numbers and lists read back.\<close>

lemma dec_u32_json [simp]: "dec_u32 (json_u32 n) = Inr n"
proof -
  have "uint n < 2 ^ 32" using uint_lt2p[of n] by simp
  then show ?thesis by (simp add: dec_u32_def json_u32_def dec_int_def)
qed

lemma dec_all_map: "(\<And>x. x \<in> set xs \<Longrightarrow> dec (enc x) = Inr x) \<Longrightarrow> dec_all dec (map enc xs) = Inr xs"
  by (induction xs) auto

lemma dec_strings [simp]: "dec_list dec_string (JArr (map JStr xs)) = Inr xs"
  by (simp add: dec_list_def dec_all_map dec_string_def)

lemma optional_json_opt [simp]:
  "m n = Some (json_opt JStr x) \<Longrightarrow> optional n dec_string m = Inr x"
  by (cases x) (simp_all add: optional_def dec_opt_def json_opt_def dec_string_def)

lemma dec_event_json:
  "tparse (tfmt (ev_timestamp e)) = Inr (ev_timestamp e) \<Longrightarrow> dec_event tparse (json_event tfmt e) = Inr e"
  by (simp add: dec_event_def json_event_def struct_fields_def required_def dec_string_def
      dec_event_type_def dec_source_def event_type_text.parse_print source_text.parse_print)

end
