(* ===== verification/Protocol.thy ===== *)
theory Protocol
  imports Json
begin

text \<open>
  The JSON-RPC messages of \<open>crates/ambient-fs-server/src/protocol.rs\<close>: requests, responses, errors
  and methods, with the serialized forms their serde attributes give.
\<close>

datatype msg_id = IdNull | IdNumber int | IdString string

datatype params = ParamsArray "json list" | ParamsObject fields

record request =
  rq_jsonrpc :: string
  rq_method :: string
  rq_params :: "params option"
  rq_id :: msg_id

definition request_new :: "string \<Rightarrow> params option \<Rightarrow> msg_id \<Rightarrow> request" where
  "request_new m ps i = \<lparr>rq_jsonrpc = ''2.0'', rq_method = m, rq_params = ps, rq_id = i\<rparr>"

definition notification :: "string \<Rightarrow> params option \<Rightarrow> request" where
  "notification m ps = request_new m ps IdNull"

definition is_notification :: "request \<Rightarrow> bool" where
  "is_notification r = (rq_id r = IdNull)"

record proto_error =
  pe_code :: int
  pe_message :: string
  pe_data :: "json option"

definition proto_error_new :: "int \<Rightarrow> string \<Rightarrow> proto_error" where
  "proto_error_new c m = \<lparr>pe_code = c, pe_message = m, pe_data = None\<rparr>"

definition with_data :: "json \<Rightarrow> proto_error \<Rightarrow> proto_error" where
  "with_data d e = e\<lparr>pe_data := Some d\<rparr>"

definition err_parse :: proto_error where
  "err_parse = proto_error_new (- 32700) ''Parse error''"

definition err_invalid_request :: proto_error where
  "err_invalid_request = proto_error_new (- 32600) ''Invalid Request''"

definition err_method_not_found :: "string \<Rightarrow> proto_error" where
  "err_method_not_found m = proto_error_new (- 32601) (''Method not found: '' @ m)"

definition err_invalid_params :: "string \<Rightarrow> proto_error" where
  "err_invalid_params msg = proto_error_new (- 32602) msg"

definition err_internal :: proto_error where
  "err_internal = proto_error_new (- 32603) ''Internal error''"

definition err_project_not_found :: "string \<Rightarrow> proto_error" where
  "err_project_not_found i = proto_error_new (- 1001) (''Project not found: '' @ i)"

definition err_already_watching :: "string \<Rightarrow> proto_error" where
  "err_already_watching p = proto_error_new (- 1002) (''Already watching: '' @ p)"

definition err_watch_failed :: "string \<Rightarrow> proto_error" where
  "err_watch_failed p = proto_error_new (- 1003) (''Failed to watch: '' @ p)"

definition err_invalid_path :: "string \<Rightarrow> proto_error" where
  "err_invalid_path p = proto_error_new (- 1004) (''Invalid path: '' @ p)"

lemmas err_defs = err_parse_def err_invalid_request_def err_method_not_found_def err_invalid_params_def
  err_internal_def err_project_not_found_def err_already_watching_def err_watch_failed_def
  err_invalid_path_def proto_error_new_def

record response =
  rs_jsonrpc :: string
  rs_result :: "json option"
  rs_error :: "proto_error option"
  rs_id :: msg_id

definition response_result :: "msg_id \<Rightarrow> json \<Rightarrow> response" where
  "response_result i r = \<lparr>rs_jsonrpc = ''2.0'', rs_result = Some r, rs_error = None, rs_id = i\<rparr>"

definition response_error :: "msg_id \<Rightarrow> proto_error \<Rightarrow> response" where
  "response_error i e = \<lparr>rs_jsonrpc = ''2.0'', rs_result = None, rs_error = Some e, rs_id = i\<rparr>"

definition is_success :: "response \<Rightarrow> bool" where
  "is_success r = (rs_error r = None \<and> rs_result r \<noteq> None)"

subsection \<open>Methods\<close>

datatype rpc_method =
  Subscribe | Unsubscribe | QueryEvents | QueryAwareness | WatchProject | UnwatchProject
| WatchAgents | UnwatchAgents | QueryAgents | QueryTree | Attribute | ReportAgentActivity

fun method_as_str :: "rpc_method \<Rightarrow> string" where
  "method_as_str Subscribe = ''subscribe''"
| "method_as_str Unsubscribe = ''unsubscribe''"
| "method_as_str QueryEvents = ''query_events''"
| "method_as_str QueryAwareness = ''query_awareness''"
| "method_as_str WatchProject = ''watch_project''"
| "method_as_str UnwatchProject = ''unwatch_project''"
| "method_as_str WatchAgents = ''watch_agents''"
| "method_as_str UnwatchAgents = ''unwatch_agents''"
| "method_as_str QueryAgents = ''query_agents''"
| "method_as_str QueryTree = ''query_tree''"
| "method_as_str Attribute = ''attribute''"
| "method_as_str ReportAgentActivity = ''report_agent_activity''"

definition method_from_str :: "string \<Rightarrow> string + rpc_method" where
  "method_from_str s =
     (if s = ''subscribe'' then Inr Subscribe
      else if s = ''unsubscribe'' then Inr Unsubscribe
      else if s = ''query_events'' then Inr QueryEvents
      else if s = ''query_awareness'' then Inr QueryAwareness
      else if s = ''watch_project'' then Inr WatchProject
      else if s = ''unwatch_project'' then Inr UnwatchProject
      else if s = ''watch_agents'' then Inr WatchAgents
      else if s = ''unwatch_agents'' then Inr UnwatchAgents
      else if s = ''query_agents'' then Inr QueryAgents
      else if s = ''query_tree'' then Inr QueryTree
      else if s = ''attribute'' then Inr Attribute
      else if s = ''report_agent_activity'' then Inr ReportAgentActivity
      else Inl (''unknown method: '' @ s))"

interpretation method_text: text_form method_as_str method_from_str
proof
  show "method_from_str (method_as_str a) = Inr a" for a
    by (cases a) (simp_all add: method_from_str_def)
  show "method_from_str s = Inr a \<Longrightarrow> s = method_as_str a" for s a
    by (auto simp: method_from_str_def split: if_splits)
qed

subsection \<open>Serialized forms\<close>

fun json_id :: "msg_id \<Rightarrow> json" where
  "json_id IdNull = JNull"
| "json_id (IdNumber i) = JInt i"
| "json_id (IdString s) = JStr s"

definition dec_id :: "json \<Rightarrow> string + msg_id" where
  "dec_id j =
     (case j of
        JNull \<Rightarrow> Inr IdNull
      | JInt i \<Rightarrow> if - (2 ^ 63) \<le> i \<and> i < 2 ^ 63 then Inr (IdNumber i) else Inl ''no variant matched''
      | JStr s \<Rightarrow> Inr (IdString s)
      | _ \<Rightarrow> Inl ''no variant matched'')"

fun json_params :: "params \<Rightarrow> json" where
  "json_params (ParamsArray vs) = JArr vs"
| "json_params (ParamsObject fs) = JObj fs"

definition dec_params :: "json \<Rightarrow> string + params" where
  "dec_params j =
     (case j of JArr vs \<Rightarrow> Inr (ParamsArray vs) | JObj fs \<Rightarrow> Inr (ParamsObject fs)
      | _ \<Rightarrow> Inl ''no variant matched'')"

definition json_request :: "request \<Rightarrow> json" where
  "json_request r = JObj
     ([(''jsonrpc'', JStr (rq_jsonrpc r)), (''method'', JStr (rq_method r))]
      @ (case rq_params r of None \<Rightarrow> [] | Some ps \<Rightarrow> [(''params'', json_params ps)])
      @ [(''id'', json_id (rq_id r))])"

definition dec_request :: "json \<Rightarrow> string + request" where
  "dec_request j =
     bind_res (struct_fields [(''jsonrpc'', False), (''method'', False), (''params'', False), (''id'', True)] j) (\<lambda>m.
     bind_res (required ''jsonrpc'' dec_string m) (\<lambda>v.
     bind_res (required ''method'' dec_string m) (\<lambda>meth.
     bind_res (optional ''params'' dec_params m) (\<lambda>ps.
     bind_res (defaulted ''id'' dec_id IdNull m) (\<lambda>i.
     Inr \<lparr>rq_jsonrpc = v, rq_method = meth, rq_params = ps, rq_id = i\<rparr>)))))"

definition json_error :: "proto_error \<Rightarrow> json" where
  "json_error e = JObj
     ([(''code'', JInt (pe_code e)), (''message'', JStr (pe_message e))]
      @ (case pe_data e of None \<Rightarrow> [] | Some d \<Rightarrow> [(''data'', d)]))"

definition dec_error :: "json \<Rightarrow> string + proto_error" where
  "dec_error j =
     bind_res (struct_fields [(''code'', False), (''message'', False), (''data'', False)] j) (\<lambda>m.
     bind_res (required ''code'' dec_i32 m) (\<lambda>c.
     bind_res (required ''message'' dec_string m) (\<lambda>msg.
     bind_res (optional ''data'' Inr m) (\<lambda>d.
     Inr \<lparr>pe_code = c, pe_message = msg, pe_data = d\<rparr>))))"

definition json_response :: "response \<Rightarrow> json" where
  "json_response r = JObj
     ([(''jsonrpc'', JStr (rs_jsonrpc r))]
      @ (case rs_result r of None \<Rightarrow> [] | Some v \<Rightarrow> [(''result'', v)])
      @ (case rs_error r of None \<Rightarrow> [] | Some e \<Rightarrow> [(''error'', json_error e)])
      @ [(''id'', json_id (rs_id r))])"

definition dec_response :: "json \<Rightarrow> string + response" where
  "dec_response j =
     bind_res (struct_fields [(''jsonrpc'', False), (''result'', False), (''error'', False), (''id'', False)] j) (\<lambda>m.
     bind_res (required ''jsonrpc'' dec_string m) (\<lambda>v.
     bind_res (optional ''result'' Inr m) (\<lambda>res.
     bind_res (optional ''error'' dec_error m) (\<lambda>err.
     bind_res (required ''id'' dec_id m) (\<lambda>i.
     Inr \<lparr>rs_jsonrpc = v, rs_result = res, rs_error = err, rs_id = i\<rparr>)))))"

text \<open>An id is a 64-bit number.\<close>

fun id_ok :: "msg_id \<Rightarrow> bool" where
  "id_ok (IdNumber i) \<longleftrightarrow> - (2 ^ 63) \<le> i \<and> i < 2 ^ 63"
| "id_ok _ \<longleftrightarrow> True"

lemma dec_id_json [simp]: "id_ok i \<Longrightarrow> dec_id (json_id i) = Inr i"
  by (cases i) (simp_all add: dec_id_def)

lemma dec_params_json [simp]: "dec_opt dec_params (json_params ps) = Inr (Some ps)"
  by (cases ps) (simp_all add: dec_opt_def dec_params_def)

lemma dec_request_json:
  "id_ok (rq_id r) \<Longrightarrow> dec_request (json_request r) = Inr r"
  by (cases r) (simp add: dec_request_def json_request_def struct_fields_def required_def optional_def
      defaulted_def dec_string_def split: option.split)

text \<open>An error as the other side reads it: data that is the JSON value null is read as no data.\<close>

definition error_read_back :: "proto_error \<Rightarrow> proto_error" where
  "error_read_back e = (if pe_data e = Some JNull then e\<lparr>pe_data := None\<rparr> else e)"

lemma dec_error_json:
  assumes "- (2 ^ 31) \<le> pe_code e" "pe_code e < 2 ^ 31"
  shows "dec_error (json_error e) = Inr (error_read_back e)"
  using assms
  by (cases e) (auto simp: dec_error_def json_error_def struct_fields_def required_def optional_def
      dec_opt_def dec_string_def dec_i32_def dec_int_def error_read_back_def split: option.split)

lemma dec_response_result:
  "id_ok i \<Longrightarrow> dec_response (json_response (response_result i v))
    = Inr ((response_result i v)\<lparr>rs_result := if v = JNull then None else Some v\<rparr>)"
  by (simp add: dec_response_def json_response_def response_result_def struct_fields_def required_def
      optional_def dec_opt_def dec_string_def)

lemma dec_response_error:
  assumes "id_ok i" "- (2 ^ 31) \<le> pe_code e" "pe_code e < 2 ^ 31"
  shows "dec_response (json_response (response_error i e)) = Inr (response_error i (error_read_back e))"
proof -
  have "json_error e \<noteq> JNull" by (simp add: json_error_def)
  then show ?thesis
    using assms(1) dec_error_json[OF assms(2,3)]
    by (simp add: dec_response_def json_response_def response_error_def struct_fields_def required_def
        optional_def dec_opt_def dec_string_def)
qed

subsection \<open>Properties\<close>

text \<open>
  C21. Messages survive the wire but for a null: with an id that fits 64 bits and a code that fits 32
  bits, as their types have it, every request reads back as it was written; an error response reads
  back as it was written, except that data which is the JSON value null is lost; and a successful
  response reads back as it was written, except for the result null.  A response with that result,
  which \<open>query_awareness\<close> sends for a file without history, reads back with neither a result nor an
  error, so the other side does not see it as a success.
\<close>

theorem messages_survive_the_wire:
  assumes "id_ok (rq_id r)" and "- (2 ^ 31) \<le> pe_code e" and "pe_code e < 2 ^ 31"
  shows "dec_request (json_request r) = Inr r \<and>
    dec_response (json_response (response_error (rq_id r) e)) = Inr (response_error (rq_id r)
      (case pe_data e of Some JNull \<Rightarrow> e\<lparr>pe_data := None\<rparr> | _ \<Rightarrow> e)) \<and>
    (case dec_response (json_response (response_result (rq_id r) v)) of
       Inl _ \<Rightarrow> False
     | Inr q \<Rightarrow> rs_id q = rq_id r \<and> rs_error q = None \<and> (is_success q \<longleftrightarrow> v \<noteq> JNull) \<and>
         (is_success q \<longrightarrow> q = response_result (rq_id r) v) \<and>
         (v = JNull \<longrightarrow> rs_result q = None))"
proof -
  have "(case pe_data e of Some JNull \<Rightarrow> e\<lparr>pe_data := None\<rparr> | _ \<Rightarrow> e) = error_read_back e"
    by (simp add: error_read_back_def split: option.split json.split)
  with dec_request_json[OF assms(1)] dec_response_error[OF assms] assms(1) show ?thesis
    by (simp add: dec_response_result is_success_def) (simp add: response_result_def)
qed

theorem messages_survive_the_wire_witness:
  "(let r = request_new ''query_tree'' (Some (ParamsObject [(''project_id'', JStr ''p'')])) (IdNumber 7);
        e = err_project_not_found ''p'' in
    dec_request (json_request r) = Inr r \<and>
    dec_response (json_response (response_error (IdNumber 7) e)) = Inr (response_error (IdNumber 7) e) \<and>
    dec_response (json_response (response_error (IdNumber 7) (with_data JNull e)))
      = Inr (response_error (IdNumber 7) e))"
  using messages_survive_the_wire[of "request_new ''query_tree'' (Some (ParamsObject [(''project_id'', JStr ''p'')])) (IdNumber 7)"
      "err_project_not_found ''p''" JNull]
    messages_survive_the_wire[of "request_new ''query_tree'' (Some (ParamsObject [(''project_id'', JStr ''p'')])) (IdNumber 7)"
      "with_data JNull (err_project_not_found ''p'')" JNull]
  by (simp add: err_defs request_new_def with_data_def Let_def)

end
