(* ===== verification/Subscriptions.thy ===== *)
theory Subscriptions
  imports Project_Tree Core_Awareness
begin

text \<open>
  Live subscriptions, \<open>crates/ambient-fs-server/src/subscriptions.rs\<close>, on tokio's broadcast channel
  as its documentation describes it: a receiver sees what is sent after it subscribed, in order; when
  more than the capacity is waiting it loses the oldest and is told how many; a channel whose sender
  is gone is drained and then closed; sending without receivers fails.
\<close>

subsection \<open>The interface of a bounded feed\<close>

lemma drop_drop_cap:
  assumes "k \<le> length xs - c"
  shows "drop (length (drop k xs) - c) (drop k xs) = drop (length xs - c) xs"
proof -
  have "length (drop k xs) - c + k = length xs - c" using assms by simp
  then show ?thesis by (simp only: drop_drop)
qed

text \<open>What waits for a reader keeps the newest \<open>cap\<close> messages: pushing drops from the front only.\<close>

locale bounded_feed =
  fixes inv :: "'s \<Rightarrow> bool"
    and push :: "'m \<Rightarrow> 's \<Rightarrow> 's"
    and waiting :: "'s \<Rightarrow> 'm list"
    and cap :: nat
  assumes push_inv: "inv s \<Longrightarrow> inv (push m s)"
    and waiting_push: "inv s \<Longrightarrow> waiting (push m s)
      = drop (Suc (length (waiting s)) - cap) (waiting s @ [m])"
    and waiting_cap: "inv s \<Longrightarrow> length (waiting s) \<le> cap"
begin

lemma fold_inv: "inv s \<Longrightarrow> inv (fold push ms s)"
  by (induction ms arbitrary: s) (auto simp: push_inv)

lemma waiting_fold:
  "inv s \<Longrightarrow> waiting (fold push ms s)
    = drop (length (waiting s @ ms) - cap) (waiting s @ ms)"
proof (induction ms arbitrary: s)
  case Nil
  then show ?case using waiting_cap[of s] by simp
next
  case (Cons m ms)
  let ?w = "waiting s" and ?k = "Suc (length (waiting s)) - cap"
  have "waiting (fold push (m # ms) s) = drop (length (drop ?k (?w @ [m]) @ ms) - cap) (drop ?k (?w @ [m]) @ ms)"
    using Cons.IH[OF push_inv[OF Cons.prems]] waiting_push[OF Cons.prems] by simp
  also have "drop ?k (?w @ [m]) @ ms = drop ?k (?w @ m # ms)"
    using drop_append[of ?k "?w @ [m]" ms] by simp
  also have "drop (length (drop ?k (?w @ m # ms)) - cap) (drop ?k (?w @ m # ms))
      = drop (length (?w @ m # ms) - cap) (?w @ m # ms)"
    by (rule drop_drop_cap) simp
  finally show ?case .
qed

lemma newest_waiting: "inv s \<Longrightarrow> suffix (waiting (fold push ms s)) (waiting s @ ms)"
  by (metis waiting_fold suffix_drop)

lemma bounded: "inv s \<Longrightarrow> length (waiting (fold push ms s)) \<le> cap"
  using fold_inv waiting_cap by blast

end

subsection \<open>Broadcast channels\<close>

record 'm channel =
  ch_sent :: "'m list"
  ch_receivers :: nat
  ch_open :: bool

text \<open>A receiver: the channel's number, and how much of it was consumed.\<close>

type_synonym receiver = "nat \<times> nat"

datatype 'm recv_result = Got 'm | Empty | Lagged nat | Closed

definition capacity :: nat where
  "capacity = 256"

definition channel_send :: "'m \<Rightarrow> 'm channel \<Rightarrow> 'm channel" where
  "channel_send m ch = (if ch_receivers ch = 0 then ch else ch\<lparr>ch_sent := ch_sent ch @ [m]\<rparr>)"

definition try_recv :: "'m channel \<Rightarrow> nat \<Rightarrow> 'm recv_result \<times> nat" where
  "try_recv ch pos =
     (let n = length (ch_sent ch) in
      if pos + capacity < n then (Lagged (n - capacity - pos), n - capacity)
      else if pos < n then (Got (ch_sent ch ! pos), pos + 1)
      else if ch_open ch then (Empty, pos) else (Closed, pos))"

text \<open>What the receiver at a position will still get.\<close>

definition backlog :: "'m channel \<times> nat \<Rightarrow> 'm list" where
  "backlog c = drop (max (snd c) (length (ch_sent (fst c)) - capacity)) (ch_sent (fst c))"

lemma drop_plus_snoc: "d \<le> length l \<Longrightarrow> drop (d + k) (l @ [m]) = drop k (drop d l @ [m])"
  by (metis append_Nil drop_all drop_append drop_drop add.commute diff_is_0_eq drop0)

interpretation broadcast_feed: bounded_feed
  "\<lambda>(ch, pos). 0 < ch_receivers ch \<and> pos \<le> length (ch_sent ch)"
  "\<lambda>m (ch, pos). (channel_send m ch, pos)" backlog capacity
proof
  fix s :: "'a channel \<times> nat" and m
  obtain ch pos where s: "s = (ch, pos)" by force
  assume inv: "case s of (ch, pos) \<Rightarrow> 0 < ch_receivers ch \<and> pos \<le> length (ch_sent ch)"
  then show "case case s of (ch, pos) \<Rightarrow> (channel_send m ch, pos) of
      (ch, pos) \<Rightarrow> 0 < ch_receivers ch \<and> pos \<le> length (ch_sent ch)"
    by (auto simp: s channel_send_def)
  show "length (backlog s) \<le> capacity" by (simp add: backlog_def s)
  let ?l = "ch_sent ch" and ?d = "max pos (length (ch_sent ch) - capacity)"
  have "backlog (channel_send m ch, pos) = drop (max pos (Suc (length ?l) - capacity)) (?l @ [m])"
    using inv by (simp add: backlog_def s channel_send_def)
  also have "max pos (Suc (length ?l) - capacity) = ?d + (Suc (length ?l - ?d) - capacity)"
    using inv by (auto simp: s capacity_def max_def)
  also have "drop \<dots> (?l @ [m]) = drop (Suc (length ?l - ?d) - capacity) (drop ?d ?l @ [m])"
    using inv by (intro drop_plus_snoc) (simp add: s)
  finally show "backlog (case s of (ch, pos) \<Rightarrow> (channel_send m ch, pos))
      = drop (Suc (length (backlog s)) - capacity) (backlog s @ [m])"
    by (simp add: s backlog_def)
qed

text \<open>Reading takes the messages that wait, in their order; lagging only skips what no longer waits.\<close>

lemma try_recv_backlog:
  "pos \<le> length (ch_sent ch) \<Longrightarrow>
    (case try_recv ch pos of
       (Got m, pos') \<Rightarrow> backlog (ch, pos) = m # backlog (ch, pos') \<and> pos' \<le> length (ch_sent ch)
     | (Lagged n, pos') \<Rightarrow> backlog (ch, pos') = backlog (ch, pos) \<and> pos' \<le> length (ch_sent ch)
     | (_, pos') \<Rightarrow> backlog (ch, pos) = [] \<and> pos' = pos)"
proof -
  let ?n = "length (ch_sent ch)"
  assume pos: "pos \<le> ?n"
  consider "pos + capacity < ?n" | "\<not> pos + capacity < ?n" "pos < ?n" | "pos = ?n" using pos by linarith
  then show ?thesis
  proof cases
    case 1
    then have "max pos (?n - capacity) = ?n - capacity" by simp
    with 1 show ?thesis by (simp add: try_recv_def backlog_def Let_def)
  next
    case 2
    then have "max pos (?n - capacity) = pos" "max (pos + 1) (?n - capacity) = pos + 1" by simp_all
    with 2 show ?thesis by (simp add: try_recv_def backlog_def Let_def Cons_nth_drop_Suc)
  next
    case 3
    then show ?thesis by (simp add: try_recv_def backlog_def Let_def)
  qed
qed

subsection \<open>The manager\<close>

datatype notif =
  NEvent file_event
| NAwareness string string file_awareness
| NAnalysis string string u32 u32
| NTreePatch string tree_patch

fun notif_project :: "notif \<Rightarrow> string" where
  "notif_project (NEvent e) = ev_project_id e"
| "notif_project (NAwareness pid _ _) = pid"
| "notif_project (NAnalysis pid _ _ _) = pid"
| "notif_project (NTreePatch pid _) = pid"

text \<open>\<open>sm_channels\<close> are the channels that were created, also those whose sender is gone.\<close>

record sub_manager =
  sm_projects :: "string \<Rightarrow> nat option"
  sm_counts :: "string \<Rightarrow> nat option"
  sm_channels :: "notif channel list"

definition sub_manager_new :: sub_manager where
  "sub_manager_new = \<lparr>sm_projects = Map.empty, sm_counts = Map.empty, sm_channels = []\<rparr>"

definition channel_of :: "sub_manager \<Rightarrow> nat \<Rightarrow> notif channel" where
  "channel_of m i = (if i < length (sm_channels m) then sm_channels m ! i
                     else \<lparr>ch_sent = [], ch_receivers = 0, ch_open = False\<rparr>)"

definition set_channel :: "nat \<Rightarrow> notif channel \<Rightarrow> sub_manager \<Rightarrow> sub_manager" where
  "set_channel i ch m = m\<lparr>sm_channels := (sm_channels m)[i := ch]\<rparr>"

text \<open>\<open>entry(..).or_insert_with\<close>: the project's channel, made when there is none.\<close>

definition ensure_channel :: "string \<Rightarrow> sub_manager \<Rightarrow> nat \<times> sub_manager" where
  "ensure_channel pid m =
     (case sm_projects m pid of
        Some i \<Rightarrow> (i, m)
      | None \<Rightarrow>
          (let i = length (sm_channels m) in
           (i, m\<lparr>sm_projects := (sm_projects m)(pid \<mapsto> i),
                 sm_channels := sm_channels m @ [\<lparr>ch_sent = [], ch_receivers = 0, ch_open = True\<rparr>]\<rparr>)))"

definition subscribe :: "string \<Rightarrow> sub_manager \<Rightarrow> receiver \<times> sub_manager" where
  "subscribe pid m =
     (let (i, m1) = ensure_channel pid m;
          m2 = m1\<lparr>sm_counts := (sm_counts m1)(pid \<mapsto>
                 (case sm_counts m1 pid of None \<Rightarrow> 0 | Some n \<Rightarrow> n) + 1)\<rparr>;
          ch = channel_of m2 i in
      ((i, length (ch_sent ch)), set_channel i (ch\<lparr>ch_receivers := ch_receivers ch + 1\<rparr>) m2))"

definition close_channel :: "nat \<Rightarrow> sub_manager \<Rightarrow> sub_manager" where
  "close_channel i m = set_channel i ((channel_of m i)\<lparr>ch_open := False\<rparr>) m"

definition unsubscribe :: "string \<Rightarrow> sub_manager \<Rightarrow> sub_manager" where
  "unsubscribe pid m =
     (case sm_counts m pid of
        None \<Rightarrow> m
      | Some n \<Rightarrow>
          if n - 1 = 0 then
            (let m1 = m\<lparr>sm_counts := (sm_counts m)(pid := None), sm_projects := (sm_projects m)(pid := None)\<rparr> in
             case sm_projects m pid of None \<Rightarrow> m1 | Some i \<Rightarrow> close_channel i m1)
          else m\<lparr>sm_counts := (sm_counts m)(pid \<mapsto> n - 1)\<rparr>)"

definition broadcast :: "notif \<Rightarrow> sub_manager \<Rightarrow> nat \<times> sub_manager" where
  "broadcast n m =
     (case sm_projects m (notif_project n) of
        None \<Rightarrow> (0, m)
      | Some i \<Rightarrow> (ch_receivers (channel_of m i), set_channel i (channel_send n (channel_of m i)) m))"

definition publish_event :: "file_event \<Rightarrow> sub_manager \<Rightarrow> nat \<times> sub_manager" where
  "publish_event e m = broadcast (NEvent e) m"

definition publish_awareness :: "string \<Rightarrow> string \<Rightarrow> file_awareness \<Rightarrow> sub_manager \<Rightarrow> nat \<times> sub_manager" where
  "publish_awareness pid path a m = broadcast (NAwareness pid path a) m"

definition publish_analysis :: "string \<Rightarrow> string \<Rightarrow> u32 \<Rightarrow> u32 \<Rightarrow> sub_manager \<Rightarrow> nat \<times> sub_manager" where
  "publish_analysis pid path lines todos m = broadcast (NAnalysis pid path lines todos) m"

definition publish_tree_patch :: "string \<Rightarrow> tree_patch \<Rightarrow> sub_manager \<Rightarrow> nat \<times> sub_manager" where
  "publish_tree_patch pid patch m = broadcast (NTreePatch pid patch) m"

definition subscriber_count :: "string \<Rightarrow> sub_manager \<Rightarrow> nat" where
  "subscriber_count pid m = (case sm_counts m pid of None \<Rightarrow> 0 | Some n \<Rightarrow> n)"

text \<open>The keys in the order in which the map of counts is iterated.\<close>

definition active_projects :: "((string \<Rightarrow> nat option) \<Rightarrow> (string \<times> nat) list) \<Rightarrow> sub_manager \<Rightarrow> string list" where
  "active_projects iter m = map fst (iter (sm_counts m))"

text \<open>Receiving from, and dropping, a receiver.\<close>

definition receive :: "receiver \<Rightarrow> sub_manager \<Rightarrow> notif recv_result \<times> receiver" where
  "receive r m = (let (res, pos) = try_recv (channel_of m (fst r)) (snd r) in (res, (fst r, pos)))"

definition drop_receiver :: "receiver \<Rightarrow> sub_manager \<Rightarrow> sub_manager" where
  "drop_receiver r m =
     (let ch = channel_of m (fst r) in set_channel (fst r) (ch\<lparr>ch_receivers := ch_receivers ch - 1\<rparr>) m)"

subsection \<open>Invariant\<close>

text \<open>Every registered project has its own open channel.\<close>

definition manager_ok :: "sub_manager \<Rightarrow> bool" where
  "manager_ok m \<longleftrightarrow>
     (\<forall>p i. sm_projects m p = Some i \<longrightarrow> i < length (sm_channels m) \<and> ch_open (sm_channels m ! i)) \<and>
     (\<forall>p q i. sm_projects m p = Some i \<longrightarrow> sm_projects m q = Some i \<longrightarrow> p = q)"

lemma channel_of_set [simp]:
  "i < length (sm_channels m) \<Longrightarrow> channel_of (set_channel i ch m) j = (if i = j then ch else channel_of m j)"
  "sm_projects (set_channel i ch m) = sm_projects m"
  "sm_counts (set_channel i ch m) = sm_counts m"
  "length (sm_channels (set_channel i ch m)) = length (sm_channels m)"
  by (auto simp: channel_of_def set_channel_def)

lemma manager_ok_set:
  "manager_ok m \<Longrightarrow> ch_open ch \<Longrightarrow> manager_ok (set_channel i ch m)"
  by (cases "i < length (sm_channels m)") (auto simp: manager_ok_def set_channel_def nth_list_update not_less list_update_beyond)

lemma manager_new_ok [inv_intros]: "manager_ok sub_manager_new"
  by (simp add: manager_ok_def sub_manager_new_def)

lemma ensure_channel_ok:
  assumes "manager_ok m" and "ensure_channel pid m = (i, m1)"
  shows "manager_ok m1 \<and> sm_projects m1 pid = Some i \<and> i < length (sm_channels m1) \<and>
    ch_open (channel_of m1 i) \<and> sm_counts m1 = sm_counts m"
proof (cases "sm_projects m pid")
  case (Some j)
  then have "i = j" "m1 = m" using assms(2) by (simp_all add: ensure_channel_def)
  with Some assms(1) show ?thesis
    by (auto simp: manager_ok_def channel_of_def)
next
  case None
  then have i: "i = length (sm_channels m)"
    and m1: "m1 = m\<lparr>sm_projects := (sm_projects m)(pid \<mapsto> i),
      sm_channels := sm_channels m @ [\<lparr>ch_sent = [], ch_receivers = 0, ch_open = True\<rparr>]\<rparr>"
    using assms(2) by (auto simp: ensure_channel_def Let_def)
  have lt: "j < i" "ch_open (sm_channels m ! j)" if "sm_projects m q = Some j" for q j
    using assms(1) that by (auto simp: manager_ok_def i)
  have "manager_ok m1"
    using assms(1) lt by (fastforce simp: manager_ok_def m1 nth_append i less_Suc_eq)
  then show ?thesis
    by (simp add: m1 i channel_of_def)
qed

lemma subscribe_ok [inv_intros]: "manager_ok m \<Longrightarrow> manager_ok (snd (subscribe pid m))"
proof -
  assume ok: "manager_ok m"
  obtain i m1 where e: "ensure_channel pid m = (i, m1)" by force
  have e': "manager_ok m1" "sm_projects m1 pid = Some i" "i < length (sm_channels m1)"
    "ch_open (channel_of m1 i)"
    using ensure_channel_ok[OF ok e] by blast+
  let ?m2 = "m1\<lparr>sm_counts := (sm_counts m1)(pid \<mapsto> (case sm_counts m1 pid of None \<Rightarrow> 0 | Some n \<Rightarrow> n) + 1)\<rparr>"
  have "manager_ok ?m2" using e'(1) by (simp add: manager_ok_def)
  moreover have "ch_open (channel_of ?m2 i)" using e'(3,4) by (simp add: channel_of_def)
  ultimately show ?thesis
    by (simp add: subscribe_def e Let_def manager_ok_set)
qed

lemma unsubscribe_ok [inv_intros]: "manager_ok m \<Longrightarrow> manager_ok (unsubscribe pid m)"
  by (auto simp: unsubscribe_def manager_ok_def close_channel_def set_channel_def Let_def nth_list_update
      split: option.split)

lemma broadcast_ok [inv_intros]: "manager_ok m \<Longrightarrow> manager_ok (snd (broadcast n m))"
  by (auto simp: broadcast_def channel_send_def split: option.split intro!: manager_ok_set)
    (auto simp: manager_ok_def channel_of_def)

text \<open>What was sent on a channel, over the operations.\<close>

lemma sent_same [simp]:
  "ch_sent (channel_of (snd (subscribe p m)) k) = ch_sent (channel_of m k)"
  "ch_sent (channel_of (unsubscribe p m) k) = ch_sent (channel_of m k)"
  by (auto simp: subscribe_def ensure_channel_def unsubscribe_def close_channel_def set_channel_def channel_of_def Let_def
      nth_append nth_list_update split: option.split)

lemma broadcast_sent:
  "ch_sent (channel_of (snd (broadcast n m)) k) = ch_sent (channel_of m k) @
     (if sm_projects m (notif_project n) = Some k \<and> 0 < ch_receivers (channel_of m k) then [n] else [])"
  by (auto simp: broadcast_def channel_send_def set_channel_def channel_of_def nth_list_update split: option.split)

definition publish_all :: "notif list \<Rightarrow> sub_manager \<Rightarrow> sub_manager" where
  "publish_all ns m = fold (\<lambda>n m. snd (broadcast n m)) ns m"

text \<open>Publishing acts on the channel of a project as sending does.\<close>

lemma publish_all_channel:
  assumes "manager_ok m" and "sm_projects m pid = Some i"
  shows "sm_projects (publish_all ns m) = sm_projects m \<and>
    channel_of (publish_all ns m) i
      = fold channel_send (filter (\<lambda>n. notif_project n = pid) ns) (channel_of m i)"
  using assms
proof (induction ns arbitrary: m)
  case (Cons n ns)
  let ?m1 = "snd (broadcast n m)"
  have i: "i < length (sm_channels m)" using Cons.prems by (auto simp: manager_ok_def)
  have p: "sm_projects ?m1 = sm_projects m" by (simp add: broadcast_def split: option.split)
  have c: "channel_of ?m1 i = (if notif_project n = pid then channel_send n (channel_of m i) else channel_of m i)"
    using Cons.prems i by (auto simp: broadcast_def manager_ok_def split: option.split)
  have "publish_all (n # ns) m = publish_all ns ?m1" by (simp add: publish_all_def)
  moreover note Cons.IH[OF broadcast_ok[OF Cons.prems(1)], of n]
  ultimately show ?case using p c Cons.prems(2) by simp
qed (simp add: publish_all_def)

definition waiting_for :: "receiver \<Rightarrow> sub_manager \<Rightarrow> notif list" where
  "waiting_for r m = backlog (channel_of m (fst r), snd r)"

lemma subscribe_result:
  assumes "manager_ok m" and "subscribe pid m = (r, m1)"
  shows "sm_projects m1 pid = Some (fst r)" and "0 < ch_receivers (channel_of m1 (fst r))"
    and "snd r = length (ch_sent (channel_of m1 (fst r)))" and "waiting_for r m1 = []"
proof -
  obtain i m2 where e: "ensure_channel pid m = (i, m2)" by force
  have e': "manager_ok m2" "sm_projects m2 pid = Some i" "i < length (sm_channels m2)"
    using ensure_channel_ok[OF assms(1) e] by blast+
  have c: "channel_of (m2\<lparr>sm_counts := f\<rparr>) i = channel_of m2 i" for f by (simp add: channel_of_def)
  show "sm_projects m1 pid = Some (fst r)" "0 < ch_receivers (channel_of m1 (fst r))"
    "snd r = length (ch_sent (channel_of m1 (fst r)))" "waiting_for r m1 = []"
    using assms(2) e'(2,3) by (auto simp: subscribe_def e Let_def c waiting_for_def backlog_def)
qed

lemma fold_send_pair:
  "fold (\<lambda>n (ch, pos). (channel_send n ch, pos)) ms (ch, p) = (fold channel_send ms ch, p)"
  by (induction ms arbitrary: ch) auto

subsection \<open>Properties\<close>

text \<open>
  C17. A subscriber gets its project's notifications: what waits for it after any publications are the
  newest 256 of those for its project, in the order of publication, and nothing of other projects.
\<close>

theorem subscriber_gets_project_notifications:
  assumes "manager_ok m" and "subscribe pid m = (r, m1)"
  shows "let mine = filter (\<lambda>n. notif_project n = pid) ns in
    waiting_for r (publish_all ns m1) = drop (length mine - 256) mine"
proof -
  let ?mine = "filter (\<lambda>n. notif_project n = pid) ns" and ?ch = "channel_of m1 (fst r)"
  note s = subscribe_result[OF assms]
  have ok: "manager_ok m1" using subscribe_ok[OF assms(1), of pid] assms(2) by simp
  have ch: "channel_of (publish_all ns m1) (fst r) = fold channel_send ?mine ?ch"
    using publish_all_channel[OF ok s(1)] by blast
  have "waiting_for r (publish_all ns m1)
      = backlog (fold (\<lambda>n (ch, pos). (channel_send n ch, pos)) ?mine (?ch, snd r))"
    by (simp only: waiting_for_def ch fold_send_pair)
  also have "\<dots> = drop (length (backlog (?ch, snd r) @ ?mine) - capacity) (backlog (?ch, snd r) @ ?mine)"
    using s(2,3) by (intro broadcast_feed.waiting_fold) simp
  also have "backlog (?ch, snd r) = []" using s(4) by (simp add: waiting_for_def)
  finally show ?thesis by (simp add: Let_def capacity_def)
qed

theorem subscriber_gets_project_notifications_witness:
  "let (r, m1) = subscribe ''p'' sub_manager_new in
   waiting_for r (publish_all [NAnalysis ''p'' ''a'' 1 0, NAnalysis ''q'' ''b'' 2 0, NAnalysis ''p'' ''c'' 3 0] m1)
     = [NAnalysis ''p'' ''a'' 1 0, NAnalysis ''p'' ''c'' 3 0]"
proof -
  obtain r m1 where "subscribe ''p'' sub_manager_new = (r, m1)"
    by (cases "subscribe ''p'' sub_manager_new")
  with subscriber_gets_project_notifications[OF manager_new_ok this,
      of "[NAnalysis ''p'' ''a'' 1 0, NAnalysis ''q'' ''b'' 2 0, NAnalysis ''p'' ''c'' 3 0]"]
  show ?thesis by (simp add: Let_def)
qed

text \<open>
  One unsubscription can end another client's subscription: the manager counts calls, not
  receivers, so when a project has one subscriber, an unsubscription by anybody closes its channel:
  the subscriber reads \<open>Closed\<close> and no later publication reaches it.  Dropping a receiver, on the
  other hand, leaves the count as it is.
\<close>

theorem unsubscribe_hits_other_subscriber:
  "let (r, m1) = subscribe pid sub_manager_new; m2 = unsubscribe pid m1; m3 = publish_all ns m2 in
     fst (receive r m3) = Closed \<and> subscriber_count pid m2 = 0 \<and>
     subscriber_count pid m1 = 1 \<and> subscriber_count pid (drop_receiver r m1) = 1"
proof -
  let ?c0 = "\<lparr>ch_sent = [], ch_receivers = 1, ch_open = True\<rparr> :: notif channel"
  let ?m1 = "\<lparr>sm_projects = [pid \<mapsto> 0], sm_counts = [pid \<mapsto> 1], sm_channels = [?c0]\<rparr>"
  let ?m2 = "\<lparr>sm_projects = Map.empty, sm_counts = Map.empty, sm_channels = [?c0\<lparr>ch_open := False\<rparr>]\<rparr>"
  have 1: "subscribe pid sub_manager_new = ((0, 0), ?m1)"
    by (simp add: subscribe_def ensure_channel_def sub_manager_new_def Let_def channel_of_def set_channel_def)
  have 2: "unsubscribe pid ?m1 = ?m2"
    by (simp add: unsubscribe_def close_channel_def set_channel_def channel_of_def Let_def)
  have "publish_all ns ?m2 = ?m2"
    by (induction ns) (simp_all add: publish_all_def broadcast_def)
  then show ?thesis
    unfolding 1 Let_def prod.case 2 by (simp add: receive_def try_recv_def channel_of_def subscriber_count_def
        drop_receiver_def)
qed

end
