(* ===== verification/Gateway.thy ===== *)
theory Gateway
  imports Subscriptions
begin

text \<open>
  The relay gateway of \<open>crates/ambient-fs-server/src/gateway.rs\<close>, and the protobuf form of an event
  that it passes on.  A daemon's connection has the sending half of a bounded channel: \<open>dc_open\<close> says
  whether the receiving half still exists, \<open>dc_queue\<close> what waits in it.
\<close>

record event_message =
  em_timestamp :: int
  em_event_type :: string
  em_file_path :: string
  em_project_id :: string
  em_source :: string
  em_source_id :: "string option"
  em_machine_id :: string
  em_content_hash :: "string option"
  em_old_path :: "string option"

definition max_buffer_size :: nat where
  "max_buffer_size = 3000"

definition relay_channel_size :: nat where
  "relay_channel_size = 32"

record daemon_connection =
  dc_machine_id :: string
  dc_open :: bool
  dc_queue :: "event_message list"
  dc_connected_at :: timestamp
  dc_last_seen :: timestamp

definition daemon_connection_new :: "timestamp \<Rightarrow> string \<Rightarrow> bool \<Rightarrow> daemon_connection" where
  "daemon_connection_new now mid open =
     \<lparr>dc_machine_id = mid, dc_open = open, dc_queue = [], dc_connected_at = now, dc_last_seen = now\<rparr>"

definition connection_stale :: "timestamp \<Rightarrow> nat \<Rightarrow> daemon_connection \<Rightarrow> bool" where
  "connection_stale now secs c = (int secs < (now - dc_last_seen c) div nanos_per_sec)"

record gateway =
  gw_connections :: "string \<Rightarrow> daemon_connection list option"
  gw_buffer :: "string \<Rightarrow> event_message list option"

definition gateway_new :: gateway where
  "gateway_new = \<lparr>gw_connections = Map.empty, gw_buffer = Map.empty\<rparr>"

definition conns_of :: "gateway \<Rightarrow> string \<Rightarrow> daemon_connection list" where
  "conns_of g pid = (case gw_connections g pid of None \<Rightarrow> [] | Some cs \<Rightarrow> cs)"

definition set_conns :: "string \<Rightarrow> daemon_connection list \<Rightarrow> gateway \<Rightarrow> gateway" where
  "set_conns pid cs g = g\<lparr>gw_connections := (gw_connections g)(pid \<mapsto> cs)\<rparr>"

definition register_daemon :: "timestamp \<Rightarrow> string \<Rightarrow> string \<Rightarrow> bool \<Rightarrow> gateway \<Rightarrow> gateway" where
  "register_daemon now pid mid open g =
     set_conns pid (conns_of g pid @ [daemon_connection_new now mid open]) g"

definition unregister_daemon :: "string \<Rightarrow> string \<Rightarrow> gateway \<Rightarrow> gateway" where
  "unregister_daemon pid mid g =
     (case gw_connections g pid of
        None \<Rightarrow> g
      | Some cs \<Rightarrow> set_conns pid (filter (\<lambda>c. dc_machine_id c \<noteq> mid) cs) g)"

text \<open>\<open>try_send\<close>: fails when the receiver is gone or the channel is full.\<close>

definition try_send :: "event_message \<Rightarrow> daemon_connection \<Rightarrow> bool \<times> daemon_connection" where
  "try_send e c =
     (if dc_open c \<and> length (dc_queue c) < relay_channel_size
      then (True, c\<lparr>dc_queue := dc_queue c @ [e]\<rparr>) else (False, c))"

fun send_to_others :: "string \<Rightarrow> event_message \<Rightarrow> daemon_connection list \<Rightarrow> nat \<times> daemon_connection list" where
  "send_to_others sender e [] = (0, [])"
| "send_to_others sender e (c # cs) =
     (let (n, cs') = send_to_others sender e cs in
      if dc_machine_id c = sender then (n, c # cs')
      else (let (sent, c') = try_send e c in (of_bool sent + n, c' # cs')))"

definition forward_event ::
  "timestamp \<Rightarrow> string \<Rightarrow> string \<Rightarrow> event_message \<Rightarrow> gateway \<Rightarrow> nat \<times> gateway" where
  "forward_event now pid sender e g =
     (case gw_connections g pid of
        None \<Rightarrow> (0, g)
      | Some cs \<Rightarrow>
          (let seen = map (\<lambda>c. if dc_machine_id c = sender then c\<lparr>dc_last_seen := now\<rparr> else c) cs;
               (n, cs') = send_to_others sender e seen in
           (n, set_conns pid cs' g)))"

definition push_buffer :: "event_message \<Rightarrow> event_message list \<Rightarrow> event_message list" where
  "push_buffer e b = (if max_buffer_size \<le> length b then tl b else b) @ [e]"

definition get_buffered_events :: "string \<Rightarrow> gateway \<Rightarrow> event_message list" where
  "get_buffered_events pid g = (case gw_buffer g pid of None \<Rightarrow> [] | Some b \<Rightarrow> b)"

definition buffer_event :: "string \<Rightarrow> event_message \<Rightarrow> gateway \<Rightarrow> gateway" where
  "buffer_event pid e g = g\<lparr>gw_buffer := (gw_buffer g)(pid \<mapsto> push_buffer e (get_buffered_events pid g))\<rparr>"

definition cleanup_stale_connections :: "timestamp \<Rightarrow> nat \<Rightarrow> gateway \<Rightarrow> gateway" where
  "cleanup_stale_connections now secs g =
     g\<lparr>gw_connections := (\<lambda>pid. map_option (filter (\<lambda>c. \<not> connection_stale now secs c)) (gw_connections g pid))\<rparr>"

subsection \<open>The service\<close>

text \<open>The RPC \<open>register\<close>: the receiving half is a local of the call, gone when it returns.  The call is
  one step here: the code releases the gateway before it drops the receiving half, and an event relayed in between
  is counted as forwarded and lost all the same.\<close>

definition rpc_register :: "timestamp \<Rightarrow> string \<Rightarrow> string \<Rightarrow> gateway \<Rightarrow> (string + bool) \<times> gateway" where
  "rpc_register now pid mid g =
     (if pid = [] then (Inl ''project_id is required'', g)
      else if mid = [] then (Inl ''machine_id is required'', g)
      else (Inr True, register_daemon now pid mid False g))"

text \<open>The task of a relay stream: one inbound event, and the end of the stream.  The identity of the
  first event is remembered for the end.\<close>

definition relay_message ::
  "timestamp \<Rightarrow> event_message \<Rightarrow> (string \<times> string) option \<times> gateway \<Rightarrow> nat \<times> (string \<times> string) option \<times> gateway" where
  "relay_message now e s =
     (let (ident, g) = s;
          ident' = (case ident of None \<Rightarrow> Some (em_project_id e, em_machine_id e) | Some i \<Rightarrow> Some i);
          (n, g1) = forward_event now (em_project_id e) (em_machine_id e) e g in
      (n, ident', buffer_event (em_project_id e) e g1))"

definition relay_close :: "(string \<times> string) option \<times> gateway \<Rightarrow> gateway" where
  "relay_close s =
     (case s of (None, g) \<Rightarrow> g | (Some (pid, mid), g) \<Rightarrow> unregister_daemon pid mid g)"

datatype gateway_call =
  CallRegister timestamp string string
| CallRelay timestamp nat event_message
| CallClose nat
| CallCleanup timestamp

text \<open>Calls of many clients interleaved; streams are numbered, and hold their identity.\<close>

type_synonym gateway_run = "(nat \<Rightarrow> (string \<times> string) option) \<times> gateway"

fun gateway_step :: "gateway_call \<Rightarrow> gateway_run \<Rightarrow> nat \<times> gateway_run" where
  "gateway_step (CallRegister now pid mid) (ids, g) = (0, ids, snd (rpc_register now pid mid g))"
| "gateway_step (CallRelay now s e) (ids, g) =
     (let (n, i, g') = relay_message now e (ids s, g) in (n, ids(s := i), g'))"
| "gateway_step (CallClose s) (ids, g) = (0, ids(s := None), relay_close (ids s, g))"
| "gateway_step (CallCleanup now) (ids, g) = (0, ids, cleanup_stale_connections now 300 g)"

fun gateway_all :: "gateway_call list \<Rightarrow> gateway_run \<Rightarrow> nat \<times> gateway_run" where
  "gateway_all [] r = (0, r)"
| "gateway_all (c # cs) r = (let (n, r1) = gateway_step c r; (k, r2) = gateway_all cs r1 in (n + k, r2))"

subsection \<open>The buffer is a bounded feed\<close>

interpretation relay_buffer: bounded_feed "\<lambda>b. length b \<le> max_buffer_size" push_buffer "\<lambda>b. b" max_buffer_size
proof
  fix b :: "event_message list" and e
  assume b: "length b \<le> max_buffer_size"
  then show "length (push_buffer e b) \<le> max_buffer_size"
    by (auto simp: push_buffer_def max_buffer_size_def)
  show "push_buffer e b = drop (Suc (length b) - max_buffer_size) (b @ [e])"
  proof (cases "max_buffer_size \<le> length b")
    case True
    with b have "Suc (length b) - max_buffer_size = 1" "b \<noteq> []" by (auto simp: max_buffer_size_def)
    with True show ?thesis by (cases b) (simp_all add: push_buffer_def)
  next
    case False
    then have "Suc (length b) - max_buffer_size = 0" by simp
    with False show ?thesis by (simp add: push_buffer_def)
  qed
  show "length b \<le> max_buffer_size" by (rule b)
qed

lemma forward_buffer [simp]: "gw_buffer (snd (forward_event now pid sender e g)) = gw_buffer g"
  by (auto simp: forward_event_def set_conns_def Let_def split_beta split: option.split)

lemma gateway_step_buffer:
  "get_buffered_events pid (snd (snd (gateway_step c r)))
    = (case c of CallRelay _ _ e \<Rightarrow> if em_project_id e = pid then push_buffer e (get_buffered_events pid (snd r))
                                    else get_buffered_events pid (snd r)
       | _ \<Rightarrow> get_buffered_events pid (snd r))"
  by (cases r; cases c)
    (auto simp: rpc_register_def register_daemon_def set_conns_def relay_message_def Let_def split_beta
      buffer_event_def get_buffered_events_def relay_close_def unregister_daemon_def
      cleanup_stale_connections_def split: option.split prod.split)

definition relayed :: "string \<Rightarrow> gateway_call list \<Rightarrow> event_message list" where
  "relayed pid cs = concat (map (\<lambda>c. case c of CallRelay _ _ e \<Rightarrow> if em_project_id e = pid then [e] else [] | _ \<Rightarrow> []) cs)"

lemma gateway_all_buffer:
  "get_buffered_events pid (snd (snd (gateway_all cs r)))
    = fold push_buffer (relayed pid cs) (get_buffered_events pid (snd r))"
proof (induction cs arbitrary: r)
  case (Cons c cs)
  have "snd (gateway_all (c # cs) r) = snd (gateway_all cs (snd (gateway_step c r)))"
    by (simp add: split_beta)
  then show ?case using Cons.IH[of "snd (gateway_step c r)"] gateway_step_buffer[of pid c r]
    by (cases c) (simp_all add: relayed_def)
qed (simp add: relayed_def)

lemma newest_buffered:
  "let sent = relayed pid cs in
   get_buffered_events pid (snd (snd (gateway_all cs (Map.empty, gateway_new)))) = drop (length sent - 3000) sent"
proof -
  have "get_buffered_events pid gateway_new = []" by (simp add: get_buffered_events_def gateway_new_def)
  then show ?thesis
    using relay_buffer.waiting_fold[of "[]" "relayed pid cs"]
    by (simp add: gateway_all_buffer Let_def max_buffer_size_def)
qed

subsection \<open>Connections are closed\<close>

text \<open>No receiving half is left, and nothing was ever queued.\<close>

definition deaf :: "daemon_connection \<Rightarrow> bool" where
  "deaf c \<longleftrightarrow> \<not> dc_open c \<and> dc_queue c = []"

definition dead :: "gateway \<Rightarrow> bool" where
  "dead g \<longleftrightarrow> (\<forall>pid. list_all deaf (conns_of g pid))"

lemma send_to_deaf:
  "list_all deaf cs \<Longrightarrow> send_to_others sender e cs = (0, cs)"
  by (induction cs) (auto simp: try_send_def deaf_def)

lemma gateway_step_dead:
  assumes "dead (snd r)"
  shows "fst (gateway_step c r) = 0 \<and> dead (snd (snd (gateway_step c r)))"
proof -
  obtain ids g where r: "r = (ids, g)" by force
  have cl: "gw_connections g pid = Some cs \<Longrightarrow> list_all deaf cs" for pid cs
    using assms by (auto simp: dead_def conns_of_def r split: option.splits)
  have upd: "dead (set_conns pid cs g)" if "list_all deaf cs" for pid cs
    using assms that by (auto simp: dead_def conns_of_def set_conns_def r)
  show ?thesis
  proof (cases c)
    case (CallRegister now pid mid)
    have "list_all deaf (conns_of g pid @ [daemon_connection_new now mid False])"
      using assms by (simp add: dead_def deaf_def r daemon_connection_new_def)
    then show ?thesis using CallRegister assms upd by (auto simp: r rpc_register_def register_daemon_def)
  next
    case (CallRelay now s e)
    have seen: "list_all deaf (map (\<lambda>c. if dc_machine_id c = m then c\<lparr>dc_last_seen := now\<rparr> else c) cs)"
      if "list_all deaf cs" for m cs
      using that by (auto simp: list_all_iff deaf_def)
    have "fst (forward_event now pid m e g) = 0 \<and> dead (snd (forward_event now pid m e g))" for pid m
    proof (cases "gw_connections g pid")
      case None
      then show ?thesis using assms by (simp add: forward_event_def r)
    next
      case (Some cs)
      note closed = seen[OF cl[OF Some], of m]
      show ?thesis
        using upd[OF closed, of pid] by (simp add: forward_event_def Let_def Some send_to_deaf[OF closed])
    qed
    then show ?thesis using CallRelay
      by (simp add: r relay_message_def Let_def split_beta dead_def conns_of_def buffer_event_def)
  next
    case (CallClose s)
    then show ?thesis using assms cl upd
      by (auto simp: r relay_close_def unregister_daemon_def list_all_iff split: option.split prod.split intro!: upd)
  next
    case (CallCleanup now)
    have "list_all deaf (conns_of (cleanup_stale_connections now 300 g) pid)" for pid
      using cl[of pid]
      by (cases "gw_connections g pid") (auto simp: cleanup_stale_connections_def conns_of_def list_all_iff)
    then show ?thesis using CallCleanup by (simp add: r dead_def)
  qed
qed

subsection \<open>Properties\<close>

text \<open>
  C38. The gateway remembers but never relays: in every history of calls on a new gateway the number of
  events that were handed to other daemons is zero and nothing ever waits for a registered daemon, because
  \<open>register\<close> drops the receiving half of each connection's channel before it returns; all that stays of the
  events of a project is the buffer, the newest 3000 of them.  Each call is one step of the history.
\<close>

theorem gateway_relays_nothing:
  "let (n, ids, g) = gateway_all cs (Map.empty, gateway_new); sent = relayed pid cs in
   n = 0 \<and> list_all (\<lambda>c. dc_queue c = [] \<and> \<not> dc_open c) (conns_of g pid) \<and>
   get_buffered_events pid g = drop (length sent - 3000) sent"
proof -
  have step: "dead (snd r) \<Longrightarrow> fst (gateway_all cs r) = 0 \<and> dead (snd (snd (gateway_all cs r)))" for r
    by (induction cs arbitrary: r) (simp_all add: split_beta gateway_step_dead)
  have "dead gateway_new" by (simp add: dead_def conns_of_def gateway_new_def)
  then have "fst (gateway_all cs (Map.empty, gateway_new)) = 0"
    and "list_all deaf (conns_of (snd (snd (gateway_all cs (Map.empty, gateway_new)))) pid)"
    using step[of "(Map.empty, gateway_new)"] by (simp_all add: dead_def)
  then show ?thesis using newest_buffered[of pid cs]
    by (simp add: Let_def split_beta deaf_def list_all_iff)
qed

end
