(* ===== verification/Watcher.thy ===== *)
theory Watcher
  imports Attribution Tables
begin

text \<open>
  The filesystem watcher of \<open>crates/ambient-fs-watcher/src/watcher.rs\<close>.  The crate notify is the
  outside: what its \<open>watch\<close> and \<open>unwatch\<close> return is an argument, and its events are the input of the
  callback that \<open>create_watcher\<close> builds.  A channel is known by a number: \<open>start\<close> makes a new one and
  returns its receiver.  The map of watched paths is keyed by components, as \<open>PathBuf\<close> compares.
\<close>

datatype watch_error =
  WatchIo string | Notify string | NotAbsolute string | NotExists string
| AlreadyWatching string | NotWatching string

definition watch_error_text :: "watch_error \<Rightarrow> string" where
  "watch_error_text e =
     (case e of
        WatchIo m \<Rightarrow> ''IO error: '' @ m
      | Notify m \<Rightarrow> ''notify error: '' @ m
      | NotAbsolute p \<Rightarrow> ''path is not absolute: '' @ to_string_lossy p
      | NotExists p \<Rightarrow> ''path does not exist: '' @ to_string_lossy p
      | AlreadyWatching p \<Rightarrow> ''already watching: '' @ to_string_lossy p
      | NotWatching p \<Rightarrow> ''not watching: '' @ to_string_lossy p)"

record watched_path =
  wp_path :: string
  wp_recursive :: bool

text \<open>What the callback captured when the watcher was created; the attributor itself is shared.\<close>

record handler_ctx =
  hc_channel :: nat
  hc_path_filter :: path_filter
  hc_project_id :: string
  hc_machine_id :: string
  hc_content_dedup :: "content_dedup option"
  hc_project_root :: "string option"

record fs_watcher =
  fw_channel :: nat
  fw_watcher :: "handler_ctx option"
  fw_watched :: "path_comp list \<Rightarrow> watched_path option"
  fw_path_filter :: path_filter
  fw_project_id :: string
  fw_machine_id :: string
  fw_content_dedup :: "content_dedup option"
  fw_attributor :: "event_attributor option"
  fw_project_root :: "string option"

definition fs_watcher_new :: "string \<Rightarrow> string \<Rightarrow> fs_watcher" where
  "fs_watcher_new pid mid =
     \<lparr>fw_channel = 0, fw_watcher = None, fw_watched = Map.empty, fw_path_filter = path_filter_default,
      fw_project_id = pid, fw_machine_id = mid, fw_content_dedup = None, fw_attributor = None,
      fw_project_root = None\<rparr>"

definition with_path_filter :: "path_filter \<Rightarrow> fs_watcher \<Rightarrow> fs_watcher" where
  "with_path_filter f w = w\<lparr>fw_path_filter := f\<rparr>"

definition set_path_filter :: "path_filter \<Rightarrow> fs_watcher \<Rightarrow> fs_watcher" where
  "set_path_filter f w = w\<lparr>fw_path_filter := f\<rparr>"

definition with_content_dedup :: "content_dedup \<Rightarrow> fs_watcher \<Rightarrow> fs_watcher" where
  "with_content_dedup d w = w\<lparr>fw_content_dedup := Some d\<rparr>"

definition with_attributor :: "event_attributor \<Rightarrow> string \<Rightarrow> fs_watcher \<Rightarrow> fs_watcher" where
  "with_attributor a root w = w\<lparr>fw_attributor := Some a, fw_project_root := Some root\<rparr>"

definition create_watcher :: "fs_watcher \<Rightarrow> handler_ctx" where
  "create_watcher w =
     \<lparr>hc_channel = fw_channel w, hc_path_filter = fw_path_filter w, hc_project_id = fw_project_id w,
      hc_machine_id = fw_machine_id w, hc_content_dedup = fw_content_dedup w,
      hc_project_root = fw_project_root w\<rparr>"

text \<open>\<open>start\<close> returns the number of the channel whose receiver the caller gets; \<open>os\<close> is what creating
  the native watcher returned.  The sender is replaced before that can fail.\<close>

definition fw_start :: "string option \<Rightarrow> fs_watcher \<Rightarrow> (watch_error + nat) \<times> fs_watcher" where
  "fw_start os w =
     (let w1 = w\<lparr>fw_channel := fw_channel w + 1\<rparr> in
      case os of
        Some err \<Rightarrow> (Inl (Notify err), w1)
      | None \<Rightarrow> (Inr (fw_channel w1), w1\<lparr>fw_watcher := Some (create_watcher w1)\<rparr>))"

definition fw_watch :: "disk \<Rightarrow> string option \<Rightarrow> string \<Rightarrow> fs_watcher \<Rightarrow> watch_error + fs_watcher" where
  "fw_watch dk os path w =
     (if \<not> is_absolute path then Inl (NotAbsolute path)
      else if \<not> dk_exists dk path then Inl (NotExists path)
      else if fw_watched w (components path) \<noteq> None then Inl (AlreadyWatching path)
      else (case (fw_watcher w, os) of
              (Some _, Some err) \<Rightarrow> Inl (Notify err)
            | _ \<Rightarrow> Inr (w\<lparr>fw_watched := (fw_watched w)
                      (components path \<mapsto> \<lparr>wp_path = path, wp_recursive = dk_is_dir dk path\<rparr>)\<rparr>)))"

definition fw_unwatch :: "string option \<Rightarrow> string \<Rightarrow> fs_watcher \<Rightarrow> watch_error + fs_watcher" where
  "fw_unwatch os path w =
     (if fw_watched w (components path) = None then Inl (NotWatching path)
      else (case (fw_watcher w, os) of
              (Some _, Some err) \<Rightarrow> Inl (Notify err)
            | _ \<Rightarrow> Inr (w\<lparr>fw_watched := (fw_watched w)(components path := None)\<rparr>)))"

definition fw_stop :: "fs_watcher \<Rightarrow> fs_watcher" where
  "fw_stop w = w\<lparr>fw_watcher := None, fw_watched := Map.empty\<rparr>"

subsection \<open>The event callback\<close>

text \<open>The kinds of notify's events; a rename arrives as \<open>Modify(Name(_))\<close>.\<close>

datatype modify_kind = ModifyAny | ModifyData | ModifyMetadata | ModifyName | ModifyOther

datatype event_kind = KindAny | KindAccess | KindCreate | KindModify modify_kind | KindRemove | KindOther

fun type_of_kind :: "event_kind \<Rightarrow> event_type option" where
  "type_of_kind KindCreate = Some Created"
| "type_of_kind (KindModify _) = Some Modified"
| "type_of_kind KindRemove = Some Deleted"
| "type_of_kind _ = None"

definition attribute_event ::
  "disk \<Rightarrow> timestamp \<Rightarrow> handler_ctx \<Rightarrow> string \<Rightarrow> file_event \<Rightarrow> event_attributor option
    \<Rightarrow> file_event \<times> event_attributor option" where
  "attribute_event dk now h path e at =
     (case (at, hc_project_root h) of
        (Some a, Some root) \<Rightarrow>
          (let (s, a') = detect_source (dk_mtime dk) now path root a in (with_source s e, Some a'))
      | _ \<Rightarrow> (e, at))"

definition hash_event ::
  "(string \<Rightarrow> string) \<Rightarrow> disk \<Rightarrow> handler_ctx \<Rightarrow> string \<Rightarrow> file_event \<Rightarrow> file_event" where
  "hash_event blake3 dk h path e =
     (case hc_content_dedup h of
        None \<Rightarrow> e
      | Some d \<Rightarrow>
          if ev_type e \<in> {Created, Modified} then
            (case hash_file blake3 dk path d of Inl _ \<Rightarrow> e | Inr hash \<Rightarrow> with_content_hash hash e)
          else e)"

text \<open>One path of an event: what is sent, and the attributor afterwards.\<close>

definition handle_path ::
  "(string \<Rightarrow> string) \<Rightarrow> disk \<Rightarrow> timestamp \<Rightarrow> handler_ctx \<Rightarrow> event_kind \<Rightarrow> string
    \<Rightarrow> event_attributor option \<Rightarrow> file_event option \<times> event_attributor option" where
  "handle_path blake3 dk now h kind path at =
     (let path_str = to_string_lossy path in
      if should_ignore (hc_path_filter h) path_str then (None, at)
      else (case type_of_kind kind of
        None \<Rightarrow> (None, at)
      | Some et \<Rightarrow>
          (let e = file_event_new now et path_str (hc_project_id h) (hc_machine_id h);
               (e1, at1) = attribute_event dk now h path e at in
           (Some (hash_event blake3 dk h path e1), at1))))"

text \<open>The paths of one notification share one clock reading; the code reads the clock for each path.\<close>

fun handle_paths ::
  "(string \<Rightarrow> string) \<Rightarrow> disk \<Rightarrow> timestamp \<Rightarrow> handler_ctx \<Rightarrow> event_kind \<Rightarrow> string list
    \<Rightarrow> event_attributor option \<Rightarrow> file_event list \<times> event_attributor option" where
  "handle_paths blake3 dk now h kind [] at = ([], at)"
| "handle_paths blake3 dk now h kind (p # ps) at =
     (let (eo, at1) = handle_path blake3 dk now h kind p at;
          (es, at2) = handle_paths blake3 dk now h kind ps at1 in
      ((case eo of None \<Rightarrow> es | Some e \<Rightarrow> e # es), at2))"

text \<open>The callback on a result of notify; an error is logged.  The sends go to the channel that was
  current when the watcher was created.\<close>

definition handle_events ::
  "(string \<Rightarrow> string) \<Rightarrow> disk \<Rightarrow> timestamp \<Rightarrow> string + event_kind \<times> string list \<Rightarrow> fs_watcher
    \<Rightarrow> (nat \<times> file_event) list \<times> fs_watcher" where
  "handle_events blake3 dk now res w =
     (case (fw_watcher w, res) of
        (Some h, Inr (kind, paths)) \<Rightarrow>
          (let (es, at) = handle_paths blake3 dk now h kind paths (fw_attributor w) in
           (map (Pair (hc_channel h)) es, w\<lparr>fw_attributor := at\<rparr>))
      | _ \<Rightarrow> ([], w))"

subsection \<open>What the callback emits\<close>

lemma attribute_event_fields [simp]:
  "ev_file_path (fst (attribute_event dk now h p e at)) = ev_file_path e"
  "ev_type (fst (attribute_event dk now h p e at)) = ev_type e"
  "ev_project_id (fst (attribute_event dk now h p e at)) = ev_project_id e"
  "ev_machine_id (fst (attribute_event dk now h p e at)) = ev_machine_id e"
  "ev_content_hash (fst (attribute_event dk now h p e at)) = ev_content_hash e"
  "ev_old_path (fst (attribute_event dk now h p e at)) = ev_old_path e"
  by (auto simp: attribute_event_def with_source_def split: option.split prod.split)

lemma hash_event_fields [simp]:
  "ev_file_path (hash_event b dk h p e) = ev_file_path e"
  "ev_type (hash_event b dk h p e) = ev_type e"
  "ev_project_id (hash_event b dk h p e) = ev_project_id e"
  "ev_machine_id (hash_event b dk h p e) = ev_machine_id e"
  "ev_source (hash_event b dk h p e) = ev_source e"
  "ev_old_path (hash_event b dk h p e) = ev_old_path e"
  by (auto simp: hash_event_def with_content_hash_def split: option.split sum.split)

text \<open>The paths of an event that pass the filter.\<close>

definition passing :: "handler_ctx \<Rightarrow> string list \<Rightarrow> string list" where
  "passing h ps = filter (\<lambda>p. \<not> should_ignore (hc_path_filter h) (to_string_lossy p)) ps"

lemma handle_path_cases:
  "handle_path b dk now h kind p at = (eo, at') \<Longrightarrow>
     (case eo of
        None \<Rightarrow> (should_ignore (hc_path_filter h) (to_string_lossy p) \<or> type_of_kind kind = None) \<and> at' = at
      | Some e \<Rightarrow> \<not> should_ignore (hc_path_filter h) (to_string_lossy p) \<and> type_of_kind kind = Some (ev_type e) \<and>
          ev_file_path e = to_string_lossy p \<and> ev_project_id e = hc_project_id h \<and>
          ev_machine_id e = hc_machine_id h \<and> ev_old_path e = None \<and>
          ev_content_hash e = (case hc_content_dedup h of
            Some d \<Rightarrow> if ev_type e \<in> {Created, Modified} then ok_of (hash_file b dk p d) else None
          | None \<Rightarrow> None))"
  by (auto simp: handle_path_def Let_def split_beta file_event_new_def hash_event_def with_content_hash_def
      split: if_splits option.splits sum.splits)

lemma handle_paths_paths:
  "type_of_kind kind = Some et
    \<Longrightarrow> map ev_file_path (fst (handle_paths b dk now h kind ps at)) = map to_string_lossy (passing h ps)"
proof (induction ps arbitrary: at)
  case (Cons p ps)
  obtain eo at1 where 1: "handle_path b dk now h kind p at = (eo, at1)" by force
  show ?case
    using handle_path_cases[OF 1] Cons.IH[of at1] Cons.prems
    by (auto simp: 1 split_beta passing_def split: option.splits)
qed (simp add: passing_def)

lemma handle_paths_mem:
  "e \<in> set (fst (handle_paths b dk now h kind ps at)) \<Longrightarrow>
     \<exists>p at at'. p \<in> set ps \<and> handle_path b dk now h kind p at = (Some e, at')"
proof (induction ps arbitrary: at)
  case (Cons p ps)
  obtain eo at1 where 1: "handle_path b dk now h kind p at = (eo, at1)" by force
  have "eo = Some e \<or> e \<in> set (fst (handle_paths b dk now h kind ps at1))"
    using Cons.prems by (cases eo) (auto simp: 1 split_beta)
  then show ?case
  proof
    assume "eo = Some e"
    with 1 show ?thesis by (intro exI[of _ p] exI[of _ at] exI[of _ at1]) simp
  next
    assume "e \<in> set (fst (handle_paths b dk now h kind ps at1))"
    from Cons.IH[OF this] show ?thesis by (auto intro: exI)
  qed
qed simp

lemma handle_paths_none: "type_of_kind kind = None \<Longrightarrow> fst (handle_paths b dk now h kind ps at) = []"
proof (induction ps arbitrary: at)
  case (Cons p ps)
  obtain eo at1 where 1: "handle_path b dk now h kind p at = (eo, at1)" by force
  show ?case using handle_path_cases[OF 1] Cons by (auto simp: 1 split_beta split: option.splits)
qed simp

subsection \<open>Properties\<close>

definition expected_hash ::
  "(string \<Rightarrow> string) \<Rightarrow> disk \<Rightarrow> content_dedup option \<Rightarrow> event_type \<Rightarrow> string \<Rightarrow> string option" where
  "expected_hash b dk dedup et p =
     (case dedup of Some d \<Rightarrow> if et \<in> {Created, Modified} then ok_of (hash_file b dk p d) else None
      | None \<Rightarrow> None)"

text \<open>
  C15. The callback of a running watcher sends, for a notify event of a kind that is reported, exactly
  one event per path that the filter lets through, in the order of the paths, to the channel of the
  start that created it: with the type of the kind, the captured project and machine, and the hash
  of the content where one is configured, the event is no deletion and the file can be hashed.  No
  event is ever a rename: a rename arrives as a modification, and no old path is recorded.
\<close>

theorem watcher_emits_unfiltered_in_order:
  assumes "fw_watcher w = Some h" and "type_of_kind kind = Some et"
  shows "let sent = fst (handle_events b dk now (Inr (kind, paths)) w) in
    map (ev_file_path \<circ> snd) sent = map to_string_lossy (passing h paths) \<and>
    (\<forall>(c, e) \<in> set sent. c = hc_channel h \<and> ev_type e = et \<and> ev_type e \<noteq> Renamed \<and> ev_old_path e = None \<and>
       ev_project_id e = hc_project_id h \<and> ev_machine_id e = hc_machine_id h \<and>
       (\<exists>p \<in> set paths. ev_file_path e = to_string_lossy p \<and>
          ev_content_hash e = expected_hash b dk (hc_content_dedup h) et p))"
proof -
  let ?es = "fst (handle_paths b dk now h kind paths (fw_attributor w))"
  have sent: "fst (handle_events b dk now (Inr (kind, paths)) w) = map (Pair (hc_channel h)) ?es"
    using assms(1) by (simp add: handle_events_def split_beta)
  have et: "et \<noteq> Renamed" using assms(2) by (cases kind) auto
  have "ev_type e = et \<and> ev_old_path e = None \<and> ev_project_id e = hc_project_id h \<and>
      ev_machine_id e = hc_machine_id h \<and> (\<exists>p \<in> set paths. ev_file_path e = to_string_lossy p \<and>
          ev_content_hash e = expected_hash b dk (hc_content_dedup h) et p)" if e: "e \<in> set ?es" for e
  proof -
    obtain p at at' where p: "p \<in> set paths" "handle_path b dk now h kind p at = (Some e, at')"
      using handle_paths_mem[OF e] by blast
    from handle_path_cases[OF p(2)] assms(2) p(1) show ?thesis
      by (auto simp: expected_hash_def)
  qed
  then show ?thesis
    using et handle_paths_paths[OF assms(2), of b dk now h paths "fw_attributor w"]
    by (auto simp: sent Let_def comp_def)
qed

text \<open>
  A path is watched at most once, whatever its spelling: after a successful \<open>watch\<close>, watching any
  spelling of the path fails with \<open>AlreadyWatching\<close>, and unwatching any spelling of it restores the
  watched paths as they were.
\<close>

theorem watch_then_unwatch:
  assumes "fw_watch dk os p w = Inr w'" and "components q = components p" and "is_absolute q" and "dk_exists dk q"
  shows "fw_watch dk os' q w' = Inl (AlreadyWatching q) \<and>
    (\<exists>w''. fw_unwatch None q w' = Inr w'' \<and> fw_watched w'' = fw_watched w \<and>
       fw_unwatch None p w'' = Inl (NotWatching p))"
  using assms
  by (auto simp: fw_watch_def fw_unwatch_def fun_upd_idem split: if_splits option.splits)

definition demo_disk :: disk where
  "demo_disk = \<lparr>dk_exists = (\<lambda>_. True), dk_is_dir = (\<lambda>p. p = ''/w''), dk_len = (\<lambda>_. Inr 1),
     dk_read = (\<lambda>_. Inr ''x''), dk_mtime = (\<lambda>_. NoMetadata)\<rparr>"

theorem watch_then_unwatch_witness:
  "\<exists>w'. fw_watch demo_disk None ''/w'' (fs_watcher_new ''p'' ''m'') = Inr w' \<and>
    fw_watch demo_disk None ''/w/'' w' = Inl (AlreadyWatching ''/w/'')"
proof -
  have c: "components ''/w/'' = components ''/w''" and a: "is_absolute ''/w/''" by code_simp+
  have "\<exists>w'. fw_watch demo_disk None ''/w'' (fs_watcher_new ''p'' ''m'') = Inr w'"
    by (simp add: fw_watch_def fs_watcher_new_def demo_disk_def is_absolute_def starts_with_def slash_def)
  then show ?thesis using watch_then_unwatch[OF _ c a] by (auto simp: demo_disk_def)
qed

text \<open>
  A watcher works with the configuration it was started with: replacing the path filter or the
  deduplicator of a started watcher changes nothing in what it sends, up to the next \<open>start\<close>, whose
  receiver alone gets the events from then on.
\<close>

theorem configuration_is_captured_at_start:
  assumes "fw_start None w = (Inr c, w1)"
  shows "fst (handle_events b dk now res (set_path_filter f w1)) = fst (handle_events b dk now res w1) \<and>
    fst (handle_events b dk now res (with_content_dedup d w1)) = fst (handle_events b dk now res w1) \<and>
    (\<forall>(c', e) \<in> set (fst (handle_events b dk now res w1)). c' = c) \<and>
    (\<exists>c2 w2. fw_start None (set_path_filter f w1) = (Inr c2, w2) \<and> c2 \<noteq> c \<and>
       (\<forall>(c', e) \<in> set (fst (handle_events b dk now res w2)). c' = c2 \<and> \<not> should_ignore f (ev_file_path e)))"
proof -
  have w1: "w1 = w\<lparr>fw_channel := c, fw_watcher := Some (create_watcher (w\<lparr>fw_channel := c\<rparr>))\<rparr>" "c = fw_channel w + 1"
    using assms by (auto simp: fw_start_def Let_def)
  let ?v = "set_path_filter f w1"
  let ?w2 = "?v\<lparr>fw_channel := c + 1, fw_watcher := Some (create_watcher (?v\<lparr>fw_channel := c + 1\<rparr>))\<rparr>"
  have start: "fw_start None ?v = (Inr (c + 1), ?w2)"
    by (simp add: fw_start_def Let_def w1 set_path_filter_def)
  have "c' = c + 1 \<and> \<not> should_ignore f (ev_file_path e)"
    if mem: "(c', e) \<in> set (fst (handle_events b dk now res ?w2))" for c' e
  proof -
    obtain kind paths where res: "res = Inr (kind, paths)"
      using mem by (cases res) (auto simp: handle_events_def)
    then have "(c', e) \<in> Pair (c + 1) ` set (fst (handle_paths b dk now
        (create_watcher (?v\<lparr>fw_channel := c + 1\<rparr>)) kind paths (fw_attributor ?w2)))"
      using mem by (simp add: handle_events_def split_beta create_watcher_def)
    then obtain at where r: "c' = c + 1"
      "e \<in> set (fst (handle_paths b dk now (create_watcher (?v\<lparr>fw_channel := c + 1\<rparr>)) kind paths at))"
      by blast
    then show ?thesis
      using handle_paths_mem[OF r(2)]
      by (auto simp: create_watcher_def set_path_filter_def dest!: handle_path_cases)
  qed
  then have "\<exists>c2 w2. fw_start None ?v = (Inr c2, w2) \<and> c2 \<noteq> c \<and>
      (\<forall>(c', e) \<in> set (fst (handle_events b dk now res w2)). c' = c2 \<and> \<not> should_ignore f (ev_file_path e))"
    using start by (intro exI[of _ "c + 1"] exI[of _ ?w2]) auto
  moreover have "\<forall>(c', e) \<in> set (fst (handle_events b dk now res w1)). c' = c"
    by (auto simp: handle_events_def w1 create_watcher_def split_beta split: sum.splits)
  ultimately show ?thesis
    by (simp add: handle_events_def w1 set_path_filter_def with_content_dedup_def split: sum.split)
      (simp add: split_beta)
qed

theorem configuration_is_captured_at_start_witness:
  "\<exists>c w1. fw_start None (fs_watcher_new ''p'' ''m'') = (Inr c, w1) \<and>
     fst (handle_events (\<lambda>_. []) demo_disk 5 (Inr (KindCreate, [''/w/a''])) (set_path_filter (path_filter_new [''a''] 1) w1))
     = fst (handle_events (\<lambda>_. []) demo_disk 5 (Inr (KindCreate, [''/w/a''])) w1)"
proof -
  have "fw_start None (fs_watcher_new ''p'' ''m'')
      = (Inr 1, snd (fw_start None (fs_watcher_new ''p'' ''m'')))"
    by (simp add: fw_start_def fs_watcher_new_def Let_def)
  from configuration_is_captured_at_start[OF this] this show ?thesis by blast
qed

theorem watcher_emits_unfiltered_in_order_witness:
  "\<exists>w h. fw_watcher w = Some h \<and>
     map (ev_file_path \<circ> snd) (fst (handle_events (\<lambda>_. []) demo_disk 5
        (Inr (KindModify ModifyName, [''/w/a'', ''/w/.git/x'', ''/w/b''])) w)) = [''/w/a'', ''/w/b'']"
proof -
  let ?w = "snd (fw_start None (fs_watcher_new ''p'' ''m''))"
  let ?h = "create_watcher ((fs_watcher_new ''p'' ''m'')\<lparr>fw_channel := 1\<rparr>)"
  have h: "fw_watcher ?w = Some ?h" by (simp add: fw_start_def fs_watcher_new_def Let_def)
  have "map to_string_lossy (passing ?h [''/w/a'', ''/w/.git/x'', ''/w/b'']) = [''/w/a'', ''/w/b'']"
    unfolding passing_def create_watcher_def fs_watcher_new_def by code_simp
  then show ?thesis
    using watcher_emits_unfiltered_in_order[OF h, of "KindModify ModifyName" Modified "\<lambda>_. []" demo_disk 5
        "[''/w/a'', ''/w/.git/x'', ''/w/b'']"] h
    by (auto simp: Let_def)
qed

end
