(* ===== verification/Agents.thy ===== *)
theory Agents
  imports Json Tables
begin

text \<open>
  The agent tracker of \<open>crates/ambient-fs-server/src/agents.rs\<close>.  The map of agents is a list without
  repeated names, in the order in which the hash map is iterated; nothing relies on that order but
  what the iterations compute.  The JSON parser is the argument \<open>parse_json\<close>.
\<close>

record agent_activity =
  aa_ts :: int
  aa_agent :: string
  aa_action :: string
  aa_file :: string
  aa_project :: "string option"
  aa_tool :: "string option"
  aa_session :: "string option"
  aa_intent :: "string option"
  aa_lines :: "u32 list option"
  aa_confidence :: "json option"
  aa_done :: "bool option"

definition agent_activity_new :: "int \<Rightarrow> string \<Rightarrow> string \<Rightarrow> string \<Rightarrow> agent_activity" where
  "agent_activity_new ts agent action file =
     \<lparr>aa_ts = ts, aa_agent = agent, aa_action = action, aa_file = file, aa_project = None, aa_tool = None,
      aa_session = None, aa_intent = None, aa_lines = None, aa_confidence = None, aa_done = None\<rparr>"

text \<open>\<open>PartialEq\<close>, which leaves the confidence out.\<close>

definition activity_eq :: "agent_activity \<Rightarrow> agent_activity \<Rightarrow> bool" where
  "activity_eq a b \<longleftrightarrow> aa_ts a = aa_ts b \<and> aa_agent a = aa_agent b \<and> aa_action a = aa_action b \<and> aa_file a = aa_file b \<and>
     aa_project a = aa_project b \<and> aa_tool a = aa_tool b \<and> aa_session a = aa_session b \<and> aa_intent a = aa_intent b \<and>
     aa_lines a = aa_lines b \<and> aa_done a = aa_done b"

definition is_done :: "agent_activity \<Rightarrow> bool" where
  "is_done a = (case aa_done a of None \<Rightarrow> False | Some b \<Rightarrow> b)"

text \<open>\<open>DateTime::from_timestamp\<close> fails outside chrono's range, and the clock is used instead.\<close>

definition activity_timestamp :: "timestamp \<Rightarrow> agent_activity \<Rightarrow> timestamp" where
  "activity_timestamp now a =
     (let t = dur_seconds (aa_ts a) in if min_utc \<le> t \<and> t \<le> max_utc then t else now)"

definition dec_number :: "json \<Rightarrow> string + json" where
  "dec_number j = (case j of JInt i \<Rightarrow> Inr j | JFloat t \<Rightarrow> Inr j | _ \<Rightarrow> Inl ''invalid type'')"

definition dec_activity :: "json \<Rightarrow> string + agent_activity" where
  "dec_activity j =
     bind_res (struct_fields (map (\<lambda>n. (n, False))
       [''ts'', ''agent'', ''action'', ''file'', ''project'', ''tool'', ''session'', ''intent'', ''lines'',
        ''confidence'', ''done'']) j) (\<lambda>m.
     bind_res (required ''ts'' dec_i64 m) (\<lambda>ts.
     bind_res (required ''agent'' dec_string m) (\<lambda>agent.
     bind_res (required ''action'' dec_string m) (\<lambda>action.
     bind_res (required ''file'' dec_string m) (\<lambda>file.
     bind_res (optional ''project'' dec_string m) (\<lambda>project.
     bind_res (optional ''tool'' dec_string m) (\<lambda>tool.
     bind_res (optional ''session'' dec_string m) (\<lambda>session.
     bind_res (optional ''intent'' dec_string m) (\<lambda>intent.
     bind_res (optional ''lines'' (dec_list dec_u32) m) (\<lambda>lines.
     bind_res (optional ''confidence'' dec_number m) (\<lambda>confidence.
     bind_res (optional ''done'' dec_bool m) (\<lambda>d.
     Inr \<lparr>aa_ts = ts, aa_agent = agent, aa_action = action, aa_file = file, aa_project = project,
          aa_tool = tool, aa_session = session, aa_intent = intent, aa_lines = lines,
          aa_confidence = confidence, aa_done = d\<rparr>))))))))))))"

subsection \<open>The tracker\<close>

record agent_state =
  ag_agent_id :: string
  ag_files :: "string list"
  ag_last_seen :: timestamp
  ag_intent :: "string option"
  ag_tool :: "string option"
  ag_session :: "string option"

definition agent_state_new :: "timestamp \<Rightarrow> string \<Rightarrow> agent_state" where
  "agent_state_new now i = \<lparr>ag_agent_id = i, ag_files = [], ag_last_seen = now, ag_intent = None,
     ag_tool = None, ag_session = None\<rparr>"

definition is_stale :: "timestamp \<Rightarrow> duration \<Rightarrow> agent_state \<Rightarrow> bool" where
  "is_stale now timeout s = (timeout < now - ag_last_seen s)"

record agent_tracker =
  tk_agents :: "agent_state list"
  tk_stale_timeout :: duration
  tk_file_references :: "string \<Rightarrow> u32 option"

definition agent_tracker_new :: "duration \<Rightarrow> agent_tracker" where
  "agent_tracker_new d = \<lparr>tk_agents = [], tk_stale_timeout = d, tk_file_references = Map.empty\<rparr>"

definition with_default_timeout :: agent_tracker where
  "with_default_timeout = agent_tracker_new (dur_seconds 300)"

definition process_line :: "(string \<Rightarrow> string + json) \<Rightarrow> string \<Rightarrow> agent_activity option" where
  "process_line parse_json line =
     (let t = str_trim line in
      if t = [] then None
      else (case bind_res (parse_json t) dec_activity of
              Inl _ \<Rightarrow> None
            | Inr a \<Rightarrow> if aa_agent a = [] \<or> aa_action a = [] \<or> aa_file a = [] then None else Some a))"

definition touch_agent :: "timestamp \<Rightarrow> agent_activity \<Rightarrow> agent_state \<Rightarrow> agent_state" where
  "touch_agent now a s = s
     \<lparr>ag_last_seen := activity_timestamp now a, ag_intent := aa_intent a, ag_tool := aa_tool a,
      ag_session := aa_session a,
      ag_files := (if is_done a then filter (\<lambda>f. f \<noteq> aa_file a) (ag_files s)
                   else if aa_file a \<in> set (ag_files s) then ag_files s else ag_files s @ [aa_file a])\<rparr>"

definition find_agent :: "string \<Rightarrow> agent_state list \<Rightarrow> agent_state option" where
  "find_agent i as = List.find (\<lambda>s. ag_agent_id s = i) as"

text \<open>The reference counts are 32-bit and wrap, as in a release build; a debug build panics there.\<close>

definition update_from_activity :: "timestamp \<Rightarrow> agent_activity \<Rightarrow> agent_tracker \<Rightarrow> agent_tracker" where
  "update_from_activity now a tk =
     (let s = (case find_agent (aa_agent a) (tk_agents tk) of
                 None \<Rightarrow> agent_state_new now (aa_agent a) | Some s \<Rightarrow> s) in
      tk\<lparr>tk_agents := upsert ag_agent_id (touch_agent now a s) (tk_agents tk),
         tk_file_references := (tk_file_references tk)(aa_file a \<mapsto>
           (case tk_file_references tk (aa_file a) of None \<Rightarrow> 0 | Some n \<Rightarrow> n) + 1)\<rparr>)"

text \<open>The loop over the agents: the best so far is replaced by one seen strictly later.\<close>

fun best_agent ::
  "timestamp \<Rightarrow> duration \<Rightarrow> string \<Rightarrow> (string \<times> timestamp) option \<Rightarrow> agent_state list
    \<Rightarrow> (string \<times> timestamp) option" where
  "best_agent now d path best [] = best"
| "best_agent now d path best (s # ss) =
     (if is_stale now d s then best_agent now d path best ss
      else if path \<in> set (ag_files s) then
        (case best of
           None \<Rightarrow> best_agent now d path (Some (ag_agent_id s, ag_last_seen s)) ss
         | Some (i, seen) \<Rightarrow>
             if seen < ag_last_seen s then best_agent now d path (Some (ag_agent_id s, ag_last_seen s)) ss
             else best_agent now d path best ss)
      else best_agent now d path best ss)"

definition tracker_active_agent :: "timestamp \<Rightarrow> string \<Rightarrow> agent_tracker \<Rightarrow> string option" where
  "tracker_active_agent now path tk =
     map_option fst (best_agent now (tk_stale_timeout tk) path None (tk_agents tk))"

definition get_all_agents :: "timestamp \<Rightarrow> agent_tracker \<Rightarrow> agent_state list" where
  "get_all_agents now tk = filter (\<lambda>s. \<not> is_stale now (tk_stale_timeout tk) s) (tk_agents tk)"

definition agent_count :: "agent_tracker \<Rightarrow> nat" where
  "agent_count tk = length (tk_agents tk)"

definition active_agent_count :: "timestamp \<Rightarrow> agent_tracker \<Rightarrow> nat" where
  "active_agent_count now tk = length (get_all_agents now tk)"

definition get_reference_count :: "string \<Rightarrow> agent_tracker \<Rightarrow> u32" where
  "get_reference_count path tk = (case tk_file_references tk path of None \<Rightarrow> 0 | Some n \<Rightarrow> n)"

text \<open>\<open>prune_stale\<close> removes the counts of the files that only stale agents hold.\<close>

definition prune_stale :: "timestamp \<Rightarrow> agent_tracker \<Rightarrow> nat \<times> agent_tracker" where
  "prune_stale now tk =
     (let stale = is_stale now (tk_stale_timeout tk);
          stale_files = concat (map ag_files (filter stale (tk_agents tk)));
          fresh_files = concat (map ag_files (filter (\<lambda>s. \<not> stale s) (tk_agents tk)));
          kept = filter (\<lambda>s. \<not> stale s) (tk_agents tk) in
      (length (tk_agents tk) - length kept,
       tk\<lparr>tk_agents := kept,
          tk_file_references := (\<lambda>f. if f \<in> set stale_files \<and> f \<notin> set fresh_files then None
                                     else tk_file_references tk f)\<rparr>))"

text \<open>The pass rate is \<open>valid / total\<close>, given as the pair; no lines at all pass.\<close>

definition calculate_pass_rate :: "(string \<Rightarrow> string + json) \<Rightarrow> string list \<Rightarrow> nat \<times> nat" where
  "calculate_pass_rate parse_json lines =
     (if lines = [] then (1, 1)
      else (length (filter (\<lambda>l. process_line parse_json l \<noteq> None) lines), length lines))"

subsection \<open>The tracker as a table of agents\<close>

definition tracker_ok :: "agent_state list \<Rightarrow> bool" where
  "tracker_ok as \<longleftrightarrow> distinct (map ag_agent_id as)"

definition drop_agent :: "string \<Rightarrow> agent_state list \<Rightarrow> agent_state list" where
  "drop_agent i as = filter (\<lambda>s. ag_agent_id s \<noteq> i) as"

interpretation agents: keyed_table tracker_ok "\<lambda>_. True" ag_agent_id "\<lambda>as i. find_agent i as"
  "upsert ag_agent_id" drop_agent
proof
  fix as :: "agent_state list" and s i j
  assume ok: "tracker_ok as"
  show "tracker_ok (upsert ag_agent_id s as)" using ok by (simp add: tracker_ok_def upsert_distinct)
  show "tracker_ok (drop_agent i as)" using ok by (simp add: tracker_ok_def drop_agent_def distinct_map_filter)
  show "find_agent j (upsert ag_agent_id s as) = (if j = ag_agent_id s then Some s else find_agent j as)"
    by (simp add: find_agent_def upsert_find)
  show "find_agent j (drop_agent i as) = (if j = i then None else find_agent j as)"
    by (simp add: find_agent_def drop_agent_def find_filter_ne)
qed

lemma touch_agent_id [simp]: "ag_agent_id (touch_agent now a s) = ag_agent_id s"
  by (simp add: touch_agent_def)

lemma find_agent_id: "find_agent i as = Some s \<Longrightarrow> ag_agent_id s = i"
  by (auto simp: find_agent_def dest: find_Some_mem)

lemma update_ok [inv_intros]: "tracker_ok (tk_agents tk) \<Longrightarrow> tracker_ok (tk_agents (update_from_activity now a tk))"
  by (simp add: update_from_activity_def Let_def agents.inv_update)

lemma find_update:
  assumes "tracker_ok (tk_agents tk)"
  shows "find_agent i (tk_agents (update_from_activity now a tk)) =
    (if i = aa_agent a then Some (touch_agent now a
        (case find_agent i (tk_agents tk) of None \<Rightarrow> agent_state_new now i | Some s \<Rightarrow> s))
     else find_agent i (tk_agents tk))"
proof -
  have "ag_agent_id (case find_agent (aa_agent a) (tk_agents tk) of
      None \<Rightarrow> agent_state_new now (aa_agent a) | Some s \<Rightarrow> s) = aa_agent a"
    by (auto simp: agent_state_new_def find_agent_id split: option.split)
  then show ?thesis
    using agents.lookup_update[OF assms] by (auto simp: update_from_activity_def Let_def)
qed

text \<open>No agent lists a file twice.\<close>

definition files_distinct :: "agent_state list \<Rightarrow> bool" where
  "files_distinct as \<longleftrightarrow> list_all (\<lambda>s. distinct (ag_files s)) as"

lemma touch_distinct: "distinct (ag_files s) \<Longrightarrow> distinct (ag_files (touch_agent now a s))"
  by (auto simp: touch_agent_def)

lemma update_files_distinct [inv_intros]:
  "files_distinct (tk_agents tk) \<Longrightarrow> files_distinct (tk_agents (update_from_activity now a tk))"
proof -
  assume ok: "files_distinct (tk_agents tk)"
  let ?s = "case find_agent (aa_agent a) (tk_agents tk) of None \<Rightarrow> agent_state_new now (aa_agent a) | Some s \<Rightarrow> s"
  have "distinct (ag_files ?s)"
    using ok by (auto simp: agent_state_new_def find_agent_def files_distinct_def list_all_iff
        dest!: find_Some_mem split: option.split)
  then show ?thesis
    using upsert_all[of "\<lambda>s. distinct (ag_files s)" "tk_agents tk" "touch_agent now a ?s"] ok touch_distinct[of ?s now a]
    by (simp add: files_distinct_def update_from_activity_def Let_def)
qed

subsection \<open>The active agent\<close>

definition candidate :: "timestamp \<Rightarrow> duration \<Rightarrow> string \<Rightarrow> agent_state \<Rightarrow> bool" where
  "candidate now d path s \<longleftrightarrow> \<not> is_stale now d s \<and> path \<in> set (ag_files s)"

lemma best_agent_spec:
  "case best_agent now d path best as of
     None \<Rightarrow> best = None \<and> (\<forall>s \<in> set as. \<not> candidate now d path s)
   | Some (i, seen) \<Rightarrow>
       (best = Some (i, seen) \<or> (\<exists>s \<in> set as. candidate now d path s \<and> ag_agent_id s = i \<and> ag_last_seen s = seen)) \<and>
       (\<forall>s \<in> set as. candidate now d path s \<longrightarrow> ag_last_seen s \<le> seen) \<and>
       (\<forall>j t. best = Some (j, t) \<longrightarrow> t \<le> seen)"
proof (induction as arbitrary: best)
  case (Cons s as)
  note IH = Cons.IH[of best] Cons.IH[of "Some (ag_agent_id s, ag_last_seen s)"]
  show ?case using IH by (auto simp: candidate_def split: option.splits prod.splits if_splits)
qed (auto split: option.split)

subsection \<open>Histories of reports\<close>

fun track_all :: "(timestamp \<times> agent_activity) list \<Rightarrow> agent_tracker \<Rightarrow> agent_tracker" where
  "track_all [] tk = tk"
| "track_all ((now, a) # as) tk = track_all as (update_from_activity now a tk)"

definition last_report :: "(timestamp \<times> agent_activity) list \<Rightarrow> string \<Rightarrow> string \<Rightarrow> agent_activity option" where
  "last_report as i f = map_option snd (List.find (\<lambda>(_, a). aa_agent a = i \<and> aa_file a = f) (rev as))"

definition holds_file :: "agent_tracker \<Rightarrow> string \<Rightarrow> string \<Rightarrow> bool" where
  "holds_file tk i f = (case find_agent i (tk_agents tk) of None \<Rightarrow> False | Some s \<Rightarrow> f \<in> set (ag_files s))"

lemma track_all_append: "track_all (as @ bs) tk = track_all bs (track_all as tk)"
  by (induction as tk rule: track_all.induct) auto

lemma track_all_ok: "tracker_ok (tk_agents tk) \<Longrightarrow> tracker_ok (tk_agents (track_all as tk))"
  by (induction as tk rule: track_all.induct) (auto simp: update_ok)

lemma track_all_timeout [simp]: "tk_stale_timeout (track_all as tk) = tk_stale_timeout tk"
  by (induction as tk rule: track_all.induct) (auto simp: update_from_activity_def Let_def)

lemma holds_file_update:
  "tracker_ok (tk_agents tk) \<Longrightarrow> holds_file (update_from_activity now a tk) i f
    = (if aa_agent a = i \<and> aa_file a = f then \<not> is_done a else holds_file tk i f)"
  by (auto simp: holds_file_def find_update touch_agent_def agent_state_new_def split: option.split)

lemma track_new_ok: "tracker_ok (tk_agents (track_all as (agent_tracker_new d)))"
  by (rule track_all_ok) (simp add: agent_tracker_new_def tracker_ok_def)

lemma holds_file_history:
  "holds_file (track_all as (agent_tracker_new d)) i f
    = (case last_report as i f of None \<Rightarrow> False | Some a \<Rightarrow> \<not> is_done a)"
proof (induction as rule: rev_induct)
  case Nil
  show ?case by (simp add: holds_file_def agent_tracker_new_def find_agent_def last_report_def)
next
  case (snoc x as)
  obtain now a where x: "x = (now, a)" by force
  show ?case
    using snoc holds_file_update[OF track_new_ok, of now a as d i f]
    by (auto simp: x track_all_append last_report_def)
qed

lemma reference_count_history:
  "get_reference_count f (track_all as (agent_tracker_new d))
    = of_nat (length (filter (\<lambda>(_, a). aa_file a = f) as))"
proof (induction as rule: rev_induct)
  case Nil
  show ?case by (simp add: get_reference_count_def agent_tracker_new_def)
next
  case (snoc x as)
  obtain now a where x: "x = (now, a)" by force
  show ?case using snoc
    by (auto simp: x track_all_append update_from_activity_def Let_def get_reference_count_def
        split: option.splits)
qed

subsection \<open>Properties\<close>

text \<open>
  C23. The active agent of a file is the one seen last: whatever the iteration order of the map, the
  answer is the name of an agent that is not stale, has the file in its list and was seen no earlier
  than every other such agent, and there is no answer only when there is no such agent.
\<close>

theorem active_agent_is_seen_last:
  "case tracker_active_agent now path tk of
     None \<Rightarrow> filter (candidate now (tk_stale_timeout tk) path) (tk_agents tk) = []
   | Some i \<Rightarrow> \<exists>s \<in> set (tk_agents tk). ag_agent_id s = i \<and> candidate now (tk_stale_timeout tk) path s \<and>
       list_all (\<lambda>s'. ag_last_seen s' \<le> ag_last_seen s)
         (filter (candidate now (tk_stale_timeout tk) path) (tk_agents tk))"
  using best_agent_spec[where now = now and d = "tk_stale_timeout tk" and path = path and best = None and as = "tk_agents tk"]
  by (auto simp: tracker_active_agent_def list_all_iff filter_empty_conv split: option.splits)

text \<open>
  C24. The tracker's lists follow the reports: after any sequence of activities an agent holds a file
  exactly when its last report on the file was not \<open>done\<close>, no list has a file twice, each agent has
  one entry, and the reference count of a file is the number of reports on it, modulo \<open>2^32\<close>.
\<close>

theorem tracker_follows_reports:
  "let tk = track_all as (agent_tracker_new d) in
     holds_file tk i f = (case last_report as i f of None \<Rightarrow> False | Some a \<Rightarrow> \<not> is_done a) \<and>
     tracker_ok (tk_agents tk) \<and> files_distinct (tk_agents tk) \<and>
     unat (get_reference_count f tk) = length (filter (\<lambda>(_, a). aa_file a = f) as) mod 2 ^ 32"
proof -
  have "files_distinct (tk_agents tk) \<Longrightarrow> files_distinct (tk_agents (track_all as tk))" for tk
    by (induction as tk rule: track_all.induct) (auto simp: update_files_distinct)
  moreover have "files_distinct (tk_agents (agent_tracker_new d))"
    by (simp add: agent_tracker_new_def files_distinct_def)
  ultimately show ?thesis
    by (simp add: Let_def holds_file_history reference_count_history track_new_ok unat_of_nat)
qed

text \<open>
  Pruning forgets only what has expired: it removes exactly the stale agents and returns their
  number, changes no answer about active agents, and keeps the reference count of every file that a
  remaining agent holds or no agent held.
\<close>

theorem prune_stale_exact:
  "let (n, tk') = prune_stale now tk; stale = is_stale now (tk_stale_timeout tk) in
     tk_agents tk' = filter (\<lambda>s. \<not> stale s) (tk_agents tk) \<and>
     n = length (filter stale (tk_agents tk)) \<and>
     tracker_active_agent now path tk' = tracker_active_agent now path tk \<and>
     get_all_agents now tk' = get_all_agents now tk \<and>
     (get_reference_count f tk' = get_reference_count f tk \<or>
      (\<exists>s \<in> set (tk_agents tk). stale s \<and> f \<in> set (ag_files s)) \<and>
      list_all (\<lambda>s. f \<notin> set (ag_files s)) (tk_agents tk'))"
proof -
  let ?st = "is_stale now (tk_stale_timeout tk)"
  have "best_agent now (tk_stale_timeout tk) path b (filter (\<lambda>s. \<not> ?st s) as)
      = best_agent now (tk_stale_timeout tk) path b as" for b as
    by (induction as arbitrary: b) (auto split: option.split)
  moreover have "length (filter ?st as) = length as - length (filter (\<lambda>s. \<not> ?st s) as)" for as
    using sum_length_filter_compl[of ?st as] by simp
  ultimately show ?thesis
    by (auto simp: prune_stale_def Let_def tracker_active_agent_def get_all_agents_def
        get_reference_count_def list_all_iff)
qed

end
