(* ===== verification/Server_State.thy ===== *)
theory Server_State
  imports Event_Store Analysis_Cache Watcher Agents Subscriptions
begin

text \<open>
  The state that the daemon's tasks share, \<open>crates/ambient-fs-server/src/state.rs\<close>, and the
  aggregation of a file's awareness, \<open>awareness.rs\<close>.  The two database files are part of the state:
  the one at the store path, and \<open>analysis.db\<close> beside it.  What the outside answers (clock, time
  formats, file system, notify) is the record \<open>env\<close>.  The LLM client is in the theory Llm_Client.
\<close>

record env =
  en_now :: timestamp
  en_fmt :: "timestamp \<Rightarrow> string"
  en_parse :: "string \<Rightarrow> string + timestamp"
  en_json_time :: "timestamp \<Rightarrow> string"
  en_order :: "event_row list \<Rightarrow> event_row list"
  en_codec :: list_codec
  en_disk :: disk
  en_canonicalize :: "string \<Rightarrow> string option"
  en_start_error :: "string option"
  en_watch_error :: "string \<Rightarrow> string option"
  en_store_opens :: bool
  en_cache_opens :: bool

record server_state =
  ss_store_path :: string
  ss_db :: database
  ss_analysis_db :: database
  ss_subscriptions :: sub_manager
  ss_projects :: "string \<Rightarrow> string option"
  ss_watchers :: "string \<Rightarrow> fs_watcher option"
  ss_trees :: "string \<Rightarrow> project_tree option"
  ss_machine_id :: string
  ss_agent_tracker :: agent_tracker

definition with_machine_id :: "string \<Rightarrow> string \<Rightarrow> database \<Rightarrow> database \<Rightarrow> server_state" where
  "with_machine_id path mid db adb =
     \<lparr>ss_store_path = path, ss_db = db, ss_analysis_db = adb, ss_subscriptions = sub_manager_new,
      ss_projects = Map.empty, ss_watchers = Map.empty, ss_trees = Map.empty,
      ss_machine_id = mid, ss_agent_tracker = with_default_timeout\<rparr>"

text \<open>\<open>hostname\<close> is what the operating system reports, as a string when it is UTF-8.\<close>

definition server_state_new :: "string option \<Rightarrow> string \<Rightarrow> database \<Rightarrow> database \<Rightarrow> server_state" where
  "server_state_new hostname path db adb =
     with_machine_id path
       (case Option.bind hostname to_str of None \<Rightarrow> ''unknown'' | Some h \<Rightarrow> h) db adb"

definition add_project :: "string \<Rightarrow> string \<Rightarrow> server_state \<Rightarrow> server_state" where
  "add_project pid path st = st\<lparr>ss_projects := (ss_projects st)(pid \<mapsto> path)\<rparr>"

definition remove_project :: "string \<Rightarrow> server_state \<Rightarrow> string option \<times> server_state" where
  "remove_project pid st = (ss_projects st pid, st\<lparr>ss_projects := (ss_projects st)(pid := None)\<rparr>)"

definition get_project :: "string \<Rightarrow> server_state \<Rightarrow> string option" where
  "get_project pid st = ss_projects st pid"

definition has_project :: "string \<Rightarrow> server_state \<Rightarrow> bool" where
  "has_project pid st = (ss_projects st pid \<noteq> None)"

definition add_watcher :: "string \<Rightarrow> fs_watcher \<Rightarrow> server_state \<Rightarrow> server_state" where
  "add_watcher pid w st = st\<lparr>ss_watchers := (ss_watchers st)(pid \<mapsto> w)\<rparr>"

definition remove_watcher :: "string \<Rightarrow> server_state \<Rightarrow> fs_watcher option \<times> server_state" where
  "remove_watcher pid st = (ss_watchers st pid, st\<lparr>ss_watchers := (ss_watchers st)(pid := None)\<rparr>)"

definition get_tree :: "string \<Rightarrow> server_state \<Rightarrow> project_tree option" where
  "get_tree pid st = ss_trees st pid"

definition add_tree :: "string \<Rightarrow> project_tree \<Rightarrow> server_state \<Rightarrow> server_state" where
  "add_tree pid t st = st\<lparr>ss_trees := (ss_trees st)(pid \<mapsto> t)\<rparr>"

definition remove_tree :: "string \<Rightarrow> server_state \<Rightarrow> project_tree option \<times> server_state" where
  "remove_tree pid st = (ss_trees st pid, st\<lparr>ss_trees := (ss_trees st)(pid := None)\<rparr>)"

definition get_active_agent :: "env \<Rightarrow> string \<Rightarrow> server_state \<Rightarrow> string option" where
  "get_active_agent en path st = tracker_active_agent (en_now en) path (ss_agent_tracker st)"

definition update_agent_activity :: "env \<Rightarrow> agent_activity \<Rightarrow> server_state \<Rightarrow> server_state" where
  "update_agent_activity en a st = st\<lparr>ss_agent_tracker := update_from_activity (en_now en) a (ss_agent_tracker st)\<rparr>"

definition all_agents :: "env \<Rightarrow> server_state \<Rightarrow> agent_state list" where
  "all_agents en st = get_all_agents (en_now en) (ss_agent_tracker st)"

definition prune_stale_agents :: "env \<Rightarrow> server_state \<Rightarrow> nat \<times> server_state" where
  "prune_stale_agents en st =
     (let (n, tk) = prune_stale (en_now en) (ss_agent_tracker st) in (n, st\<lparr>ss_agent_tracker := tk\<rparr>))"

lemmas state_defs = add_project_def remove_project_def get_project_def has_project_def add_watcher_def
  remove_watcher_def get_tree_def add_tree_def remove_tree_def

subsection \<open>The store, opened for one operation\<close>

text \<open>Every task opens the store anew; a result with the database it leaves.\<close>

definition on_store ::
  "env \<Rightarrow> (database \<Rightarrow> store_error + 'a \<times> database) \<Rightarrow> server_state \<Rightarrow> (store_error + 'a) \<times> server_state" where
  "on_store en f st =
     (if \<not> en_store_opens en then (Inl (Sqlite CannotOpen), st)
      else (let db = event_store_new (ss_db st) in
        case f db of
          Inl err \<Rightarrow> (Inl err, st\<lparr>ss_db := db\<rparr>)
        | Inr (a, db') \<Rightarrow> (Inr a, st\<lparr>ss_db := db'\<rparr>)))"

definition read_store :: "env \<Rightarrow> (database \<Rightarrow> store_error + 'a) \<Rightarrow> server_state \<Rightarrow> (store_error + 'a) \<times> server_state" where
  "read_store en f st = on_store en (\<lambda>db. bind_res (f db) (\<lambda>a. Inr (a, db))) st"

lemma on_store_fields [simp]:
  "ss_subscriptions (snd (on_store en f st)) = ss_subscriptions st"
  "ss_projects (snd (on_store en f st)) = ss_projects st"
  "ss_watchers (snd (on_store en f st)) = ss_watchers st"
  "ss_trees (snd (on_store en f st)) = ss_trees st"
  "ss_agent_tracker (snd (on_store en f st)) = ss_agent_tracker st"
  "ss_machine_id (snd (on_store en f st)) = ss_machine_id st"
  "ss_analysis_db (snd (on_store en f st)) = ss_analysis_db st"
  by (auto simp: on_store_def Let_def split: sum.split prod.split)

lemma read_store_fields [simp]:
  "ss_subscriptions (snd (read_store en f st)) = ss_subscriptions st"
  "ss_projects (snd (read_store en f st)) = ss_projects st"
  "ss_trees (snd (read_store en f st)) = ss_trees st"
  "ss_agent_tracker (snd (read_store en f st)) = ss_agent_tracker st"
  "ss_analysis_db (snd (read_store en f st)) = ss_analysis_db st"
  by (simp_all add: read_store_def)

subsection \<open>Awareness\<close>

datatype awareness_error = AwStore store_error | AwCache sqlite_error

definition read_cache ::
  "env \<Rightarrow> (database \<Rightarrow> sqlite_error + 'a) \<Rightarrow> server_state \<Rightarrow> (sqlite_error + 'a) \<times> server_state" where
  "read_cache en f st =
     (if \<not> en_cache_opens en then (Inl CannotOpen, st)
      else (let db = cache_open (ss_analysis_db st) in (f db, st\<lparr>ss_analysis_db := db\<rparr>)))"

definition combine_awareness ::
  "env \<Rightarrow> file_event \<Rightarrow> file_analysis option \<Rightarrow> string option \<Rightarrow> u32 \<Rightarrow> file_awareness" where
  "combine_awareness en e analysis agent refs =
     (let aw = from_event_minimal (en_now en) (ev_file_path e) (ev_project_id e) (ev_timestamp e) (ev_source e);
          aw1 = (case analysis of
                   None \<Rightarrow> aw
                 | Some an \<Rightarrow> aw\<lparr>aw_todo_count := an_todo_count an,
                     aw_lint_hints := of_nat (length (an_lint_hints an)), aw_line_count := an_line_count an\<rparr>) in
      aw1\<lparr>aw_active_agent := agent, aw_chat_references := refs, aw_modified_by_label := ev_source_id e\<rparr>)"

definition build_awareness ::
  "env \<Rightarrow> string \<Rightarrow> string \<Rightarrow> server_state \<Rightarrow> (awareness_error + file_awareness option) \<times> server_state" where
  "build_awareness en pid path st =
     (case read_store en (store_get_latest (en_order en) (en_parse en) pid path) st of
        (Inl err, st1) \<Rightarrow> (Inl (AwStore err), st1)
      | (Inr None, st1) \<Rightarrow> (Inr None, st1)
      | (Inr (Some e), st1) \<Rightarrow>
          (case read_cache en (cache_get (en_codec en) pid path) st1 of
             (Inl err, st2) \<Rightarrow> (Inl (AwCache err), st2)
           | (Inr analysis, st2) \<Rightarrow>
               (Inr (Some (combine_awareness en e analysis (get_active_agent en path st2)
                  (get_reference_count path (ss_agent_tracker st2)))), st2)))"

lemma event_store_new_holds: "holds_log fmt T db L \<Longrightarrow> event_store_new db = db\<lparr>db_projects :=
    (case db_projects db of None \<Rightarrow> Some (StoreProjects []) | Some t \<Rightarrow> Some t)\<rparr>"
  by (auto simp: holds_log_def event_store_new_def)

lemma event_store_new_log [inv_intros]: "holds_log fmt T db L \<Longrightarrow> holds_log fmt T (event_store_new db) L"
  by (auto simp: event_store_new_holds) (auto simp: holds_log_def)

lemma cache_open_ok' [inv_intros]: "cache_ok db \<or> db_analysis db = None \<Longrightarrow> cache_ok (cache_open db)"
  by (auto simp: cache_ok_def cache_open_def cache_rows_def split: option.splits)

subsection \<open>Properties\<close>

definition env_ok :: "env \<Rightarrow> timestamp set \<Rightarrow> bool" where
  "env_ok en T \<longleftrightarrow> time_text_ok (en_fmt en) (en_parse en) T \<and> orders_desc (en_order en) \<and> en_now en \<in> T"

text \<open>
  C12. Awareness is the newest event enriched: on a store that opens and holds a log, with a cache that opens, there is none exactly for a
  file without logged events; otherwise time, author and label are those of an event of the file
  than which none is newer, the counts of todos, lint hints and lines are those of the cached
  analysis (zero without one; the number of hints as a 32-bit word), the
  active agent is the tracker's answer and the references are the tracker's count.
\<close>

theorem awareness_of_newest_event:
  assumes "env_ok en T" and "holds_log (en_fmt en) T (ss_db st) L" and "en_store_opens en" and "en_cache_opens en"
    and "cache_ok (ss_analysis_db st) \<or> db_analysis (ss_analysis_db st) = None"
  shows "case fst (build_awareness en pid path st) of
     Inl _ \<Rightarrow> False
   | Inr None \<Rightarrow> \<forall>e \<in> snd ` set L. \<not> (ev_project_id e = pid \<and> ev_file_path e = path)
   | Inr (Some a) \<Rightarrow> \<exists>e \<in> snd ` set L. ev_project_id e = pid \<and> ev_file_path e = path \<and>
       (\<forall>e' \<in> snd ` set L. ev_project_id e' = pid \<and> ev_file_path e' = path \<longrightarrow> ev_timestamp e' \<le> ev_timestamp e) \<and>
       aw_last_modified a = ev_timestamp e \<and> aw_modified_by a = ev_source e \<and>
       aw_modified_by_label a = ev_source_id e \<and> aw_change_frequency a = from_age (ev_timestamp e) (en_now en) \<and>
       aw_active_agent a = tracker_active_agent (en_now en) path (ss_agent_tracker st) \<and>
       aw_chat_references a = get_reference_count path (ss_agent_tracker st) \<and>
       aw_file_path a = path \<and> aw_project_id a = pid \<and>
       (aw_todo_count a, aw_lint_hints a, aw_line_count a) =
         (case cache_view (en_codec en) (cache_open (ss_analysis_db st)) (pid, path) of
            None \<Rightarrow> (0, 0, 0)
          | Some an \<Rightarrow> (an_todo_count an, of_nat (length (an_lint_hints an)), an_line_count an))"
proof -
  let ?db = "event_store_new (ss_db st)"
  have p: "time_text_ok (en_fmt en) (en_parse en) T" "orders_desc (en_order en)"
    using assms(1) by (simp_all add: env_ok_def)
  obtain r where r: "store_get_latest (en_order en) (en_parse en) pid path ?db = Inr r"
    and spec: "case r of
       None \<Rightarrow> \<forall>e \<in> snd ` set L. \<not> (ev_project_id e = pid \<and> ev_file_path e = path)
     | Some e \<Rightarrow> e \<in> snd ` set L \<and> ev_project_id e = pid \<and> ev_file_path e = path \<and>
         (\<forall>e' \<in> snd ` set L. ev_project_id e' = pid \<and> ev_file_path e' = path \<longrightarrow> ev_timestamp e' \<le> ev_timestamp e)"
    using store_get_latest_spec[OF p event_store_new_log[OF assms(2)], of pid path] by blast
  have rd: "read_store en (store_get_latest (en_order en) (en_parse en) pid path) st = (Inr r, st\<lparr>ss_db := ?db\<rparr>)"
    by (simp add: read_store_def on_store_def assms(3) Let_def r)
  have ca: "cache_ok (cache_open (ss_analysis_db st))" using assms(5) by (rule cache_open_ok')
  show ?thesis
  proof (cases r)
    case None
    with spec show ?thesis by (simp add: build_awareness_def rd)
  next
    case (Some e)
    have "fst (build_awareness en pid path st) = Inr (Some (combine_awareness en e
        (cache_view (en_codec en) (cache_open (ss_analysis_db st)) (pid, path))
        (tracker_active_agent (en_now en) path (ss_agent_tracker st))
        (get_reference_count path (ss_agent_tracker st))))"
      by (simp add: build_awareness_def rd Some read_cache_def assms(4) Let_def
          cache_ops_succeed(1)[OF ca] get_active_agent_def)
    with spec Some show ?thesis
      by (auto simp: combine_awareness_def from_event_minimal_def Let_def split: option.split
          intro!: bexI[of _ e])
  qed
qed

definition demo_env :: env where
  "demo_env = \<lparr>en_now = 100, en_fmt = byte_fmt, en_parse = byte_parse, en_json_time = byte_fmt,
     en_order = stable_desc, en_codec = demo_codec, en_disk = demo_disk, en_canonicalize = Some,
     en_start_error = None, en_watch_error = (\<lambda>_. None), en_store_opens = True, en_cache_opens = True\<rparr>"

definition demo_state :: server_state where
  "demo_state = with_machine_id ''/db'' ''m'' log_db database_empty"

lemma demo_env_ok: "env_ok demo_env {0..<256}"
  by (simp add: env_ok_def demo_env_def byte_time_text_ok stable_desc_ok)

lemma demo_state_log: "holds_log (en_fmt demo_env) {0..<256} (ss_db demo_state)
    [(1, log_event 5 ''a''), (2, log_event 9 ''b''), (3, log_event 7 ''a'')]"
  by (simp add: demo_state_def demo_env_def with_machine_id_def log_holds)

theorem awareness_of_newest_event_witness:
  "\<exists>a. fst (build_awareness demo_env ''p'' ''a'' demo_state) = Inr (Some a) \<and> aw_last_modified a = 7"
proof -
  have o: "en_store_opens demo_env" "en_cache_opens demo_env" by (simp_all add: demo_env_def)
  have c: "cache_ok (ss_analysis_db demo_state) \<or> db_analysis (ss_analysis_db demo_state) = None"
    by (simp add: demo_state_def with_machine_id_def database_empty_def)
  from awareness_of_newest_event[OF demo_env_ok demo_state_log o c, of "''p''" "''a''"] show ?thesis
    by (auto simp: log_event_def file_event_new_def split: sum.splits option.splits)
qed

end
