(* ===== verification/Socket.thy ===== *)
theory Socket
  imports Server_State Protocol
begin

text \<open>
  The request handlers and the connection loop of \<open>crates/ambient-fs-server/src/socket.rs\<close>.  A
  handler takes the request and the shared state and returns its response, or \<open>None\<close> where chrono
  panics and the connection's task dies, with the new state.  Tasks that the code spawns and does
  not wait for (persisting a watched project) are done at once.
\<close>

subsection \<open>Connections\<close>

text \<open>The receivers of a connection, in the iteration order of its map.\<close>

type_synonym conn_state = "(string \<times> receiver) list"

definition add_subscription :: "string \<Rightarrow> receiver \<Rightarrow> conn_state \<Rightarrow> conn_state" where
  "add_subscription pid r c = upsert fst (pid, r) c"

definition remove_subscription :: "string \<Rightarrow> conn_state \<Rightarrow> bool \<times> conn_state" where
  "remove_subscription pid c = (pid \<in> fst ` set c, filter (\<lambda>(p, _). p \<noteq> pid) c)"

definition has_subscriptions :: "conn_state \<Rightarrow> bool" where
  "has_subscriptions c = (c \<noteq> [])"

text \<open>The receivers that leave a connection are dropped.\<close>

definition drop_project_receivers :: "string \<Rightarrow> conn_state \<Rightarrow> sub_manager \<Rightarrow> sub_manager" where
  "drop_project_receivers pid c m =
     fold (\<lambda>(p, r) m. if p = pid then drop_receiver r m else m) c m"

subsection \<open>Parameters of requests\<close>

definition object_params :: "request \<Rightarrow> fields option" where
  "object_params rq = (case rq_params rq of Some (ParamsObject fs) \<Rightarrow> Some fs | _ \<Rightarrow> None)"

text \<open>A handler's result: the response or a panic, and the state.\<close>

type_synonym 's handled = "response option \<times> 's"

definition reply :: "msg_id \<Rightarrow> json \<Rightarrow> 's \<Rightarrow> 's handled" where
  "reply i v s = (Some (response_result i v), s)"

definition refuse :: "msg_id \<Rightarrow> proto_error \<Rightarrow> 's \<Rightarrow> 's handled" where
  "refuse i e s = (Some (response_error i e), s)"

text \<open>The \<open>project_id\<close> of the handlers that tell a missing params object from a missing key.\<close>

definition with_project_id ::
  "request \<Rightarrow> 's \<Rightarrow> (string \<Rightarrow> 's handled) \<Rightarrow> 's handled" where
  "with_project_id rq s f =
     (case object_params rq of
        None \<Rightarrow> refuse (rq_id rq) (err_invalid_params ''params object with project_id is required'') s
      | Some fs \<Rightarrow>
          (case get_str ''project_id'' fs of
             None \<Rightarrow> refuse (rq_id rq) (err_invalid_params ''project_id is required and must be a string'') s
           | Some pid \<Rightarrow> f pid))"

text \<open>A required string whose absence and whose missing object give the same error.\<close>

definition with_str ::
  "string \<Rightarrow> string \<Rightarrow> request \<Rightarrow> 's \<Rightarrow> (string \<Rightarrow> 's handled) \<Rightarrow> 's handled" where
  "with_str key msg rq s f =
     (case Option.bind (object_params rq) (get_str key) of
        None \<Rightarrow> refuse (rq_id rq) (err_invalid_params msg) s
      | Some v \<Rightarrow> f v)"

subsection \<open>Subscriptions\<close>

definition handle_subscribe ::
  "request \<Rightarrow> server_state \<times> conn_state \<Rightarrow> (server_state \<times> conn_state) handled" where
  "handle_subscribe rq s =
     with_project_id rq s (\<lambda>pid.
       (let (st, c) = s;
            (r, m) = subscribe pid (ss_subscriptions st);
            m' = drop_project_receivers pid c m in
        reply (rq_id rq) (JObj [(''subscribed'', JBool True), (''project_id'', JStr pid)])
          (st\<lparr>ss_subscriptions := m'\<rparr>, add_subscription pid r c)))"

definition handle_unsubscribe ::
  "request \<Rightarrow> server_state \<times> conn_state \<Rightarrow> (server_state \<times> conn_state) handled" where
  "handle_unsubscribe rq s =
     with_project_id rq s (\<lambda>pid.
       (let (st, c) = s;
            m = unsubscribe pid (drop_project_receivers pid c (ss_subscriptions st)) in
        reply (rq_id rq) (JBool True)
          (st\<lparr>ss_subscriptions := m\<rparr>, snd (remove_subscription pid c))))"

subsection \<open>Watching projects\<close>

definition project_id_of :: "string \<Rightarrow> string" where
  "project_id_of path =
     (case Option.bind (file_name path) to_str of None \<Rightarrow> ''unknown'' | Some n \<Rightarrow> n)"

definition same_path :: "string \<Rightarrow> string \<Rightarrow> bool" where
  "same_path p q = (components p = components q)"

definition handle_watch_project :: "env \<Rightarrow> request \<Rightarrow> server_state \<Rightarrow> server_state handled" where
  "handle_watch_project en rq st =
     with_str ''path'' ''path is required and must be a string'' rq st (\<lambda>path_str.
       let i = rq_id rq in
       if \<not> dk_exists (en_disk en) path_str
         then refuse i (err_invalid_path (''path does not exist: '' @ path_str)) st
       else if \<not> dk_is_dir (en_disk en) path_str
         then refuse i (err_invalid_path (''path is not a directory: '' @ path_str)) st
       else (case en_canonicalize en path_str of
         None \<Rightarrow> refuse i (err_invalid_path (''cannot canonicalize path: '' @ path_str)) st
       | Some canonical \<Rightarrow>
           (let pid = project_id_of canonical in
            if (case get_project pid st of None \<Rightarrow> False | Some p \<Rightarrow> same_path p canonical)
              then refuse i (err_already_watching (''already watching: '' @ path_str)) st
            else (case fw_start (en_start_error en) (fs_watcher_new pid (ss_machine_id st)) of
              (Inl _, _) \<Rightarrow> refuse i (err_watch_failed (''failed to start watcher for: '' @ path_str)) st
            | (Inr _, w) \<Rightarrow>
                (case fw_watch (en_disk en) (en_watch_error en canonical) canonical w of
                   Inl e \<Rightarrow> refuse i (err_watch_failed
                     (''failed to watch '' @ path_str @ '': '' @ watch_error_text e)) st
                 | Inr w' \<Rightarrow>
                     (let st1 = add_watcher pid w' (add_project pid canonical st);
                          st2 = snd (on_store en (\<lambda>db. bind_res
                            (store_add_project (en_fmt en) (en_now en) pid canonical db) (\<lambda>db'. Inr ((), db'))) st1) in
                      reply i (JObj [(''watching'', JBool True), (''project_id'', JStr pid)]) st2))))))"

definition handle_unwatch_project :: "env \<Rightarrow> request \<Rightarrow> server_state \<Rightarrow> server_state handled" where
  "handle_unwatch_project en rq st =
     with_str ''project_id'' ''project_id is required and must be a string'' rq st (\<lambda>pid.
       case get_project pid st of
         None \<Rightarrow> refuse (rq_id rq) (err_project_not_found pid) st
       | Some path \<Rightarrow>
           (let st1 = snd (remove_watcher pid st);
                st2 = snd (remove_project pid st1);
                st3 = snd (on_store en (\<lambda>db. bind_res (store_remove_project pid db) (\<lambda>db'. Inr ((), db'))) st2) in
            reply (rq_id rq) (JBool True) st3))"

subsection \<open>Agents\<close>

definition agents_key :: "string \<Rightarrow> string" where
  "agents_key path = ''agents:'' @ to_string_lossy path"

definition handle_watch_agents :: "env \<Rightarrow> request \<Rightarrow> server_state \<Rightarrow> server_state handled" where
  "handle_watch_agents en rq st =
     with_str ''path'' ''path is required and must be a string'' rq st (\<lambda>path.
       let i = rq_id rq in
       if \<not> dk_exists (en_disk en) path
         then refuse i (err_invalid_path (''path does not exist: '' @ to_string_lossy path)) st
       else if \<not> dk_is_dir (en_disk en) path
         then refuse i (err_invalid_path (''path is not a directory: '' @ to_string_lossy path)) st
       else reply i (JObj [(''watching'', JBool True), (''path'', JStr (to_string_lossy path))])
              (add_project (agents_key path) path st))"

definition handle_unwatch_agents :: "request \<Rightarrow> server_state \<Rightarrow> server_state handled" where
  "handle_unwatch_agents rq st =
     with_str ''path'' ''path is required and must be a string'' rq st (\<lambda>path.
       reply (rq_id rq) (JBool True) (snd (remove_project (agents_key path) st)))"

definition json_agent :: "agent_state \<Rightarrow> json" where
  "json_agent a = JObj
     [(''agent_id'', JStr (ag_agent_id a)), (''files'', JArr (map JStr (ag_files a))),
      (''last_seen'', JInt (ag_last_seen a div nanos_per_sec)), (''intent'', json_opt JStr (ag_intent a)),
      (''tool'', json_opt JStr (ag_tool a)), (''session'', json_opt JStr (ag_session a))]"

definition handle_query_agents :: "env \<Rightarrow> request \<Rightarrow> server_state \<Rightarrow> server_state handled" where
  "handle_query_agents en rq st =
     (let agents = get_all_agents (en_now en) (ss_agent_tracker st);
          shown = (case Option.bind (object_params rq) (get_str ''file'') of
                     None \<Rightarrow> agents | Some f \<Rightarrow> filter (\<lambda>a. f \<in> set (ag_files a)) agents) in
      reply (rq_id rq) (JArr (map json_agent shown)) st)"

definition handle_report_agent_activity :: "env \<Rightarrow> request \<Rightarrow> server_state \<Rightarrow> server_state handled" where
  "handle_report_agent_activity en rq st =
     (case object_params rq of
        None \<Rightarrow> refuse (rq_id rq) (err_invalid_params ''params must be an object'') st
      | Some fs \<Rightarrow>
          (case dec_activity (JObj (norm_obj fs)) of
             Inl e \<Rightarrow> refuse (rq_id rq) (err_invalid_params (''invalid activity params: '' @ e)) st
           | Inr a \<Rightarrow>
               reply (rq_id rq) (JObj [(''recorded'', JBool True)])
                 (st\<lparr>ss_agent_tracker := update_from_activity (en_now en) a (ss_agent_tracker st)\<rparr>)))"

subsection \<open>Queries\<close>

text \<open>The filter of \<open>query_events\<close>: \<open>Inl None\<close> where chrono panics, \<open>Inl (Some e)\<close> for an error.\<close>

definition events_filter :: "env \<Rightarrow> fields \<Rightarrow> proto_error option + event_filter" where
  "events_filter en fs =
     (let f0 = event_filter_new;
          f1 = (case get_str ''project_id'' fs of None \<Rightarrow> f0 | Some pid \<Rightarrow> filter_project_id pid f0) in
      bind_res
        (case Option.bind (obj_get ''since'' fs) as_i64 of
           None \<Rightarrow> Inr f1
         | Some secs \<Rightarrow>
             (case Option.bind (checked_seconds secs) (utc_minus (en_now en)) of
                None \<Rightarrow> Inl None | Some t \<Rightarrow> Inr (filter_since t f1))) (\<lambda>f2.
      bind_res
        (case get_str ''source'' fs of
           None \<Rightarrow> Inr f2
         | Some src \<Rightarrow>
             (case source_from_str src of
                Inl _ \<Rightarrow> Inl (Some (err_invalid_params (''invalid source: '' @ src)))
              | Inr v \<Rightarrow> Inr (filter_source v f2))) (\<lambda>f3.
      Inr (case Option.bind (obj_get ''limit'' fs) as_u64 of None \<Rightarrow> f3 | Some n \<Rightarrow> filter_limit n f3))))"

definition handle_query_events :: "env \<Rightarrow> request \<Rightarrow> server_state \<Rightarrow> server_state handled" where
  "handle_query_events en rq st =
     (case rq_params rq of
        Some (ParamsArray _) \<Rightarrow> refuse (rq_id rq) (err_invalid_params ''params must be an object'') st
      | _ \<Rightarrow>
          (let fs = (case object_params rq of None \<Rightarrow> [] | Some fs \<Rightarrow> fs) in
           case events_filter en fs of
             Inl None \<Rightarrow> (None, st)
           | Inl (Some e) \<Rightarrow> refuse (rq_id rq) e st
           | Inr f \<Rightarrow>
               (let (res, st') = read_store en (store_query (en_order en) (en_fmt en) (en_parse en) f) st;
                    events = (case res of Inl _ \<Rightarrow> [] | Inr es \<Rightarrow> es) in
                reply (rq_id rq) (JArr (map (json_event (en_json_time en)) events)) st')))"

definition handle_query_awareness :: "env \<Rightarrow> request \<Rightarrow> server_state \<Rightarrow> server_state handled" where
  "handle_query_awareness en rq st =
     (case object_params rq of
        None \<Rightarrow> refuse (rq_id rq) (err_invalid_params ''params must be an object'') st
      | Some fs \<Rightarrow>
          with_str ''project_id'' ''project_id is required'' rq st (\<lambda>pid.
          with_str ''path'' ''path is required'' rq st (\<lambda>path.
            (let (res, st') = build_awareness en pid path st in
             reply (rq_id rq)
               (case res of Inr (Some a) \<Rightarrow> json_awareness (en_json_time en) a | _ \<Rightarrow> JNull) st'))))"

fun json_tree :: "tree_node \<Rightarrow> json" where
  "json_tree (TreeNode name path is_dir cs) = JObj
     [(''name'', JStr name), (''path'', JStr path), (''is_dir'', JBool is_dir),
      (''children'', JArr (map json_tree cs))]"

definition handle_query_tree :: "request \<Rightarrow> server_state \<Rightarrow> server_state handled" where
  "handle_query_tree rq st =
     with_project_id rq st (\<lambda>pid.
       case get_tree pid st of
         Some t \<Rightarrow> reply (rq_id rq) (json_tree (pt_root t)) st
       | None \<Rightarrow> refuse (rq_id rq) (err_project_not_found pid) st)"

subsection \<open>Explicit attribution\<close>

definition attribution_event ::
  "env \<Rightarrow> string \<Rightarrow> string \<Rightarrow> string \<Rightarrow> source \<Rightarrow> string option \<Rightarrow> file_event" where
  "attribution_event en mid path pid src sid =
     (let e = with_source src (file_event_new (en_now en) Modified path pid mid) in
      case sid of None \<Rightarrow> e | Some i \<Rightarrow> with_source_id i e)"

definition store_event :: "env \<Rightarrow> file_event \<Rightarrow> server_state \<Rightarrow> (store_error + int) \<times> server_state" where
  "store_event en e st = on_store en (store_insert (en_fmt en) e) st"

definition publish :: "notif \<Rightarrow> server_state \<Rightarrow> server_state" where
  "publish n st = st\<lparr>ss_subscriptions := snd (broadcast n (ss_subscriptions st))\<rparr>"

text \<open>Inserting and publishing are one step here; the code awaits between them, so that another task may publish
  in between.\<close>

definition handle_attribute :: "env \<Rightarrow> request \<Rightarrow> server_state \<Rightarrow> server_state handled" where
  "handle_attribute en rq st =
     (case object_params rq of
        None \<Rightarrow> refuse (rq_id rq) (err_invalid_params ''params must be an object'') st
      | Some fs \<Rightarrow>
          with_str ''file_path'' ''file_path is required'' rq st (\<lambda>path.
          with_str ''project_id'' ''project_id is required'' rq st (\<lambda>pid.
          with_str ''source'' ''source is required'' rq st (\<lambda>src.
          case source_from_str src of
            Inl _ \<Rightarrow> refuse (rq_id rq) (err_invalid_params (''invalid source: '' @ src)) st
          | Inr source \<Rightarrow>
              (let e = attribution_event en (ss_machine_id st) path pid source (get_str ''source_id'' fs) in
               case store_event en e st of
                 (Inl _, st') \<Rightarrow> refuse (rq_id rq) err_internal st'
               | (Inr _, st') \<Rightarrow>
                   reply (rq_id rq) (JObj [(''attributed'', JBool True)]) (publish (NEvent e) st'))))))"

subsection \<open>Dispatch\<close>

definition lift_handled :: "conn_state \<Rightarrow> server_state handled \<Rightarrow> (server_state \<times> conn_state) handled" where
  "lift_handled c h = (fst h, (snd h, c))"

definition handle_request ::
  "env \<Rightarrow> request \<Rightarrow> server_state \<times> conn_state \<Rightarrow> (server_state \<times> conn_state) handled" where
  "handle_request en rq s =
     (case method_from_str (rq_method rq) of
        Inl _ \<Rightarrow> refuse (rq_id rq) (err_method_not_found (rq_method rq)) s
      | Inr m \<Rightarrow>
          (let (st, c) = s in
           case m of
             Subscribe \<Rightarrow> handle_subscribe rq s
           | Unsubscribe \<Rightarrow> handle_unsubscribe rq s
           | QueryEvents \<Rightarrow> lift_handled c (handle_query_events en rq st)
           | QueryAwareness \<Rightarrow> lift_handled c (handle_query_awareness en rq st)
           | WatchProject \<Rightarrow> lift_handled c (handle_watch_project en rq st)
           | UnwatchProject \<Rightarrow> lift_handled c (handle_unwatch_project en rq st)
           | WatchAgents \<Rightarrow> lift_handled c (handle_watch_agents en rq st)
           | UnwatchAgents \<Rightarrow> lift_handled c (handle_unwatch_agents rq st)
           | QueryAgents \<Rightarrow> lift_handled c (handle_query_agents en rq st)
           | QueryTree \<Rightarrow> lift_handled c (handle_query_tree rq st)
           | Attribute \<Rightarrow> lift_handled c (handle_attribute en rq st)
           | ReportAgentActivity \<Rightarrow> lift_handled c (handle_report_agent_activity en rq st)))"

subsection \<open>The connection loop\<close>

text \<open>One line of the client: nothing is sent for a blank one; \<open>parse_json\<close> is the crate's parser.\<close>

definition handle_line ::
  "(string \<Rightarrow> string + json) \<Rightarrow> env \<Rightarrow> string \<Rightarrow> server_state \<times> conn_state
    \<Rightarrow> response option option \<times> server_state \<times> conn_state" where
  "handle_line parse_json en line s =
     (let t = str_trim line in
      if t = [] then (None, s)
      else (case bind_res (parse_json t) dec_request of
              Inl _ \<Rightarrow> (Some (Some (response_error IdNull err_parse)), s)
            | Inr rq \<Rightarrow> (let (r, s') = handle_request en rq s in (Some r, s'))))"

definition json_patch :: "tree_patch \<Rightarrow> json" where
  "json_patch p =
     (case p of
        PatchAdd path d \<Rightarrow> JObj [(''op'', JStr ''add''), (''path'', JStr path), (''is_dir'', JBool d)]
      | PatchRemove path \<Rightarrow> JObj [(''op'', JStr ''remove''), (''path'', JStr path)]
      | PatchRename old new d \<Rightarrow> JObj [(''op'', JStr ''rename''), (''old_path'', JStr old),
          (''new_path'', JStr new), (''is_dir'', JBool d)])"

definition json_notif :: "env \<Rightarrow> notif \<Rightarrow> json" where
  "json_notif en n =
     (let (meth, ps) = (case n of
         NEvent e \<Rightarrow> (''event'', json_event (en_json_time en) e)
       | NAwareness pid path a \<Rightarrow> (''awareness_changed'', JObj [(''project_id'', JStr pid),
           (''file_path'', JStr path), (''awareness'', json_awareness (en_json_time en) a)])
       | NAnalysis pid path lines todos \<Rightarrow> (''analysis_complete'', JObj [(''project_id'', JStr pid),
           (''file_path'', JStr path), (''line_count'', json_u32 lines), (''todo_count'', json_u32 todos)])
       | NTreePatch pid p \<Rightarrow> (''tree_patch'', JObj [(''project_id'', JStr pid), (''patch'', json_patch p)])) in
      JObj [(''jsonrpc'', JStr ''2.0''), (''method'', JStr meth), (''params'', ps)])"

text \<open>One round over the subscriptions: at most one message each, up to a closed channel.\<close>

fun poll_subs ::
  "sub_manager \<Rightarrow> conn_state \<Rightarrow> notif list \<times> conn_state \<times> string option" where
  "poll_subs m [] = ([], [], None)"
| "poll_subs m ((pid, r) # c) =
     (case receive r m of
        (Closed, _) \<Rightarrow> ([], (pid, r) # c, Some pid)
      | (res, r') \<Rightarrow>
          (let (ns, c', closed) = poll_subs m c in
           ((case res of Got n \<Rightarrow> n # ns | _ \<Rightarrow> ns), (pid, r') # c', closed)))"

definition poll_round :: "server_state \<times> conn_state \<Rightarrow> notif list \<times> server_state \<times> conn_state" where
  "poll_round s =
     (let (st, c) = s; (ns, c', closed) = poll_subs (ss_subscriptions st) c in
      case closed of
        None \<Rightarrow> (ns, st, c')
      | Some pid \<Rightarrow>
          (ns, st\<lparr>ss_subscriptions := drop_project_receivers pid c' (ss_subscriptions st)\<rparr>,
           snd (remove_subscription pid c')))"

text \<open>What reaches the connection: a line, the 10 ms tick with subscriptions, or something that the
  rest of the daemon does to the shared state meanwhile.  A line comes with a poll round of its own before it; the
  code may also take a line within 10 ms of the last round without another.\<close>

datatype conn_event = Line string | Tick | Others "server_state \<Rightarrow> server_state"

datatype wire = WResponse response | WNotification notif

fun conn_run ::
  "(string \<Rightarrow> string + json) \<Rightarrow> env \<Rightarrow> conn_event list \<Rightarrow> server_state \<times> conn_state \<Rightarrow> wire list" where
  "conn_run pj en [] s = []"
| "conn_run pj en (Others f # evs) s = conn_run pj en evs (f (fst s), snd s)"
| "conn_run pj en (Tick # evs) s =
     (let (ns, s') = poll_round s in map WNotification ns @ conn_run pj en evs s')"
| "conn_run pj en (Line l # evs) s =
     (let (ns, s1) = poll_round s in
      map WNotification ns @
      (case handle_line pj en l s1 of
         (None, s2) \<Rightarrow> conn_run pj en evs s2
       | (Some None, s2) \<Rightarrow> []
       | (Some (Some r), s2) \<Rightarrow> WResponse r # conn_run pj en evs s2))"

subsection \<open>Every request is answered\<close>

text \<open>A response that answers a request: its id, and a result or an error but not both.\<close>

definition answers :: "msg_id \<Rightarrow> response \<Rightarrow> bool" where
  "answers i r \<longleftrightarrow> rs_id r = i \<and> rs_jsonrpc r = ''2.0'' \<and> (rs_result r = None) \<noteq> (rs_error r = None)"

named_theorems answer_intros \<open>handlers answer their request\<close>

definition answered :: "msg_id \<Rightarrow> 's handled \<Rightarrow> bool" where
  "answered i h \<longleftrightarrow> (case fst h of None \<Rightarrow> False | Some r \<Rightarrow> answers i r)"

lemma answered_reply [answer_intros, simp]: "answered i (reply i v s)"
  by (simp add: answered_def reply_def answers_def response_result_def)

lemma answered_refuse [answer_intros, simp]: "answered i (refuse i e s)"
  by (simp add: answered_def refuse_def answers_def response_error_def)

lemma answered_with_project_id [answer_intros]:
  "(\<And>pid. answered (rq_id rq) (f pid)) \<Longrightarrow> answered (rq_id rq) (with_project_id rq s f)"
  by (auto simp: with_project_id_def split: option.split)

lemma answered_with_str [answer_intros]:
  "(\<And>v. answered (rq_id rq) (f v)) \<Longrightarrow> answered (rq_id rq) (with_str k msg rq s f)"
  by (auto simp: with_str_def split: option.split)

lemma answered_lift [simp]: "answered i (lift_handled c h) = answered i h"
  by (simp add: answered_def lift_handled_def)

lemma answered_handlers [answer_intros]:
  "answered (rq_id rq) (handle_subscribe rq s)"
  "answered (rq_id rq) (handle_unsubscribe rq s)"
  "answered (rq_id rq) (handle_query_awareness en rq st)"
  "answered (rq_id rq) (handle_watch_project en rq st)"
  "answered (rq_id rq) (handle_unwatch_project en rq st)"
  "answered (rq_id rq) (handle_watch_agents en rq st)"
  "answered (rq_id rq) (handle_unwatch_agents rq st)"
  "answered (rq_id rq) (handle_query_agents en rq st)"
  "answered (rq_id rq) (handle_query_tree rq st)"
  "answered (rq_id rq) (handle_attribute en rq st)"
  "answered (rq_id rq) (handle_report_agent_activity en rq st)"
  unfolding handle_subscribe_def handle_unsubscribe_def handle_query_awareness_def handle_watch_project_def
    handle_unwatch_project_def handle_watch_agents_def handle_unwatch_agents_def handle_query_agents_def
    handle_query_tree_def handle_attribute_def handle_report_agent_activity_def Let_def split_beta
  by (auto intro!: answered_with_project_id answered_with_str split: option.split sum.split prod.split)

text \<open>The one panic: \<open>since\<close> out of chrono's range.\<close>

definition request_panics :: "env \<Rightarrow> request \<Rightarrow> bool" where
  "request_panics en rq \<longleftrightarrow>
     rq_method rq = ''query_events'' \<and>
     (case Option.bind (object_params rq) (\<lambda>fs. Option.bind (obj_get ''since'' fs) as_i64) of
        None \<Rightarrow> False
      | Some secs \<Rightarrow> Option.bind (checked_seconds secs) (utc_minus (en_now en)) = None)"

lemma events_filter_panics:
  "events_filter en fs = Inl None \<longleftrightarrow>
     (case Option.bind (obj_get ''since'' fs) as_i64 of
        None \<Rightarrow> False
      | Some secs \<Rightarrow> Option.bind (checked_seconds secs) (utc_minus (en_now en)) = None)"
  by (auto simp: events_filter_def Let_def bind_res_Inl split: option.splits sum.splits)

lemma query_events_answered:
  "if case Option.bind (object_params rq) (\<lambda>fs. Option.bind (obj_get ''since'' fs) as_i64) of
        None \<Rightarrow> False
      | Some secs \<Rightarrow> Option.bind (checked_seconds secs) (utc_minus (en_now en)) = None
   then fst (handle_query_events en rq st) = None
   else answered (rq_id rq) (handle_query_events en rq st)"
proof (cases "rq_params rq")
  case None
  then show ?thesis
    using events_filter_panics[of en "[]"]
    by (auto simp: handle_query_events_def object_params_def Let_def obj_get_def split_beta
        split: sum.split option.split)
next
  case (Some ps)
  show ?thesis
  proof (cases ps)
    case (ParamsArray vs)
    with Some show ?thesis by (simp add: handle_query_events_def object_params_def)
  next
    case (ParamsObject fs)
    with Some show ?thesis
      using events_filter_panics[of en fs]
      by (auto simp: handle_query_events_def object_params_def Let_def split_beta
          split: sum.split option.splits)
  qed
qed

lemma handle_request_answered:
  "if request_panics en rq then fst (handle_request en rq s) = None
   else answered (rq_id rq) (handle_request en rq s)"
proof (cases "method_from_str (rq_method rq)")
  case (Inl e)
  then have "rq_method rq \<noteq> ''query_events''" by (auto simp: method_from_str_def)
  with Inl show ?thesis by (simp add: handle_request_def request_panics_def)
next
  case (Inr m)
  show ?thesis
  proof (cases "m = QueryEvents")
    case True
    then have "rq_method rq = ''query_events''" using Inr method_text.parse_sound[of "rq_method rq" m] by simp
    then show ?thesis
      using Inr True query_events_answered[where rq = rq and en = en and st = "fst s"]
      by (auto simp: handle_request_def request_panics_def split_beta lift_handled_def answered_def)
  next
    case False
    then have "rq_method rq \<noteq> ''query_events''" using Inr by (auto simp: method_from_str_def)
    with Inr False show ?thesis
      by (cases m) (simp_all add: handle_request_def request_panics_def split_beta answered_handlers)
  qed
qed

subsection \<open>The lines of a connection\<close>

definition line_request :: "(string \<Rightarrow> string + json) \<Rightarrow> string \<Rightarrow> request option" where
  "line_request pj l = ok_of (bind_res (pj (str_trim l)) dec_request)"

definition line_id :: "(string \<Rightarrow> string + json) \<Rightarrow> string \<Rightarrow> msg_id" where
  "line_id pj l = (case line_request pj l of None \<Rightarrow> IdNull | Some rq \<Rightarrow> rq_id rq)"

definition line_panics :: "(string \<Rightarrow> string + json) \<Rightarrow> env \<Rightarrow> string \<Rightarrow> bool" where
  "line_panics pj en l = (case line_request pj l of None \<Rightarrow> False | Some rq \<Rightarrow> request_panics en rq)"

fun asked :: "conn_event list \<Rightarrow> string list" where
  "asked [] = []"
| "asked (Line l # evs) = (if str_trim l = [] then asked evs else l # asked evs)"
| "asked (_ # evs) = asked evs"

fun answers_of :: "wire list \<Rightarrow> response list" where
  "answers_of [] = []"
| "answers_of (WResponse r # ws) = r # answers_of ws"
| "answers_of (WNotification n # ws) = answers_of ws"

lemma answers_of_notifs [simp]:
  "answers_of (map WNotification ns @ ws) = answers_of ws"
  "answers_of (map WNotification ns) = []"
  by (induction ns) auto

lemma handle_line_cases:
  "if str_trim l = [] then handle_line pj en l s = (None, s)
   else if line_panics pj en l then fst (handle_line pj en l s) = Some None
   else \<exists>r. fst (handle_line pj en l s) = Some (Some r) \<and> answers (line_id pj l) r"
proof (cases "bind_res (pj (str_trim l)) dec_request")
  case (Inl e)
  then show ?thesis
    by (simp add: handle_line_def Let_def line_panics_def line_request_def line_id_def answers_def response_error_def)
next
  case (Inr rq)
  then show ?thesis
    using handle_request_answered[where en = en and rq = rq and s = s]
    by (auto simp: handle_line_def Let_def line_panics_def line_request_def line_id_def answered_def split_beta
        split: option.splits if_splits)
qed

lemma conn_run_answers:
  "list_all2 (\<lambda>l r. answers (line_id pj l) r)
     (takeWhile (\<lambda>l. \<not> line_panics pj en l) (asked evs)) (answers_of (conn_run pj en evs s))"
proof (induction evs arbitrary: s)
  case (Cons ev evs)
  show ?case
  proof (cases ev)
    case (Line l)
    obtain ns s1 where p: "poll_round s = (ns, s1)" by (cases "poll_round s")
    obtain o1 s2 where h: "handle_line pj en l s1 = (o1, s2)" by (cases "handle_line pj en l s1")
    note c = handle_line_cases[where l = l and pj = pj and en = en and s = s1]
    consider "str_trim l = []" | "str_trim l \<noteq> []" "line_panics pj en l"
      | "str_trim l \<noteq> []" "\<not> line_panics pj en l" by blast
    then show ?thesis
    proof cases
      case 1
      then have "o1 = None" using c h by simp
      then show ?thesis using Cons.IH[of s2] 1 by (simp add: Line p h)
    next
      case 2
      then have "o1 = Some None" using c h by simp
      then show ?thesis using 2 by (simp add: Line p h)
    next
      case 3
      then obtain r where "o1 = Some (Some r)" "answers (line_id pj l) r" using c h by auto
      then show ?thesis using Cons.IH[of s2] 3 by (simp add: Line p h)
    qed
  qed (use Cons.IH in \<open>simp_all add: split_beta\<close>)
qed simp

subsection \<open>Properties\<close>

text \<open>
  Every request is answered: the handler returns a response with the request's id, the version
  2.0, and either a result or an error but not both; except for a \<open>query_events\<close> whose \<open>since\<close> is out
  of the range of chrono's durations or dates, where it panics.
\<close>

theorem every_request_answered:
  "case fst (handle_request en rq s) of
     None \<Rightarrow> request_panics en rq
   | Some r \<Rightarrow> \<not> request_panics en rq \<and> answers (rq_id rq) r"
  using handle_request_answered[where en = en and rq = rq and s = s]
  by (auto simp: answered_def split: option.splits if_splits)


text \<open>
  C8. An explicit attribution is recorded and announced: on a store that holds a log, a well-formed
  \<open>attribute\<close> request appends exactly one event with the given file, project, source and label and
  the server's machine and time, and publishes the same event to the project's subscribers.
\<close>

theorem attribute_records_and_publishes:
  assumes "holds_log (en_fmt en) T (ss_db st) L" and "en_now en \<in> T" and "en_store_opens en"
    and "key_seq (ss_db st) < max_i64"
    and "rq_method rq = ''attribute''" and "object_params rq = Some fs"
    and "get_str ''file_path'' fs = Some path" and "get_str ''project_id'' fs = Some pid"
    and "get_str ''source'' fs = Some (source_as_str src)"
  shows "let (r, st', c') = handle_request en rq (st, c);
             e = attribution_event en (ss_machine_id st) path pid src (get_str ''source_id'' fs) in
    (\<exists>q. r = Some q \<and> is_success q) \<and> c' = c \<and>
    holds_log (en_fmt en) T (ss_db st') (L @ [(key_seq (ss_db st) + 1, e)]) \<and>
    ss_subscriptions st' = snd (broadcast (NEvent e) (ss_subscriptions st)) \<and>
    ev_file_path e = path \<and> ev_project_id e = pid \<and> ev_source e = src \<and>
    ev_source_id e = get_str ''source_id'' fs"
proof -
  let ?e = "attribution_event en (ss_machine_id st) path pid src (get_str ''source_id'' fs)"
  let ?db = "event_store_new (ss_db st)"
  have k: "key_seq ?db = key_seq (ss_db st)"
    using event_store_new_holds[OF assms(1)] by (simp add: key_seq_def)
  have fields: "ev_timestamp ?e = en_now en" "ev_file_path ?e = path" "ev_project_id ?e = pid"
    "ev_source ?e = src" "ev_source_id ?e = get_str ''source_id'' fs"
    by (auto simp: attribution_event_def event_builder_defs Let_def split: option.split)
  obtain db' where db': "store_insert (en_fmt en) ?e ?db = Inr (key_seq (ss_db st) + 1, db')"
    "holds_log (en_fmt en) T db' (L @ [(key_seq (ss_db st) + 1, ?e)])"
    using store_insert_holds[OF event_store_new_log[OF assms(1)], of ?e] assms(2,4) k fields(1) by auto
  have "store_event en ?e st = (Inr (key_seq (ss_db st) + 1), st\<lparr>ss_db := db'\<rparr>)"
    by (simp add: store_event_def on_store_def assms(3) Let_def db'(1))
  moreover have "method_from_str ''attribute'' = Inr Attribute" by (simp add: method_from_str_def)
  ultimately show ?thesis
    using assms(5-9) db'(2) fields
    by (simp add: handle_request_def handle_attribute_def with_str_def source_text.parse_print Let_def
        lift_handled_def reply_def publish_def is_success_def response_result_def)
qed

theorem attribute_records_and_publishes_witness:
  "\<exists>r st' c'. handle_request demo_env
     (request_new ''attribute'' (Some (ParamsObject [(''file_path'', JStr ''a''), (''project_id'', JStr ''p''),
        (''source'', JStr ''git'')])) (IdNumber 3)) (demo_state, []) = (r, st', c') \<and>
     (\<exists>q. r = Some q \<and> is_success q) \<and>
     holds_log byte_fmt {0..<256} (ss_db st')
       [(1, log_event 5 ''a''), (2, log_event 9 ''b''), (3, log_event 7 ''a''),
        (4, attribution_event demo_env ''m'' ''a'' ''p'' Git None)]"
proof -
  let ?fs = "[(''file_path'', JStr ''a''), (''project_id'', JStr ''p''), (''source'', JStr ''git'')]"
  let ?rq = "request_new ''attribute'' (Some (ParamsObject ?fs)) (IdNumber 3)"
  have seq: "key_seq (ss_db demo_state) = 3"
    by (simp add: demo_state_def with_machine_id_def log_db_def store_insert_def event_store_new_def
        database_empty_def Let_def max_i64_def key_seq_def)
  have g: "get_str ''file_path'' ?fs = Some ''a''" "get_str ''project_id'' ?fs = Some ''p''"
    "get_str ''source'' ?fs = Some (source_as_str Git)" "get_str ''source_id'' ?fs = None"
    by (simp_all add: get_str_def obj_get_def)
  have o: "en_store_opens demo_env" "en_now demo_env \<in> {0..<256}" "key_seq (ss_db demo_state) < max_i64"
    "rq_method ?rq = ''attribute''" "object_params ?rq = Some ?fs"
    by (simp_all add: demo_env_def seq max_i64_def request_new_def object_params_def)
  have m: "ss_machine_id demo_state = ''m''" "en_fmt demo_env = byte_fmt"
    by (simp_all add: demo_state_def with_machine_id_def demo_env_def)
  from attribute_records_and_publishes[OF demo_state_log o(2,1,3-5) g(1-3), of "[]"] show ?thesis
    by (cases "handle_request demo_env ?rq (demo_state, [])") (auto simp: seq g(4) m Let_def)
qed

lemma demo_watch_answer:
  "\<exists>st'. handle_watch_project demo_env
      (request_new ''watch_project'' (Some (ParamsObject [(''path'', JStr ''/w'')])) IdNull) demo_state
    = (Some (response_result IdNull (JObj [(''watching'', JBool True), (''project_id'', JStr ''w'')])), st')"
proof -
  have pid: "project_id_of ''/w'' = ''w''" and c: "components ''/w'' = [RootDir, Normal ''w'']" by code_simp+
  show ?thesis
    by (simp add: handle_watch_project_def with_str_def request_new_def object_params_def get_str_def obj_get_def
        demo_env_def demo_disk_def pid demo_state_def with_machine_id_def state_defs fw_start_def fw_watch_def
        fs_watcher_new_def is_absolute_def starts_with_def slash_def reply_def Let_def)
qed

text \<open>
  \<open>watch_project\<close> builds no tree: after it succeeds for a project that has none, \<open>query_tree\<close>
  for the project id that it returned answers that the project is not found.
\<close>

theorem watched_project_has_no_tree:
  assumes "handle_watch_project en rq st = (Some r, st')"
    and "rs_result r = Some (JObj [(''watching'', JBool True), (''project_id'', JStr pid)])"
    and "ss_trees st pid = None" and "object_params tq = Some [(''project_id'', JStr pid)]"
  shows "ss_projects st' pid \<noteq> None \<and> ss_watchers st' pid \<noteq> None \<and>
    handle_query_tree tq st' = refuse (rq_id tq) (err_project_not_found pid) st'"
proof -
  have "ss_trees st' = ss_trees st \<and> ss_projects st' pid \<noteq> None \<and> ss_watchers st' pid \<noteq> None"
    using assms(1,2)
    by (auto simp: handle_watch_project_def with_str_def Let_def refuse_def reply_def response_error_def
        response_result_def state_defs split: option.splits if_splits sum.splits prod.splits)
  moreover have "get_str ''project_id'' [(''project_id'', JStr pid)] = Some pid"
    by (simp add: get_str_def obj_get_def)
  ultimately show ?thesis
    using assms(3,4) by (simp add: handle_query_tree_def with_project_id_def get_tree_def)
qed

theorem watched_project_has_no_tree_witness:
  "\<exists>r st'. handle_watch_project demo_env
      (request_new ''watch_project'' (Some (ParamsObject [(''path'', JStr ''/w'')])) IdNull) demo_state = (Some r, st') \<and>
    handle_query_tree (request_new ''query_tree'' (Some (ParamsObject [(''project_id'', JStr ''w'')])) IdNull) st'
      = refuse IdNull (err_project_not_found ''w'') st'"
proof -
  let ?rq = "request_new ''watch_project'' (Some (ParamsObject [(''path'', JStr ''/w'')])) IdNull"
  let ?tq = "request_new ''query_tree'' (Some (ParamsObject [(''project_id'', JStr ''w'')])) IdNull"
  obtain st' where st': "handle_watch_project demo_env ?rq demo_state = (Some (response_result IdNull
      (JObj [(''watching'', JBool True), (''project_id'', JStr ''w'')])), st')"
    using demo_watch_answer by blast
  have "handle_query_tree ?tq st' = refuse (rq_id ?tq) (err_project_not_found ''w'') st'"
    using watched_project_has_no_tree[OF st', of "''w''" ?tq]
    by (simp add: response_result_def demo_state_def with_machine_id_def request_new_def object_params_def)
  with st' show ?thesis by (simp add: request_new_def)
qed

end
