(* ===== verification/Grpc.thy ===== *)
theory Grpc
  imports Gateway Socket
begin

text \<open>
  The gRPC service of \<open>crates/ambient-fs-server/src/grpc.rs\<close>: the conversions of events, the unary
  calls and what the two streams carry.  A call returns a status or an answer, with the state;
  \<open>Died\<close> is a panic of the task and \<open>Hangs\<close> a call that never returns.
\<close>

datatype grpc_code = InvalidArgument | AlreadyExists | NotFound | Internal

datatype 'a grpc_result = Answer 'a | Status grpc_code string | Died | Hangs

subsection \<open>Conversions\<close>

text \<open>\<open>timestamp()\<close> is the number of whole seconds, rounded down.\<close>

definition file_event_to_message :: "file_event \<Rightarrow> event_message" where
  "file_event_to_message e =
     \<lparr>em_timestamp = ev_timestamp e div nanos_per_sec, em_event_type = event_type_as_str (ev_type e),
      em_file_path = ev_file_path e, em_project_id = ev_project_id e,
      em_source = source_as_str (ev_source e), em_source_id = ev_source_id e,
      em_machine_id = ev_machine_id e, em_content_hash = ev_content_hash e, em_old_path = ev_old_path e\<rparr>"

definition timestamp_opt :: "int \<Rightarrow> timestamp option" where
  "timestamp_opt secs = (let t = dur_seconds secs in if min_utc \<le> t \<and> t \<le> max_utc then Some t else None)"

definition message_to_file_event :: "timestamp \<Rightarrow> event_message \<Rightarrow> string \<Rightarrow> file_event option" where
  "message_to_file_event now m mid =
     Option.bind (ok_of (event_type_from_str (em_event_type m))) (\<lambda>et.
     Option.bind (ok_of (source_from_str (em_source m))) (\<lambda>src.
     Option.bind (timestamp_opt (em_timestamp m)) (\<lambda>ts.
       let e = with_source src ((file_event_new now et (em_file_path m) (em_project_id m) mid)\<lparr>ev_timestamp := ts\<rparr>);
           e1 = (case em_source_id m of None \<Rightarrow> e | Some i \<Rightarrow> with_source_id i e);
           e2 = (case em_content_hash m of None \<Rightarrow> e1 | Some h \<Rightarrow> with_content_hash h e1);
           e3 = (case em_old_path m of None \<Rightarrow> e2 | Some p \<Rightarrow> with_old_path p e2) in
       Some e3)))"

subsection \<open>Unary calls\<close>

definition grpc_watch_project :: "env \<Rightarrow> string \<Rightarrow> server_state \<Rightarrow> string grpc_result \<times> server_state" where
  "grpc_watch_project en path st =
     (if \<not> dk_exists (en_disk en) path
        then (Status InvalidArgument (''path does not exist: '' @ path), st)
      else if \<not> dk_is_dir (en_disk en) path
        then (Status InvalidArgument (''path is not a directory: '' @ path), st)
      else (case en_canonicalize en path of
        None \<Rightarrow> (Status InvalidArgument ''cannot canonicalize path'', st)
      | Some canonical \<Rightarrow>
          (let pid = project_id_of canonical in
           if (case get_project pid st of None \<Rightarrow> False | Some p \<Rightarrow> same_path p canonical)
             then (Status AlreadyExists (''already watching: '' @ path), st)
           else (case fw_start (en_start_error en) (fs_watcher_new pid (ss_machine_id st)) of
             (Inl _, _) \<Rightarrow> (Status Internal (''failed to start watcher for: '' @ path), st)
           | (Inr _, w) \<Rightarrow>
               (case fw_watch (en_disk en) (en_watch_error en canonical) canonical w of
                  Inl e \<Rightarrow> (Status Internal (''failed to watch '' @ path @ '': '' @ watch_error_text e), st)
                | Inr w' \<Rightarrow>
                    (Answer pid, snd (on_store en (\<lambda>db. bind_res
                       (store_add_project (en_fmt en) (en_now en) pid canonical db) (\<lambda>db'. Inr ((), db')))
                       (add_watcher pid w' (add_project pid canonical st)))))))))"

definition grpc_unwatch_project :: "env \<Rightarrow> string \<Rightarrow> server_state \<Rightarrow> bool grpc_result \<times> server_state" where
  "grpc_unwatch_project en pid st =
     (case get_project pid st of
        None \<Rightarrow> (Status NotFound (''project not found: '' @ pid), st)
      | Some path \<Rightarrow>
          (Answer True, snd (on_store en (\<lambda>db. bind_res (store_remove_project pid db) (\<lambda>db'. Inr ((), db')))
             (snd (remove_project pid (snd (remove_watcher pid st)))))))"

record query_request =
  qr_project_id :: "string option"
  qr_since :: "int option"
  qr_source :: "string option"
  qr_limit :: "int option"

text \<open>\<open>limit_val as usize\<close> extends the sign of the 32-bit number to 64 bits.\<close>

definition grpc_query_events ::
  "env \<Rightarrow> query_request \<Rightarrow> server_state \<Rightarrow> event_message list grpc_result \<times> server_state" where
  "grpc_query_events en q st =
     (let f1 = (case qr_project_id q of None \<Rightarrow> event_filter_new | Some p \<Rightarrow> filter_project_id p event_filter_new) in
      case (case qr_since q of
              None \<Rightarrow> Some f1
            | Some secs \<Rightarrow> map_option (\<lambda>t. filter_since t f1)
                (Option.bind (checked_seconds secs) (utc_minus (en_now en)))) of
        None \<Rightarrow> (Died, st)
      | Some f2 \<Rightarrow>
          (case (case qr_source q of
                   None \<Rightarrow> Inr f2
                 | Some s \<Rightarrow> bind_res (map_err (\<lambda>_. s) (source_from_str s)) (\<lambda>v. Inr (filter_source v f2))) of
             Inl s \<Rightarrow> (Status InvalidArgument (''invalid source: '' @ s), st)
           | Inr f3 \<Rightarrow>
               (let f4 = (case qr_limit q of None \<Rightarrow> f3 | Some n \<Rightarrow> filter_limit (nat (n mod 2 ^ 64)) f3) in
                case read_store en (store_query (en_order en) (en_fmt en) (en_parse en) f4) st of
                  (Inl _, st') \<Rightarrow> (Status Internal ''query failed'', st')
                | (Inr es, st') \<Rightarrow> (Answer (map file_event_to_message es), st'))))"

record awareness_response =
  wr_file_path :: string
  wr_project_id :: string
  wr_last_modified :: "string option"
  wr_modified_by :: "string option"
  wr_change_frequency :: string
  wr_todo_count :: int
  wr_lint_hints :: int
  wr_line_count :: int
  wr_active_agent :: "string option"

text \<open>\<open>dbg\<close> is chrono's \<open>Debug\<close> format; \<open>as i32\<close> reads the 32 bits as signed.\<close>

definition grpc_query_awareness ::
  "env \<Rightarrow> (timestamp \<Rightarrow> string) \<Rightarrow> string \<Rightarrow> string \<Rightarrow> server_state
    \<Rightarrow> awareness_response grpc_result \<times> server_state" where
  "grpc_query_awareness en dbg pid path st =
     (case build_awareness en pid path st of
        (Inl _, st') \<Rightarrow> (Status Internal ''failed to build awareness'', st')
      | (Inr None, st') \<Rightarrow> (Status NotFound ''no awareness data found'', st')
      | (Inr (Some a), st') \<Rightarrow>
          (Answer \<lparr>wr_file_path = path, wr_project_id = pid, wr_last_modified = Some (dbg (aw_last_modified a)),
             wr_modified_by = Some (source_as_str (aw_modified_by a)),
             wr_change_frequency = change_frequency_as_str (aw_change_frequency a),
             wr_todo_count = sint (aw_todo_count a), wr_lint_hints = 0, wr_line_count = sint (aw_line_count a),
             wr_active_agent = get_active_agent en path st'\<rparr>, st'))"

definition grpc_attribute ::
  "env \<Rightarrow> string \<Rightarrow> string \<Rightarrow> string \<Rightarrow> string option \<Rightarrow> server_state \<Rightarrow> bool grpc_result \<times> server_state" where
  "grpc_attribute en path pid src sid st =
     (case source_from_str src of
        Inl _ \<Rightarrow> (Status InvalidArgument (''invalid source: '' @ src), st)
      | Inr source \<Rightarrow>
          (let e = attribution_event en (ss_machine_id st) path pid source sid in
           case store_event en e st of
             (Inl _, st') \<Rightarrow> (Status Internal ''attribute failed'', st')
           | (Inr _, st') \<Rightarrow> (Answer True, publish (NEvent e) st')))"

subsection \<open>Streams\<close>

text \<open>The bridge from a subscription to the client: only events are passed on, and any receive error,
  a lag as well as a closed channel, ends the loop.  \<open>Empty\<close> is waiting.\<close>

fun bridge :: "notif recv_result list \<Rightarrow> event_message list" where
  "bridge [] = []"
| "bridge (Got (NEvent e) # rs) = file_event_to_message e # bridge rs"
| "bridge (Got _ # rs) = bridge rs"
| "bridge (Empty # rs) = bridge rs"
| "bridge (Lagged _ # rs) = []"
| "bridge (Closed # rs) = []"

definition grpc_subscribe :: "string \<Rightarrow> server_state \<Rightarrow> receiver \<times> server_state" where
  "grpc_subscribe pid st =
     (let (r, m) = subscribe pid (ss_subscriptions st) in (r, st\<lparr>ss_subscriptions := m\<rparr>))"

text \<open>Sending on the bounded channel of a stream whose reader has not been handed out yet: a send on a
  full channel waits for ever.\<close>

fun send_unread :: "nat \<Rightarrow> 'm list \<Rightarrow> 'm list \<Rightarrow> 'm list option" where
  "send_unread cap q [] = Some q"
| "send_unread cap q (m # ms) = (if length q < cap then send_unread cap (q @ [m]) ms else None)"

text \<open>The answer is what the stream carries when it is handed out, and the receiver it goes on with.\<close>

definition grpc_sync_events ::
  "env \<Rightarrow> string \<Rightarrow> int \<Rightarrow> server_state \<Rightarrow> (event_message list \<times> receiver) grpc_result \<times> server_state" where
  "grpc_sync_events en pid since st =
     (case timestamp_opt since of
        None \<Rightarrow> (Status InvalidArgument ''invalid timestamp'', st)
      | Some t \<Rightarrow>
          (case read_store en (store_query (en_order en) (en_fmt en) (en_parse en)
                  (filter_since t (filter_project_id pid event_filter_new))) st of
             (Inl _, st1) \<Rightarrow> (Status Internal ''sync failed'', st1)
           | (Inr es, st1) \<Rightarrow>
               (case send_unread relay_channel_size [] (map file_event_to_message es) of
                  None \<Rightarrow> (Hangs, st1)
                | Some q \<Rightarrow> (let (r, st2) = grpc_subscribe pid st1 in (Answer (q, r), st2)))))"

subsection \<open>Lemmas\<close>

text \<open>What a message keeps of an event: whole seconds, and everything but the machine.\<close>

definition carried :: "string \<Rightarrow> file_event \<Rightarrow> file_event" where
  "carried mid e = e\<lparr>ev_timestamp := dur_seconds (ev_timestamp e div nanos_per_sec), ev_machine_id := mid\<rparr>"

lemma message_round_trip:
  assumes "timestamp_opt (ev_timestamp e div nanos_per_sec) \<noteq> None"
  shows "message_to_file_event now (file_event_to_message e) mid = Some (carried mid e)"
proof -
  have "timestamp_opt (ev_timestamp e div nanos_per_sec) = Some (dur_seconds (ev_timestamp e div nanos_per_sec))"
    using assms by (auto simp: timestamp_opt_def Let_def split: if_splits)
  then show ?thesis
    by (cases e) (auto simp: message_to_file_event_def file_event_to_message_def carried_def event_builder_defs
        event_type_text.parse_print source_text.parse_print Let_def split: option.split)
qed

lemma send_unread_iff:
  "send_unread cap q ms = (if length q + length ms \<le> cap \<or> ms = [] then Some (q @ ms) else None)"
  by (induction ms arbitrary: q) (auto simp: not_less)

subsection \<open>Properties\<close>

text \<open>
  An event survives its protobuf message up to what the message carries: converting back succeeds
  and gives the same event with its time cut to whole seconds and with the machine that the receiver
  passes, so the conversion is the identity exactly for the receiver's own events on whole seconds.
  Bound: the time is in chrono's range.
\<close>

theorem message_round_trip_loses_fraction_and_origin:
  assumes "min_utc \<le> dur_seconds (ev_timestamp e div nanos_per_sec)" and "ev_timestamp e \<le> max_utc"
  shows "message_to_file_event now (file_event_to_message e) mid = Some (carried mid e) \<and>
    (carried mid e = e \<longleftrightarrow> ev_timestamp e mod nanos_per_sec = 0 \<and> ev_machine_id e = mid)"
proof -
  have div: "dur_seconds (t div nanos_per_sec) = t - t mod nanos_per_sec" for t
    by (simp add: dur_seconds_def minus_mod_eq_div_mult)
  have "dur_seconds (ev_timestamp e div nanos_per_sec) \<le> ev_timestamp e"
    unfolding div by (simp add: nanos_per_sec_def)
  then have "timestamp_opt (ev_timestamp e div nanos_per_sec) \<noteq> None"
    using assms by (simp add: timestamp_opt_def Let_def)
  moreover have "carried mid e = e \<longleftrightarrow> ev_timestamp e mod nanos_per_sec = 0 \<and> ev_machine_id e = mid"
    by (cases e) (auto simp: carried_def div)
  ultimately show ?thesis using message_round_trip by blast
qed

theorem message_round_trip_loses_fraction_and_origin_witness:
  "message_to_file_event 0 (file_event_to_message (log_event 1500000000 ''a'')) ''other''
     = Some (carried ''other'' (log_event 1500000000 ''a'')) \<and>
   carried ''other'' (log_event 1500000000 ''a'') \<noteq> log_event 1500000000 ''a''"
  using message_round_trip_loses_fraction_and_origin[of "log_event 1500000000 ''a''" 0 "''other''"]
  by (simp add: log_event_def file_event_new_def dur_defs min_utc_def max_utc_def)

text \<open>
  A sync call with more than 32 past events never answers: the handler sends them all into a
  channel of 32 places before it hands out the receiving end.  With at most 32 it answers with
  all of them, the newest first, and with a subscription that was made after they were read.
\<close>

lemma sync_events_spec:
  assumes "env_ok en T" and "holds_log (en_fmt en) T (ss_db st) L" and "en_store_opens en"
    and "timestamp_opt since = Some t" and "t \<in> T"
  shows "\<exists>es. mset es = mset (filter (\<lambda>e. ev_project_id e = pid \<and> t \<le> ev_timestamp e) (map snd L)) \<and> newest_first es \<and>
    grpc_sync_events en pid since st =
      (let st1 = st\<lparr>ss_db := event_store_new (ss_db st)\<rparr>; (r, m) = subscribe pid (ss_subscriptions st) in
       if 32 < length es then (Hangs, st1)
       else (Answer (map file_event_to_message es, r), st1\<lparr>ss_subscriptions := m\<rparr>))"
proof -
  let ?f = "filter_since t (filter_project_id pid event_filter_new)" and ?db = "event_store_new (ss_db st)"
  have p: "time_text_ok (en_fmt en) (en_parse en) T" "orders_desc (en_order en)"
    using assms(1) by (simp_all add: env_ok_def)
  have f: "set_option (flt_since ?f) \<subseteq> T" "\<forall>n \<in> set_option (flt_limit ?f). int n \<le> max_i64"
    "flt_limit ?f = None" "event_matches ?f = (\<lambda>e. ev_project_id e = pid \<and> t \<le> ev_timestamp e)"
    using assms(5) by (auto simp: filter_builder_defs event_matches_def)
  obtain es where es: "mset es = mset (filter (event_matches ?f) (map snd L))" "newest_first es"
    "store_query (en_order en) (en_fmt en) (en_parse en) ?f ?db = Inr es"
    using store_query_spec[OF p event_store_new_log[OF assms(2)] f(1,2)] unfolding f(3) by auto
  have "read_store en (store_query (en_order en) (en_fmt en) (en_parse en) ?f) st = (Inr es, st\<lparr>ss_db := ?db\<rparr>)"
    by (simp add: read_store_def on_store_def assms(3) Let_def es(3))
  then show ?thesis using es(1,2) unfolding f(4)
    by (intro exI[of _ es]) (auto simp: grpc_sync_events_def assms(4) send_unread_iff relay_channel_size_def
        grpc_subscribe_def Let_def split_beta)
qed

theorem sync_hangs_beyond_32_events:
  assumes "env_ok en T" and "holds_log (en_fmt en) T (ss_db st) L" and "en_store_opens en"
    and "timestamp_opt since = Some t" and "t \<in> T"
  shows "let past = filter (\<lambda>e. ev_project_id e = pid \<and> t \<le> ev_timestamp e) (map snd L) in
    (if 32 < length past then fst (grpc_sync_events en pid since st) = Hangs
     else \<exists>es r. fst (grpc_sync_events en pid since st) = Answer (map file_event_to_message es, r) \<and>
       mset es = mset past \<and> newest_first es)"
proof -
  obtain es where es: "mset es = mset (filter (\<lambda>e. ev_project_id e = pid \<and> t \<le> ev_timestamp e) (map snd L))"
    "newest_first es" "fst (grpc_sync_events en pid since st) = (if 32 < length es then Hangs
       else Answer (map file_event_to_message es, fst (subscribe pid (ss_subscriptions st))))"
    using sync_events_spec[OF assms, of pid] by (auto simp: Let_def split_beta)
  from es(1) have "length es = length (filter (\<lambda>e. ev_project_id e = pid \<and> t \<le> ev_timestamp e) (map snd L))"
    by (metis size_mset)
  then show ?thesis using es unfolding Let_def by metis
qed

theorem sync_hangs_beyond_32_events_witness:
  "timestamp_opt 0 = Some 0 \<and>
   (\<exists>es r. fst (grpc_sync_events demo_env ''p'' 0 demo_state) = Answer (map file_event_to_message es, r) \<and>
      newest_first es \<and> length es = 3)"
proof -
  have t: "timestamp_opt 0 = Some 0" by (simp add: timestamp_opt_def dur_defs min_utc_def max_utc_def)
  have o: "en_store_opens demo_env" by (simp add: demo_env_def)
  from sync_hangs_beyond_32_events[OF demo_env_ok demo_state_log o t, of "''p''"] obtain es r where
    "fst (grpc_sync_events demo_env ''p'' 0 demo_state) = Answer (map file_event_to_message es, r)"
    "newest_first es" "mset es = {#log_event 5 ''a'', log_event 9 ''b'', log_event 7 ''a''#}"
    by (auto simp: log_event_def file_event_new_def)
  moreover from calculation(3) have "length es = 3" by (metis mset.simps size_mset length_Cons list.size(3) numeral_3_eq_3)
  ultimately show ?thesis using t by blast
qed

end
