(* ===== verification/Sync.thy ===== *)
theory Sync
  imports Grpc
begin

text \<open>
  Synchronisation with peers, \<open>crates/ambient-fs-server/src/sync.rs\<close>.  The network is the outside: the
  result of connecting and calling is an argument, and so is what the peer's stream yields.
\<close>

datatype sync_error =
  SyncConnection string | SyncRpc string | SyncStream string | SyncConversion string | SyncStore string

record peer_config =
  peer_addr :: string
  peer_project_id :: string

definition peer_config_new :: "string \<Rightarrow> string \<Rightarrow> peer_config" where
  "peer_config_new addr pid = \<lparr>peer_addr = addr, peer_project_id = pid\<rparr>"

record sync_manager =
  sy_peers :: "peer_config list"
  sy_interval :: duration
  sy_last_sync :: "string \<Rightarrow> int option"

definition sync_manager_new :: "peer_config list \<Rightarrow> sync_manager" where
  "sync_manager_new ps = \<lparr>sy_peers = ps, sy_interval = dur_seconds 30, sy_last_sync = Map.empty\<rparr>"

definition with_interval :: "duration \<Rightarrow> sync_manager \<Rightarrow> sync_manager" where
  "with_interval d sy = sy\<lparr>sy_interval := d\<rparr>"

text \<open>What the peer's stream yields: messages, then its end, an error, or nothing more while it stays
  open.  A call on such a stream does not return; \<open>None\<close> is that outcome of \<open>sync_peer\<close>.\<close>

datatype stream_end = StreamEnd | StreamError string | StreamOpen

record peer_stream =
  ps_messages :: "event_message list"
  ps_end :: stream_end

text \<open>The request that a peer gets: project, own machine, since.\<close>

definition sync_request :: "server_state \<Rightarrow> peer_config \<Rightarrow> sync_manager \<Rightarrow> string \<times> string \<times> int" where
  "sync_request st p sy =
     (peer_project_id p, ss_machine_id st,
      (case sy_last_sync sy (peer_addr p) of None \<Rightarrow> 0 | Some t \<Rightarrow> t))"

definition same_event :: "file_event \<Rightarrow> file_event \<Rightarrow> bool" where
  "same_event a b \<longleftrightarrow> ev_timestamp a = ev_timestamp b \<and> ev_file_path a = ev_file_path b \<and>
     ev_machine_id a = ev_machine_id b"

text \<open>A panic of the blocking task, like an error of the store, counts as not present.\<close>

definition event_exists :: "env \<Rightarrow> file_event \<Rightarrow> server_state \<Rightarrow> bool \<times> server_state" where
  "event_exists en e st =
     (case utc_minus (ev_timestamp e) (dur_seconds 1) of
        None \<Rightarrow> (False, snd (read_store en (\<lambda>_. Inr () :: store_error + unit) st))
      | Some t \<Rightarrow>
          (case read_store en (store_query (en_order en) (en_fmt en) (en_parse en)
                  (filter_since t (filter_file_path (ev_file_path e)
                     (filter_project_id (ev_project_id e) event_filter_new)))) st of
             (Inl _, st') \<Rightarrow> (False, st')
           | (Inr es, st') \<Rightarrow> (list_ex (\<lambda>x. same_event x e) es, st')))"

text \<open>The loop over the stream; the events to insert are collected first, and the store is not
  written meanwhile.\<close>

fun collect_new ::
  "env \<Rightarrow> event_message list \<Rightarrow> server_state \<Rightarrow> (sync_error + file_event list) \<times> server_state" where
  "collect_new en [] st = (Inr [], st)"
| "collect_new en (m # ms) st =
     (if em_machine_id m = ss_machine_id st then collect_new en ms st
      else (case message_to_file_event (en_now en) m (ss_machine_id st) of
        None \<Rightarrow> (Inl (SyncConversion (''failed to convert event for '' @ em_file_path m)), st)
      | Some e \<Rightarrow>
          (let (known, st1) = event_exists en e st; (r, st2) = collect_new en ms st1 in
           (bind_res r (\<lambda>es. Inr (if known then es else e # es)), st2))))"

definition publish_all_events :: "file_event list \<Rightarrow> server_state \<Rightarrow> server_state" where
  "publish_all_events es st = fold (\<lambda>e. publish (NEvent e)) es st"

definition insert_events :: "env \<Rightarrow> file_event list \<Rightarrow> server_state \<Rightarrow> (sync_error + unit) \<times> server_state" where
  "insert_events en es st =
     (if \<not> en_store_opens en then (Inl (SyncStore ''insert failed''), st)
      else (let (r, db) = store_insert_batch (en_fmt en) es (event_store_new (ss_db st));
                st1 = st\<lparr>ss_db := db\<rparr> in
        case r of
          Inl _ \<Rightarrow> (Inl (SyncStore ''insert failed''), st1)
        | Inr _ \<Rightarrow> (Inr (), publish_all_events es st1)))"

definition sync_peer ::
  "env \<Rightarrow> (peer_config \<Rightarrow> string \<times> string \<times> int \<Rightarrow> sync_error + peer_stream) \<Rightarrow> peer_config
    \<Rightarrow> sync_manager \<times> server_state \<Rightarrow> ((sync_error + unit) \<times> sync_manager \<times> server_state) option" where
  "sync_peer en net p s =
     (let (sy, st) = s in
      case net p (sync_request st p sy) of
        Inl e \<Rightarrow> Some (Inl e, sy, st)
      | Inr stream \<Rightarrow>
          (case collect_new en (ps_messages stream) st of
             (Inl e, st1) \<Rightarrow> Some (Inl e, sy, st1)
           | (Inr es, st1) \<Rightarrow>
               (case ps_end stream of
                  StreamOpen \<Rightarrow> None
                | StreamError e \<Rightarrow> Some (Inl (SyncStream e), sy, st1)
                | StreamEnd \<Rightarrow>
                    (let (r, st2) = (if es = [] then (Inr (), st1) else insert_events en es st1) in
                     case r of
                       Inl e \<Rightarrow> Some (Inl e, sy, st2)
                     | Inr _ \<Rightarrow>
                         Some (Inr (), sy\<lparr>sy_last_sync := (sy_last_sync sy)
                            (peer_addr p \<mapsto> en_now en div nanos_per_sec)\<rparr>, st2)))))"

text \<open>One pass over the peers; a failed peer is logged, and a peer that does not answer ends the pass.\<close>

fun sync_round ::
  "env \<Rightarrow> (peer_config \<Rightarrow> string \<times> string \<times> int \<Rightarrow> sync_error + peer_stream) \<Rightarrow> peer_config list
    \<Rightarrow> sync_manager \<times> server_state \<Rightarrow> (sync_manager \<times> server_state) option" where
  "sync_round en net [] s = Some s"
| "sync_round en net (p # ps) s =
     Option.bind (sync_peer en net p s) (\<lambda>(_, s'). sync_round en net ps s')"

subsection \<open>Lemmas\<close>

lemma event_exists_spec:
  assumes "env_ok en T" and "holds_log (en_fmt en) T (ss_db st) L" and "en_store_opens en"
    and "utc_minus (ev_timestamp e) (dur_seconds 1) = Some t" and "t \<in> T"
  shows "event_exists en e st
    = (\<exists>x \<in> snd ` set L. same_event x e \<and> ev_project_id x = ev_project_id e, st\<lparr>ss_db := event_store_new (ss_db st)\<rparr>)"
proof -
  let ?f = "filter_since t (filter_file_path (ev_file_path e) (filter_project_id (ev_project_id e) event_filter_new))"
  have p: "time_text_ok (en_fmt en) (en_parse en) T" "orders_desc (en_order en)"
    using assms(1) by (simp_all add: env_ok_def)
  have f: "set_option (flt_since ?f) \<subseteq> T" "\<forall>n \<in> set_option (flt_limit ?f). int n \<le> max_i64"
    "flt_limit ?f = None" "event_matches ?f = (\<lambda>x. ev_project_id x = ev_project_id e \<and>
       ev_file_path x = ev_file_path e \<and> t \<le> ev_timestamp x)"
    using assms(5) by (auto simp: filter_builder_defs event_matches_def)
  obtain es where es: "mset es = mset (filter (event_matches ?f) (map snd L))"
    "store_query (en_order en) (en_fmt en) (en_parse en) ?f (event_store_new (ss_db st)) = Inr es"
    using store_query_spec[OF p event_store_new_log[OF assms(2)] f(1,2)] unfolding f(3) by auto
  have "t \<le> ev_timestamp e"
    using assms(4) by (auto simp: utc_minus_def dur_defs split: if_splits)
  moreover have "set es = {x \<in> snd ` set L. event_matches ?f x}" using mset_eq_setD[OF es(1)] by auto
  ultimately have "list_ex (\<lambda>x. same_event x e) es
      = (\<exists>x \<in> snd ` set L. same_event x e \<and> ev_project_id x = ev_project_id e)"
    unfolding f(4) by (auto simp: list_ex_iff same_event_def)
  then show ?thesis
    by (simp add: event_exists_def assms(3,4) read_store_def on_store_def es(2) Let_def)
qed

text \<open>The messages that a machine takes from a stream, given the events it has.\<close>

definition times_ok :: "timestamp set \<Rightarrow> event_message \<Rightarrow> bool" where
  "times_ok T m \<longleftrightarrow> (\<exists>t. timestamp_opt (em_timestamp m) = Some t \<and> t \<in> T \<and>
     utc_minus t (dur_seconds 1) \<noteq> None \<and> t - dur_seconds 1 \<in> T)"

definition message_ok :: "timestamp set \<Rightarrow> event_message \<Rightarrow> bool" where
  "message_ok T m \<longleftrightarrow> times_ok T m \<and> ok_of (event_type_from_str (em_event_type m)) \<noteq> None \<and>
     ok_of (source_from_str (em_source m)) \<noteq> None"

definition received :: "env \<Rightarrow> string \<Rightarrow> event_message \<Rightarrow> file_event" where
  "received en mid m = the (message_to_file_event (en_now en) m mid)"

definition new_events :: "env \<Rightarrow> string \<Rightarrow> file_event list \<Rightarrow> event_message list \<Rightarrow> file_event list" where
  "new_events en mid known ms =
     filter (\<lambda>e. \<not> list_ex (\<lambda>x. same_event x e \<and> ev_project_id x = ev_project_id e) known)
       (map (received en mid) (filter (\<lambda>m. em_machine_id m \<noteq> mid) ms))"

lemma message_ok_received:
  assumes "message_ok T m"
  shows "message_to_file_event now m mid = Some (received en mid m) \<or> now \<noteq> en_now en"
    and "message_to_file_event (en_now en) m mid = Some (received en mid m)"
    and "timestamp_opt (em_timestamp m) = Some (ev_timestamp (received en mid m))"
  using assms
  by (auto simp: message_ok_def times_ok_def message_to_file_event_def received_def Let_def event_builder_defs
      split: option.splits)

lemma collect_new_spec:
  assumes "env_ok en T" and "holds_log (en_fmt en) T (ss_db st) L" and "en_store_opens en"
    and "list_all (message_ok T) ms"
  shows "\<exists>st1. collect_new en ms st = (Inr (new_events en (ss_machine_id st) (map snd L) ms), st1) \<and>
    (st1 = st \<or> st1 = st\<lparr>ss_db := event_store_new (ss_db st)\<rparr>)"
  using assms(2,4)
proof (induction ms arbitrary: st)
  case (Cons m ms)
  let ?e = "received en (ss_machine_id st) m" and ?st1 = "st\<lparr>ss_db := event_store_new (ss_db st)\<rparr>"
  show ?case
  proof (cases "em_machine_id m = ss_machine_id st")
    case True
    with Cons show ?thesis by (simp add: new_events_def)
  next
    case False
    have m: "message_ok T m" and ms: "list_all (message_ok T) ms" using Cons.prems(2) by simp_all
    have "ev_timestamp ?e - dur_seconds 1 \<in> T" "utc_minus (ev_timestamp ?e) (dur_seconds 1) \<noteq> None"
      using m message_ok_received(3)[OF m, of en "ss_machine_id st"]
      by (auto simp: message_ok_def times_ok_def)
    then have known: "event_exists en ?e st
        = (\<exists>x \<in> snd ` set L. same_event x ?e \<and> ev_project_id x = ev_project_id ?e, ?st1)"
      using event_exists_spec[OF assms(1) Cons.prems(1) assms(3)] by (auto simp: utc_minus_def split: if_splits)
    have "holds_log (en_fmt en) T (ss_db ?st1) L" using event_store_new_log[OF Cons.prems(1)] by simp
    from Cons.IH[OF this ms] obtain st2 where
      "collect_new en ms ?st1 = (Inr (new_events en (ss_machine_id st) (map snd L) ms), st2)"
      "st2 = ?st1 \<or> st2 = ?st1\<lparr>ss_db := event_store_new (ss_db ?st1)\<rparr>" by auto
    moreover have "event_store_new (event_store_new (ss_db st)) = event_store_new (ss_db st)"
      using event_store_new_holds[OF event_store_new_log[OF Cons.prems(1)]]
      by (auto simp: event_store_new_holds[OF Cons.prems(1)] split: option.splits)
    ultimately show ?thesis
      using False by (auto simp: message_ok_received(2)[OF m] known new_events_def list_ex_iff Let_def)
  qed
qed (simp add: new_events_def)

lemma publish_all_events_eq:
  "publish_all_events es st = st\<lparr>ss_subscriptions := publish_all (map NEvent es) (ss_subscriptions st)\<rparr>"
  by (induction es arbitrary: st) (simp_all add: publish_all_events_def publish_all_def publish_def)

lemma new_events_times:
  assumes "list_all (message_ok T) ms"
  shows "ev_timestamp ` set (new_events en mid known ms) \<subseteq> T" and "length (new_events en mid known ms) \<le> length ms"
proof -
  have "ev_timestamp (received en mid m) \<in> T" if mem: "m \<in> set ms" for m
    using assms mem message_ok_received(3)[of T m en mid]
    by (auto simp: list_all_iff message_ok_def times_ok_def)
  then show "ev_timestamp ` set (new_events en mid known ms) \<subseteq> T" by (auto simp: new_events_def)
  have "length (new_events en mid known ms)
      \<le> length (map (received en mid) (filter (\<lambda>m. em_machine_id m \<noteq> mid) ms))"
    unfolding new_events_def by (rule length_filter_le)
  also have "\<dots> \<le> length ms" by simp
  finally show "length (new_events en mid known ms) \<le> length ms" .
qed

lemma insert_events_spec:
  assumes "holds_log (en_fmt en) T (ss_db st) L" and "en_store_opens en" and "ev_timestamp ` set es \<subseteq> T"
    and "key_seq (ss_db st) + int (length es) \<le> max_i64"
  shows "\<exists>db'. insert_events en es st = (Inr (), st\<lparr>ss_db := db',
      ss_subscriptions := publish_all (map NEvent es) (ss_subscriptions st)\<rparr>) \<and>
    holds_log (en_fmt en) T db' (L @ keyed_from (key_seq (ss_db st)) es)"
proof -
  have k: "key_seq (event_store_new (ss_db st)) = key_seq (ss_db st)"
    using event_store_new_holds[OF assms(1)] by (simp add: key_seq_def)
  obtain db' where db': "insert_all (en_fmt en) es (event_store_new (ss_db st))
      = Inr (map fst (keyed_from (key_seq (ss_db st)) es), db')"
    "holds_log (en_fmt en) T db' (L @ keyed_from (key_seq (ss_db st)) es)"
    using insert_all_holds[OF event_store_new_log[OF assms(1)] assms(3)] assms(4) by (auto simp: k)
  then show ?thesis
    by (auto simp: insert_events_def assms(2) store_insert_batch_def publish_all_events_eq)
qed

text \<open>A pass over a stream that ends: what it takes, and where it keeps the time.\<close>

lemma sync_peer_spec:
  assumes "env_ok en T" and "holds_log (en_fmt en) T (ss_db st) L" and "en_store_opens en"
    and "net p (sync_request st p sy) = Inr \<lparr>ps_messages = ms, ps_end = StreamEnd\<rparr>"
    and "list_all (message_ok T) ms" and "key_seq (ss_db st) + int (length ms) \<le> max_i64"
  shows "let es = new_events en (ss_machine_id st) (map snd L) ms in
    \<exists>db. sync_peer en net p (sy, st) = Some (Inr (),
        sy\<lparr>sy_last_sync := (sy_last_sync sy)(peer_addr p \<mapsto> en_now en div nanos_per_sec)\<rparr>,
        st\<lparr>ss_db := db, ss_subscriptions := publish_all (map NEvent es) (ss_subscriptions st)\<rparr>) \<and>
      holds_log (en_fmt en) T db (L @ keyed_from (key_seq (ss_db st)) es)"
proof -
  let ?es = "new_events en (ss_machine_id st) (map snd L) ms"
  obtain st1 where c: "collect_new en ms st = (Inr ?es, st1)"
    and st1: "st1 = st \<or> st1 = st\<lparr>ss_db := event_store_new (ss_db st)\<rparr>"
    using collect_new_spec[OF assms(1-3,5)] by blast
  have log: "holds_log (en_fmt en) T (ss_db st1) L" and k: "key_seq (ss_db st1) = key_seq (ss_db st)"
    and same: "st1\<lparr>ss_db := db\<rparr> = st\<lparr>ss_db := db\<rparr>" "ss_subscriptions st1 = ss_subscriptions st" for db
    using st1 event_store_new_log[OF assms(2)] event_store_new_holds[OF assms(2)] assms(2)
    by (auto simp: key_seq_def)
  have times: "ev_timestamp ` set ?es \<subseteq> T" "key_seq (ss_db st1) + int (length ?es) \<le> max_i64"
    using new_events_times[OF assms(5), of en "ss_machine_id st" "map snd L"] assms(6) k by linarith+
  show ?thesis
  proof (cases "?es = []")
    case True
    then have "sync_peer en net p (sy, st) = Some (Inr (),
        sy\<lparr>sy_last_sync := (sy_last_sync sy)(peer_addr p \<mapsto> en_now en div nanos_per_sec)\<rparr>, st1\<lparr>ss_db := ss_db st1\<rparr>)"
      by (simp add: sync_peer_def assms(4) c)
    moreover have "st\<lparr>ss_db := db\<rparr> = st\<lparr>ss_db := db, ss_subscriptions := publish_all [] (ss_subscriptions st)\<rparr>" for db
      by (simp add: publish_all_def)
    ultimately show ?thesis using True log unfolding same(1) Let_def by auto
  next
    case False
    obtain db where db: "insert_events en ?es st1 = (Inr (), st1\<lparr>ss_db := db,
        ss_subscriptions := publish_all (map NEvent ?es) (ss_subscriptions st1)\<rparr>)"
      "holds_log (en_fmt en) T db (L @ keyed_from (key_seq (ss_db st1)) ?es)"
      using insert_events_spec[OF log assms(3) times] by blast
    then have "sync_peer en net p (sy, st) = Some (Inr (),
        sy\<lparr>sy_last_sync := (sy_last_sync sy)(peer_addr p \<mapsto> en_now en div nanos_per_sec)\<rparr>,
        (st1\<lparr>ss_db := db\<rparr>)\<lparr>ss_subscriptions := publish_all (map NEvent ?es) (ss_subscriptions st1)\<rparr>)"
      using False by (simp add: sync_peer_def assms(4) c)
    with db(2) show ?thesis unfolding same k Let_def by auto
  qed
qed

text \<open>What was taken once is known afterwards.\<close>

lemma new_events_again: "new_events en mid (known @ new_events en mid known ms) ms = []"
  unfolding new_events_def by (auto simp: filter_empty_conv list_ex_iff same_event_def)

subsection \<open>Properties\<close>

text \<open>
  C11. A completed sync takes exactly the events that are new: on a store that holds a log, and when the
  peer's stream ends after well-formed messages, the log grows by the events of the other machines
  that it does not have yet, in the stream's order and stamped with this machine, the same events are
  published in that order, and the time of the sync is kept under the peer's address.  The same stream once
  more brings nothing.
\<close>

theorem sync_takes_new_events:
  assumes "env_ok en T" and "holds_log (en_fmt en) T (ss_db st) L" and "en_store_opens en"
    and "net p (sync_request st p sy) = Inr \<lparr>ps_messages = ms, ps_end = StreamEnd\<rparr>"
    and "list_all (message_ok T) ms" and "key_seq (ss_db st) + int (length ms) \<le> max_i64"
  shows "let es = new_events en (ss_machine_id st) (map snd L) ms in
    \<exists>db. sync_peer en net p (sy, st) = Some (Inr (),
        sy\<lparr>sy_last_sync := (sy_last_sync sy)(peer_addr p \<mapsto> en_now en div nanos_per_sec)\<rparr>,
        st\<lparr>ss_db := db, ss_subscriptions := publish_all (map NEvent es) (ss_subscriptions st)\<rparr>) \<and>
      holds_log (en_fmt en) T db (L @ keyed_from (key_seq (ss_db st)) es) \<and>
      new_events en (ss_machine_id st) (map snd (L @ keyed_from (key_seq (ss_db st)) es)) ms = []"
  using sync_peer_spec[where net = net and p = p and sy = sy, OF assms] by (auto simp: Let_def new_events_again)

definition second_fmt :: "timestamp \<Rightarrow> string" where
  "second_fmt t = byte_fmt (t div nanos_per_sec)"

definition second_parse :: "string \<Rightarrow> string + timestamp" where
  "second_parse s = bind_res (byte_parse s) (\<lambda>n. Inr (dur_seconds n))"

lemma second_time_text_ok: "time_text_ok second_fmt second_parse (dur_seconds ` {0..<256})"
  using byte_time_text_ok
  by (auto simp: time_text_ok_def second_fmt_def second_parse_def dur_seconds_def nanos_per_sec_def)

definition second_env :: env where
  "second_env = demo_env\<lparr>en_now := dur_seconds 100, en_fmt := second_fmt, en_parse := second_parse\<rparr>"

definition synced_event :: "string \<Rightarrow> int \<Rightarrow> file_event" where
  "synced_event mid n = file_event_new (dur_seconds n) Modified ''a'' ''p'' mid"

text \<open>The store of a machine with some events, and the machine.\<close>

definition stored :: "file_event list \<Rightarrow> database" where
  "stored es = snd (the (ok_of (insert_all second_fmt es (event_store_new database_empty))))"

definition second_state :: server_state where
  "second_state = with_machine_id ''/db'' ''m'' (stored [synced_event ''m'' 5]) database_empty"

lemma stored_log:
  assumes "ev_timestamp ` set es \<subseteq> T" and "int (length es) \<le> max_i64"
  shows "holds_log second_fmt T (stored es) (keyed_from 0 es)" and "key_seq (stored es) = int (length es)"
proof -
  have "holds_log second_fmt T (event_store_new database_empty) []" "key_seq (event_store_new database_empty) = 0"
    by (simp_all add: holds_log_new database_empty_def) (simp add: event_store_new_def key_seq_def)
  from insert_all_holds[OF this(1) assms(1)] this(2) assms(2)
  show "holds_log second_fmt T (stored es) (keyed_from 0 es)" "key_seq (stored es) = int (length es)"
    by (auto simp: stored_def)
qed

lemma second_log: "holds_log (en_fmt second_env) (dur_seconds ` {0..<256}) (ss_db second_state) [(1, synced_event ''m'' 5)]"
  and second_key: "key_seq (ss_db second_state) = 1"
  using stored_log[of "[synced_event ''m'' 5]" "dur_seconds ` {0..<256}"]
  by (simp_all add: second_state_def second_env_def synced_event_def file_event_new_def max_i64_def with_machine_id_def)

lemma time_text_ok_subset: "time_text_ok fmt parse T \<Longrightarrow> S \<subseteq> T \<Longrightarrow> time_text_ok fmt parse S"
  by (auto simp: time_text_ok_def)

lemma second_env_ok: "T \<subseteq> dur_seconds ` {0..<256} \<Longrightarrow> dur_seconds 100 \<in> T \<Longrightarrow> env_ok second_env T" "en_store_opens second_env" "en_fmt second_env = second_fmt"
  using stable_desc_ok time_text_ok_subset[OF second_time_text_ok] by (auto simp: env_ok_def second_env_def demo_env_def)

lemma second_timestamp: "n \<in> {0..<256} \<Longrightarrow> timestamp_opt n = Some (dur_seconds n)"
  by (auto simp: timestamp_opt_def dur_defs min_utc_def max_utc_def)

lemma synced_message: "file_event_to_message (synced_event mid n) = \<lparr>em_timestamp = n, em_event_type = ''modified'',
      em_file_path = ''a'', em_project_id = ''p'', em_source = ''user'', em_source_id = None, em_machine_id = mid,
      em_content_hash = None, em_old_path = None\<rparr>"
  by (simp add: file_event_to_message_def synced_event_def file_event_new_def source_default_def dur_seconds_def
      nanos_per_sec_def)

lemma synced_received:
  assumes "n \<in> {0..<256}"
  shows "received second_env mid (file_event_to_message (synced_event mid' n)) = synced_event mid n"
  using second_timestamp[OF assms] message_round_trip[of "synced_event mid' n" "en_now second_env" mid]
  by (simp add: received_def carried_def synced_event_def file_event_new_def dur_seconds_def nanos_per_sec_def)

theorem sync_takes_new_events_witness:
  "\<exists>r db. sync_peer second_env (\<lambda>_ _. Inr \<lparr>ps_messages = map file_event_to_message
        [synced_event ''m'' 7, synced_event ''other'' 5, synced_event ''other'' 9], ps_end = StreamEnd\<rparr>)
      (peer_config_new ''host'' ''p'') (sync_manager_new [], second_state) = Some (Inr (), r) \<and>
    holds_log second_fmt (dur_seconds ` {0..<256}) db [(1, synced_event ''m'' 5), (2, synced_event ''m'' 9)] \<and>
    ss_db (snd r) = db"
proof -
  let ?ms = "map file_event_to_message [synced_event ''m'' 7, synced_event ''other'' 5, synced_event ''other'' 9]"
  have en: "env_ok second_env (dur_seconds ` {0..<256})" "en_store_opens second_env" "en_fmt second_env = second_fmt"
    using second_env_ok by simp_all
  have ok: "list_all (message_ok (dur_seconds ` {0..<256})) ?ms"
    using second_timestamp
    by (auto simp: synced_message message_ok_def times_ok_def utc_minus_def dur_defs min_utc_def max_utc_def image_iff
        event_type_from_str_def source_from_str_def)
  have origin: "em_machine_id (file_event_to_message (synced_event mid n)) = mid" for mid n
    by (simp add: synced_message)
  have new: "new_events second_env ''m'' (map snd [(1 :: int, synced_event ''m'' 5)]) ?ms = [synced_event ''m'' 9]"
    by (simp add: new_events_def origin synced_received)
      (simp add: same_event_def synced_event_def file_event_new_def dur_seconds_def nanos_per_sec_def)
  have "ss_machine_id second_state = ''m''" by (simp add: second_state_def with_machine_id_def)
  then show ?thesis
    using sync_takes_new_events[OF en(1) second_log en(2), of "\<lambda>_ _. Inr \<lparr>ps_messages = ?ms, ps_end = StreamEnd\<rparr>"
        "peer_config_new ''host'' ''p''" "sync_manager_new []" ?ms] ok new second_key
    by (auto simp: en(3) max_i64_def Let_def)
qed

end
