(* ===== verification/Llm_Analyzer.thy ===== *)
theory Llm_Analyzer
  imports Json Analyzer
begin

text \<open>
  Reading the answer of a language model and merging it into a local analysis,
  \<open>crates/ambient-fs-analyzer/src/llm_analyzer.rs\<close>.  The answer is a JSON text; its syntax is the crate
  serde_json's, the argument \<open>pj\<close>.  The HTTP call that produced it is outside.
\<close>

datatype llm_error = LlmParse string | EmptyResponse

record llm_import =
  li_path :: string
  li_symbols :: "string list"
  li_line :: u32

record llm_hint =
  lx_line :: u32
  lx_column :: u32
  lx_severity :: string
  lx_message :: string
  lx_rule :: "string option"

record llm_response =
  lr_imports :: "llm_import list"
  lr_exports :: "string list"
  lr_hints :: "llm_hint list"

subsection \<open>Deserialization\<close>

definition dec_llm_import :: "json \<Rightarrow> string + llm_import" where
  "dec_llm_import j =
     bind_res (struct_fields [(''path'', False), (''symbols'', True), (''line'', True)] j) (\<lambda>m.
     bind_res (required ''path'' dec_string m) (\<lambda>path.
     bind_res (defaulted ''symbols'' (dec_list dec_string) [] m) (\<lambda>symbols.
     bind_res (defaulted ''line'' dec_u32 0 m) (\<lambda>line.
     Inr \<lparr>li_path = path, li_symbols = symbols, li_line = line\<rparr>))))"

definition dec_llm_hint :: "json \<Rightarrow> string + llm_hint" where
  "dec_llm_hint j =
     bind_res (struct_fields [(''line'', False), (''column'', True), (''severity'', False),
       (''message'', False), (''rule'', True)] j) (\<lambda>m.
     bind_res (required ''line'' dec_u32 m) (\<lambda>line.
     bind_res (defaulted ''column'' dec_u32 0 m) (\<lambda>column.
     bind_res (required ''severity'' dec_string m) (\<lambda>severity.
     bind_res (required ''message'' dec_string m) (\<lambda>message.
     bind_res (optional ''rule'' dec_string m) (\<lambda>rule.
     Inr \<lparr>lx_line = line, lx_column = column, lx_severity = severity, lx_message = message, lx_rule = rule\<rparr>))))))"

text \<open>An import is a string or an object; other values are skipped.  The elements are read as \<open>Value\<close>s
  first, so a repeated key of an object keeps its last value.\<close>

fun import_values :: "json list \<Rightarrow> string + llm_import list" where
  "import_values [] = Inr []"
| "import_values (JStr s # vs) =
     bind_res (import_values vs) (\<lambda>is. Inr (\<lparr>li_path = s, li_symbols = [], li_line = 0\<rparr> # is))"
| "import_values (JObj fs # vs) =
     bind_res (dec_llm_import (JObj (norm_obj fs))) (\<lambda>i.
     bind_res (import_values vs) (\<lambda>is. Inr (i # is)))"
| "import_values (_ # vs) = import_values vs"

definition deserialize_imports :: "json \<Rightarrow> string + llm_import list" where
  "deserialize_imports j = (case j of JArr vs \<Rightarrow> import_values vs | _ \<Rightarrow> Inl ''invalid type'')"

definition dec_llm_response :: "json \<Rightarrow> string + llm_response" where
  "dec_llm_response j =
     bind_res (struct_fields [(''imports'', True), (''exports'', True), (''lint_hints'', True)] j) (\<lambda>m.
     bind_res (defaulted ''imports'' deserialize_imports [] m) (\<lambda>imports.
     bind_res (defaulted ''exports'' (dec_list dec_string) [] m) (\<lambda>exports.
     bind_res (defaulted ''lint_hints'' (dec_list dec_llm_hint) [] m) (\<lambda>hints.
     Inr \<lparr>lr_imports = imports, lr_exports = exports, lr_hints = hints\<rparr>))))"

subsection \<open>The analyzer\<close>

definition build_prompt :: "string \<Rightarrow> string \<Rightarrow> string \<Rightarrow> string \<times> string" where
  "build_prompt path content language =
     (''you analyze source code files. extract imports, exports, and lint hints. respond with JSON only. be concise. only report clear issues for lint.'',
      ''language: '' @ language @ newline @ ''file: '' @ path @ newline @ ''---'' @ newline @ content)"

definition parse_response :: "(string \<Rightarrow> string + json) \<Rightarrow> string \<Rightarrow> llm_error + llm_response" where
  "parse_response pj response =
     (if str_trim response = [] then Inl EmptyResponse
      else map_err LlmParse (bind_res (pj response) dec_llm_response))"

definition import_of :: "llm_import \<Rightarrow> import_ref" where
  "import_of i = \<lparr>imp_path = li_path i, imp_symbols = li_symbols i, imp_line = li_line i\<rparr>"

definition severity_of :: "string \<Rightarrow> lint_severity" where
  "severity_of s =
     (if s = ''info'' then SevInfo else if s = ''warning'' then SevWarning
      else if s = ''error'' then SevError else SevWarning)"

definition hint_of :: "llm_hint \<Rightarrow> lint_hint" where
  "hint_of h = \<lparr>lh_line = lx_line h, lh_column = lx_column h, lh_severity = severity_of (lx_severity h),
     lh_message = lx_message h, lh_rule = lx_rule h\<rparr>"

definition to_file_analysis :: "llm_response \<Rightarrow> file_analysis \<Rightarrow> file_analysis" where
  "to_file_analysis r base =
     base\<lparr>an_imports := map import_of (lr_imports r), an_exports := lr_exports r,
       an_lint_hints := map hint_of (lr_hints r)\<rparr>"

definition enhance_with_llm_response ::
  "(string \<Rightarrow> string + json) \<Rightarrow> file_analysis \<Rightarrow> string \<Rightarrow> llm_error + file_analysis" where
  "enhance_with_llm_response pj base response =
     bind_res (parse_response pj response) (\<lambda>r. Inr (to_file_analysis r base))"

text \<open>\<open>FileAnalyzer\<close> offers the same on an analyzer made for the call; whether its model is enabled makes no difference.\<close>

definition analyzer_enhance ::
  "(string \<Rightarrow> string + json) \<Rightarrow> file_analyzer \<Rightarrow> file_analysis \<Rightarrow> string \<Rightarrow> llm_error + file_analysis" where
  "analyzer_enhance pj a base response = enhance_with_llm_response pj base response"

subsection \<open>What an answer says\<close>

text \<open>The readings of an answer, over its JSON value: which imports its values stand for, in order, and
  which hints.  A field with a default may be missing, an object may have fields of other names, and
  the fields may be in any order.\<close>

definition field_or :: "json option \<Rightarrow> ('a \<Rightarrow> json) \<Rightarrow> 'a \<Rightarrow> 'a \<Rightarrow> bool" where
  "field_or f enc dflt a = (case f of None \<Rightarrow> a = dflt | Some j \<Rightarrow> j = enc a)"

definition object_import :: "fields \<Rightarrow> import_ref \<Rightarrow> bool" where
  "object_import fs i \<longleftrightarrow> obj_get ''path'' fs = Some (JStr (imp_path i)) \<and>
     field_or (obj_get ''symbols'' fs) (\<lambda>ss. JArr (map JStr ss)) [] (imp_symbols i) \<and>
     field_or (obj_get ''line'' fs) json_u32 0 (imp_line i)"

fun imports_mean :: "json list \<Rightarrow> import_ref list \<Rightarrow> bool" where
  "imports_mean [] is \<longleftrightarrow> is = []"
| "imports_mean (JStr s # vs) is \<longleftrightarrow>
     (case is of [] \<Rightarrow> False
      | i # is' \<Rightarrow> i = \<lparr>imp_path = s, imp_symbols = [], imp_line = 0\<rparr> \<and> imports_mean vs is')"
| "imports_mean (JObj fs # vs) is \<longleftrightarrow>
     (case is of [] \<Rightarrow> False | i # is' \<Rightarrow> object_import fs i \<and> imports_mean vs is')"
| "imports_mean (_ # vs) is \<longleftrightarrow> imports_mean vs is"

definition no_repeats :: "string list \<Rightarrow> fields \<Rightarrow> bool" where
  "no_repeats names fs \<longleftrightarrow> list_all (\<lambda>n. length (filter (\<lambda>(k, _). k = n) fs) \<le> 1) names"

definition hint_means :: "json \<Rightarrow> lint_hint \<Rightarrow> bool" where
  "hint_means j h \<longleftrightarrow> (case j of
       JObj fs \<Rightarrow> no_repeats [''line'', ''column'', ''severity'', ''message'', ''rule''] fs \<and>
         map_of fs ''line'' = Some (json_u32 (lh_line h)) \<and>
         field_or (map_of fs ''column'') json_u32 0 (lh_column h) \<and>
         map_of fs ''message'' = Some (JStr (lh_message h)) \<and>
         field_or (map_of fs ''rule'') (json_opt JStr) None (lh_rule h) \<and>
         (case map_of fs ''severity'' of
            Some (JStr s) \<Rightarrow> lh_severity h =
              (if s = ''info'' then SevInfo else if s = ''error'' then SevError else SevWarning)
          | _ \<Rightarrow> False)
     | _ \<Rightarrow> False)"

definition answer_means :: "json \<Rightarrow> import_ref list \<Rightarrow> string list \<Rightarrow> lint_hint list \<Rightarrow> bool" where
  "answer_means j is es hs \<longleftrightarrow> (case j of
       JObj fs \<Rightarrow> no_repeats [''imports'', ''exports'', ''lint_hints''] fs \<and>
         (case map_of fs ''imports'' of
            None \<Rightarrow> is = [] | Some (JArr vs) \<Rightarrow> imports_mean vs is | Some _ \<Rightarrow> False) \<and>
         field_or (map_of fs ''exports'') (\<lambda>xs. JArr (map JStr xs)) [] es \<and>
         (case map_of fs ''lint_hints'' of
            None \<Rightarrow> hs = [] | Some (JArr vs) \<Rightarrow> list_all2 hint_means vs hs | Some _ \<Rightarrow> False)
     | _ \<Rightarrow> False)"

subsection \<open>Lemmas\<close>

text \<open>A normalized object has each key once, with the value the lookup finds.\<close>

lemma norm_obj_keys: "fst ` set (norm_obj fs) = fst ` set fs" "distinct (map fst (norm_obj fs))"
  by (induction fs rule: norm_obj.induct) auto

lemma map_of_norm_obj: "map_of (norm_obj fs) k = obj_get k fs"
proof (induction fs rule: norm_obj.induct)
  case (2 j v fs)
  have "map_of (rev fs) j = None \<longleftrightarrow> j \<notin> fst ` set fs" by (simp add: map_of_eq_None_iff)
  with 2 show ?case by (cases "j \<in> fst ` set fs") (auto simp: obj_get_def map_add_def split: option.split)
qed (simp add: obj_get_def)

lemma distinct_no_repeats: "distinct (map fst fs) \<Longrightarrow> no_repeats names fs"
proof -
  assume "distinct (map fst fs)"
  then have "length (filter (\<lambda>(k, _). k = n) fs) \<le> 1" for n
    by (induction fs) (auto simp: filter_empty_conv image_iff)
  then show ?thesis by (simp add: no_repeats_def list_all_iff)
qed

lemma struct_fields_object:
  "no_repeats (map fst names) fs \<Longrightarrow> struct_fields names (JObj fs) = Inr (map_of fs)"
  by (auto simp: struct_fields_def no_repeats_def list_ex_iff list_all_iff)

lemma defaulted_field_or:
  "(\<And>x. dec (enc x) = Inr x) \<Longrightarrow> field_or (m n) enc d a \<Longrightarrow> defaulted n dec d m = Inr a"
  by (auto simp: field_or_def defaulted_def split: option.splits)

lemma optional_field_or:
  "field_or (m n) (json_opt JStr) None r \<Longrightarrow> optional n dec_string m = Inr r"
  by (cases "m n") (simp_all add: field_or_def optional_json_opt, simp add: optional_def)

lemma dec_object_import:
  assumes "object_import fs i"
  shows "dec_llm_import (JObj (norm_obj fs))
    = Inr \<lparr>li_path = imp_path i, li_symbols = imp_symbols i, li_line = imp_line i\<rparr>"
proof -
  have m: "map_of (norm_obj fs) = (\<lambda>k. obj_get k fs)" by (rule ext) (rule map_of_norm_obj)
  note fields = struct_fields_object[OF distinct_no_repeats[OF norm_obj_keys(2)]]
  have "defaulted ''symbols'' (dec_list dec_string) [] (\<lambda>k. obj_get k fs) = Inr (imp_symbols i)"
    by (rule defaulted_field_or[where enc = "\<lambda>ss. JArr (map JStr ss)"])
      (use assms in \<open>simp_all add: object_import_def\<close>)
  moreover have "defaulted ''line'' dec_u32 0 (\<lambda>k. obj_get k fs) = Inr (imp_line i)"
    by (rule defaulted_field_or[where enc = json_u32]) (use assms in \<open>simp_all add: object_import_def\<close>)
  ultimately show ?thesis
    using assms by (simp add: dec_llm_import_def fields m required_def dec_string_def object_import_def)
qed

lemma import_values_mean:
  "imports_mean vs is \<Longrightarrow> \<exists>xs. import_values vs = Inr xs \<and> map import_of xs = is"
proof (induction vs "is" rule: imports_mean.induct)
  case (2 s vs "is")
  then show ?case by (cases "is") (auto simp: import_of_def)
next
  case (3 fs vs "is")
  then show ?case by (cases "is") (auto simp: import_of_def dec_object_import)
qed simp_all

lemma dec_hint_mean:
  assumes "hint_means j h"
  obtains x where "dec_llm_hint j = Inr x" and "hint_of x = h"
proof -
  obtain fs s where j: "j = JObj fs" and s: "map_of fs ''severity'' = Some (JStr s)"
    using assms by (cases j; simp add: hint_means_def) (simp split: option.splits json.splits)
  let ?x = "\<lparr>lx_line = lh_line h, lx_column = lh_column h, lx_severity = s, lx_message = lh_message h,
    lx_rule = lh_rule h\<rparr>"
  have "defaulted ''column'' dec_u32 0 (map_of fs) = Inr (lh_column h)"
    by (rule defaulted_field_or[where enc = json_u32]) (use assms in \<open>simp_all add: hint_means_def j\<close>)
  moreover have "optional ''rule'' dec_string (map_of fs) = Inr (lh_rule h)"
    by (rule optional_field_or) (use assms in \<open>simp add: hint_means_def j\<close>)
  ultimately have "dec_llm_hint j = Inr ?x"
    using assms s by (simp add: hint_means_def j dec_llm_hint_def struct_fields_object required_def dec_string_def)
  moreover have "hint_of ?x = h"
    using assms s by (cases h) (simp add: hint_means_def j hint_of_def severity_of_def)
  ultimately show thesis by (rule that)
qed

lemma dec_hints_mean:
  "list_all2 hint_means vs hs \<Longrightarrow> \<exists>xs. dec_all dec_llm_hint vs = Inr xs \<and> map hint_of xs = hs"
proof (induction rule: list_all2_induct)
  case (Cons v vs h hs)
  obtain x where "dec_llm_hint v = Inr x" "hint_of x = h" using Cons(1) by (rule dec_hint_mean)
  with Cons(3) show ?case by auto
qed simp

lemma dec_answer_means:
  assumes "answer_means j is es hs"
  shows "\<exists>r. dec_llm_response j = Inr r \<and> map import_of (lr_imports r) = is
    \<and> lr_exports r = es \<and> map hint_of (lr_hints r) = hs"
proof -
  obtain fs where j: "j = JObj fs" using assms by (auto simp: answer_means_def split: json.splits)
  obtain xs where xs: "defaulted ''imports'' deserialize_imports [] (map_of fs) = Inr xs" "map import_of xs = is"
  proof (cases "map_of fs ''imports''")
    case (Some v)
    with assms obtain vs where v: "v = JArr vs" and m: "imports_mean vs is"
      by (cases v) (simp_all add: answer_means_def j)
    with import_values_mean[OF m] Some show thesis
      by (auto simp: defaulted_def deserialize_imports_def intro: that)
  qed (use assms in \<open>auto simp: answer_means_def j defaulted_def intro: that\<close>)
  obtain ys where ys: "defaulted ''lint_hints'' (dec_list dec_llm_hint) [] (map_of fs) = Inr ys" "map hint_of ys = hs"
  proof (cases "map_of fs ''lint_hints''")
    case (Some v)
    with assms obtain vs where v: "v = JArr vs" and m: "list_all2 hint_means vs hs"
      by (cases v) (simp_all add: answer_means_def j)
    with dec_hints_mean[OF m] Some show thesis
      by (auto simp: defaulted_def dec_list_def intro: that)
  qed (use assms in \<open>auto simp: answer_means_def j defaulted_def intro: that\<close>)
  have "defaulted ''exports'' (dec_list dec_string) [] (map_of fs) = Inr es"
    by (rule defaulted_field_or[where enc = "\<lambda>xs. JArr (map JStr xs)"])
      (use assms in \<open>simp_all add: answer_means_def j\<close>)
  then show ?thesis
    using assms xs ys by (simp add: answer_means_def j dec_llm_response_def struct_fields_object)
qed

subsection \<open>Properties\<close>

text \<open>
  C33. A model's answer is merged into the local analysis.  An import is a path, or an object with a
  path whose symbols and line may be missing, in any mixture; any other value among the imports
  (null, a boolean, a number, an array) is skipped.  A hint may lack its column and its rule, and
  its severity, when unknown, is a warning.  Each of the three lists may be missing and keeps its order; fields
  may come in any order, beside fields of other names, but no field of the answer or of a hint is
  repeated.  The counts, the content hash and the identity of the file are the local ones.
  A text that is not blank and that the JSON parser refuses is a parse error; one of blanks is an empty response,
  whatever the parser accepts.
\<close>

theorem llm_answer_is_merged:
  assumes "pj answer = Inr j" and "answer_means j is es hs" and "str_trim answer \<noteq> []"
  shows "enhance_with_llm_response pj base answer
      = Inr (base\<lparr>an_imports := is, an_exports := es, an_lint_hints := hs\<rparr>) \<and>
    (str_trim other = [] \<longrightarrow> enhance_with_llm_response pj base other = Inl EmptyResponse) \<and>
    (str_trim other \<noteq> [] \<longrightarrow> pj other = Inl err \<longrightarrow> enhance_with_llm_response pj base other = Inl (LlmParse err))"
  using dec_answer_means[OF assms(2)] assms(1,3)
  by (auto simp: enhance_with_llm_response_def parse_response_def to_file_analysis_def)

definition demo_answer :: json where
  "demo_answer = JObj
     [(''lint_hints'', JArr [JObj [(''severity'', JStr ''fatal''), (''line'', JInt 3), (''message'', JStr ''x'')]]),
      (''imports'', JArr [JNull, JStr ''std::io'', JInt 4, JFloat ''0.5'', JArr [JStr ''x''], JBool True,
         JObj [(''line'', JInt 2), (''path'', JStr ''a''), (''kind'', JStr ''mod'')],
         JObj [(''path'', JStr ''b''), (''symbols'', JArr [JStr ''c''])]])]"

theorem llm_answer_is_merged_witness:
  "enhance_with_llm_response (\<lambda>_. Inr demo_answer) (file_analysis_empty ''f'' ''p'' ''h'') ''{}''
   = Inr ((file_analysis_empty ''f'' ''p'' ''h'')\<lparr>
       an_imports := [\<lparr>imp_path = ''std::io'', imp_symbols = [], imp_line = 0\<rparr>,
         \<lparr>imp_path = ''a'', imp_symbols = [], imp_line = 2\<rparr>, \<lparr>imp_path = ''b'', imp_symbols = [''c''], imp_line = 0\<rparr>],
       an_exports := [], an_lint_hints := [\<lparr>lh_line = 3, lh_column = 0, lh_severity = SevWarning,
         lh_message = ''x'', lh_rule = None\<rparr>]\<rparr>)"
proof -
  have "str_trim ''{}'' \<noteq> []" by code_simp
  moreover have "answer_means demo_answer [\<lparr>imp_path = ''std::io'', imp_symbols = [], imp_line = 0\<rparr>,
         \<lparr>imp_path = ''a'', imp_symbols = [], imp_line = 2\<rparr>, \<lparr>imp_path = ''b'', imp_symbols = [''c''], imp_line = 0\<rparr>]
       [] [\<lparr>lh_line = 3, lh_column = 0, lh_severity = SevWarning, lh_message = ''x'', lh_rule = None\<rparr>]"
    by (simp add: answer_means_def demo_answer_def hint_means_def object_import_def field_or_def obj_get_def
        no_repeats_def json_u32_def)
  ultimately show ?thesis
    by (intro llm_answer_is_merged[where j = demo_answer and answer = "''{}''", THEN conjunct1]) simp_all
qed

end
