(* ===== verification/Pipeline.thy ===== *)
theory Pipeline
  imports Llm_Analyzer Server_State
begin

text \<open>
  The analysis pipeline of \<open>crates/ambient-fs-server/src/pipeline.rs\<close>: from a file event to a cached
  analysis.  It keeps its cache in the file at the store path, \<open>ss_db\<close>.  The semaphore only delays and
  is not part of the model; a scheduled analysis is one step.  The call of the language model is an
  argument, as are the tables of Unicode, the JSON syntax and the registry's custom languages.
\<close>

record analysis_env =
  ae_alpha :: "string \<Rightarrow> bool"
  ae_upper :: "string \<Rightarrow> string"
  ae_json :: "string \<Rightarrow> string + json"
  ae_contended :: bool
  ae_registry :: language_registry

record pipeline_config =
  pc_max_concurrent :: nat
  pc_max_file_size :: nat

definition pipeline_config_default :: pipeline_config where
  "pipeline_config_default = \<lparr>pc_max_concurrent = 2, pc_max_file_size = 1024 * 1024\<rparr>"

record analysis_pipeline =
  pl_analyzer_max :: nat
  pl_store_path :: string
  pl_config :: pipeline_config
  pl_has_state :: bool
  pl_llm :: "(string \<Rightarrow> string \<Rightarrow> string + string) option"

definition pipeline_new :: "string \<Rightarrow> pipeline_config \<Rightarrow> analysis_pipeline" where
  "pipeline_new path cfg = \<lparr>pl_analyzer_max = pc_max_file_size cfg, pl_store_path = path, pl_config = cfg,
     pl_has_state = False, pl_llm = None\<rparr>"

definition pipeline_with_state :: "analysis_pipeline \<Rightarrow> analysis_pipeline" where
  "pipeline_with_state pl = pl\<lparr>pl_has_state := True\<rparr>"

definition pipeline_with_llm :: "(string \<Rightarrow> string \<Rightarrow> string + string) \<Rightarrow> analysis_pipeline \<Rightarrow> analysis_pipeline" where
  "pipeline_with_llm call pl = pl\<lparr>pl_llm := Some call\<rparr>"

definition pipeline_with_defaults :: "string \<Rightarrow> analysis_pipeline" where
  "pipeline_with_defaults path = pipeline_new path pipeline_config_default"

subsection \<open>One file\<close>

text \<open>The cache at the store path, or one in memory that is lost when it cannot be opened.  An error
  reads as the default.\<close>

definition on_cache :: "env \<Rightarrow> (database \<Rightarrow> sqlite_error + 'a \<times> database) \<Rightarrow> 'a \<Rightarrow> server_state \<Rightarrow> 'a \<times> server_state" where
  "on_cache en f dflt st =
     (if en_store_opens en then
        (let db = cache_open (ss_db st) in
         case f db of
           Inl _ \<Rightarrow> (dflt, st\<lparr>ss_db := db\<rparr>)
         | Inr (a, db') \<Rightarrow> (a, st\<lparr>ss_db := db'\<rparr>))
      else
        (case f (cache_open database_empty) of Inl _ \<Rightarrow> (dflt, st) | Inr (a, _) \<Rightarrow> (a, st)))"

definition put_analysis :: "env \<Rightarrow> file_analysis \<Rightarrow> server_state \<Rightarrow> server_state" where
  "put_analysis en a st =
     snd (on_cache en (\<lambda>db. bind_res (cache_put (en_codec en) (en_now en) a db) (\<lambda>db'. Inr ((), db'))) () st)"

definition analyze_file ::
  "env \<Rightarrow> analysis_env \<Rightarrow> analysis_pipeline \<Rightarrow> file_event \<Rightarrow> string \<Rightarrow> server_state
    \<Rightarrow> file_analysis option \<times> server_state" where
  "analyze_file en ae pl e root st =
     (if ev_type e \<notin> {Created, Modified} then (None, st)
      else (case ev_content_hash e of
        None \<Rightarrow> (None, st)
      | Some hash \<Rightarrow>
          (let (fresh, st1) = on_cache en (\<lambda>db. bind_res
                 (cache_is_fresh (ev_project_id e) (ev_file_path e) hash db) (\<lambda>b. Inr (b, db))) False st in
           if fresh then (None, st1)
           else (case analyze (ae_alpha ae) (ae_upper ae) (en_disk en) (file_analyzer_new (pl_analyzer_max pl))
                   (join_path root (ev_file_path e)) (ev_project_id e) hash of
              Inl _ \<Rightarrow> (None, st1)
            | Inr a0 \<Rightarrow>
                (let a = a0\<lparr>an_file_path := ev_file_path e\<rparr> in (Some a, put_analysis en a st1))))))"

text \<open>The second tier, for a file of a known language that can be read.\<close>

definition tier_two ::
  "env \<Rightarrow> analysis_env \<Rightarrow> (string \<Rightarrow> string \<Rightarrow> string + string) \<Rightarrow> file_event \<Rightarrow> string \<Rightarrow> file_analysis
    \<Rightarrow> server_state \<Rightarrow> file_analysis \<times> server_state" where
  "tier_two en ae call e root a st =
     (let path = join_path root (ev_file_path e) in
      case get_for_path (ae_contended ae) path (ae_registry ae) of
        None \<Rightarrow> (a, st)
      | Some lang \<Rightarrow>
          (case dk_read (en_disk en) path of
             Inl _ \<Rightarrow> (a, st)
           | Inr content \<Rightarrow>
               if \<not> utf8_valid content then (a, st)
               else (let (system, user) = build_prompt (ev_file_path e) content (lc_name lang) in
                 case call system user of
                   Inl _ \<Rightarrow> (a, st)
                 | Inr response \<Rightarrow>
                     (case enhance_with_llm_response (ae_json ae) a response of
                        Inl _ \<Rightarrow> (a, st)
                      | Inr enhanced \<Rightarrow> (enhanced, put_analysis en enhanced st)))))"

definition do_analyze ::
  "env \<Rightarrow> analysis_env \<Rightarrow> analysis_pipeline \<Rightarrow> file_event \<Rightarrow> string \<Rightarrow> server_state \<Rightarrow> server_state" where
  "do_analyze en ae pl e root st =
     (case analyze_file en ae pl e root st of
        (None, st1) \<Rightarrow> st1
      | (Some a, st1) \<Rightarrow>
          (let (a', st2) = (case pl_llm pl of None \<Rightarrow> (a, st1) | Some call \<Rightarrow> tier_two en ae call e root a st1) in
           if pl_has_state pl
           then st2\<lparr>ss_subscriptions := snd (publish_analysis (ev_project_id e) (ev_file_path e)
                  (an_line_count a') (an_todo_count a') (ss_subscriptions st2))\<rparr>
           else st2))"

subsection \<open>What an analysis leaves alone\<close>

definition same_but_cache :: "server_state \<Rightarrow> server_state \<Rightarrow> bool" where
  "same_but_cache st st' \<longleftrightarrow> (\<exists>t. ss_db st' = (ss_db st)\<lparr>db_analysis := t\<rparr>) \<and>
     ss_analysis_db st' = ss_analysis_db st \<and> ss_projects st' = ss_projects st \<and>
     ss_trees st' = ss_trees st \<and> ss_agent_tracker st' = ss_agent_tracker st \<and>
     ss_watchers st' = ss_watchers st \<and> ss_machine_id st' = ss_machine_id st"

lemma same_but_cache_refl [simp]: "same_but_cache st st"
  by (auto simp: same_but_cache_def intro: exI[of _ "db_analysis (ss_db st)"])

lemma same_but_cache_trans: "same_but_cache a b \<Longrightarrow> same_but_cache b c \<Longrightarrow> same_but_cache a c"
  by (auto simp: same_but_cache_def)

lemma same_but_cache_subs [simp]: "same_but_cache a (b\<lparr>ss_subscriptions := m\<rparr>) = same_but_cache a b"
  by (simp add: same_but_cache_def)

lemma db_self: "\<exists>t. db = db\<lparr>db_analysis := t\<rparr>"
  by (rule exI[of _ "db_analysis db"]) simp

lemma on_cache_same:
  assumes "\<And>db a db'. f db = Inr (a, db') \<Longrightarrow> \<exists>t. db' = db\<lparr>db_analysis := t\<rparr>"
  shows "same_but_cache st (snd (on_cache en f d st))"
  using assms[of "cache_open (ss_db st)"]
  by (auto simp: on_cache_def same_but_cache_def cache_open_def Let_def split: sum.split prod.split)
    (metis database.surjective database.update_convs)+

lemma put_analysis_same: "same_but_cache st (put_analysis en a st)"
  unfolding put_analysis_def
  by (rule on_cache_same)
    (auto simp: bind_res_Inr cache_put_def with_analysis_def split: option.splits)

lemma tier_two_same: "same_but_cache st (snd (tier_two en ae call e root a st))"
  by (auto simp: tier_two_def Let_def put_analysis_same split: option.split sum.split prod.split)

lemma analyze_file_same: "same_but_cache st (snd (analyze_file en ae pl e root st))"
proof -
  have "same_but_cache st (snd (on_cache en (\<lambda>db. bind_res (cache_is_fresh pid path hash db)
      (\<lambda>b. Inr (b, db))) False st))" for pid path hash
    by (rule on_cache_same) (auto simp: bind_res_Inr intro: db_self)
  then show ?thesis
    by (auto simp: analyze_file_def Let_def split_beta put_analysis_same same_but_cache_trans[OF _ put_analysis_same]
        split: option.split sum.split)
qed

lemma do_analyze_same: "same_but_cache st (do_analyze en ae pl e root st)"
proof -
  obtain ao st1 where 1: "analyze_file en ae pl e root st = (ao, st1)" by force
  have st1: "same_but_cache st st1" using analyze_file_same[of st en ae pl e root] by (simp add: 1)
  moreover have "same_but_cache st (snd (tier_two en ae call e root a st1))" for call a
    by (rule same_but_cache_trans[OF st1 tier_two_same])
  ultimately show ?thesis
    by (auto simp: do_analyze_def 1 Let_def split_beta split: option.split)
qed

lemma do_analyze_unhashed: "ev_content_hash e = None \<Longrightarrow> do_analyze en ae pl e root st = st"
  by (simp add: do_analyze_def analyze_file_def)

lemma read_store_result:
  "fst (read_store en f st) = (if en_store_opens en then f (event_store_new (ss_db st)) else Inl (Sqlite CannotOpen))"
  by (cases "f (event_store_new (ss_db st))") (simp_all add: read_store_def on_store_def Let_def)

lemma build_awareness_result:
  "fst (build_awareness en pid path st) =
     (case fst (read_store en (store_get_latest (en_order en) (en_parse en) pid path) st) of
        Inl err \<Rightarrow> Inl (AwStore err)
      | Inr None \<Rightarrow> Inr None
      | Inr (Some e) \<Rightarrow>
          (case (if en_cache_opens en then cache_get (en_codec en) pid path (cache_open (ss_analysis_db st)) else Inl CannotOpen) of
             Inl err \<Rightarrow> Inl (AwCache err)
           | Inr an \<Rightarrow> Inr (Some (combine_awareness en e an
               (tracker_active_agent (en_now en) path (ss_agent_tracker st)) (get_reference_count path (ss_agent_tracker st))))))"
proof -
  obtain r st1 where 1: "read_store en (store_get_latest (en_order en) (en_parse en) pid path) st = (r, st1)" by force
  have "ss_analysis_db st1 = ss_analysis_db st" "ss_agent_tracker st1 = ss_agent_tracker st"
    using read_store_fields(4,5)[of en "store_get_latest (en_order en) (en_parse en) pid path" st] by (simp_all add: 1)
  then show ?thesis
    by (auto simp: build_awareness_def 1 read_cache_def get_active_agent_def Let_def split: sum.split option.split)
qed

subsection \<open>What an analysis caches\<close>

lemma cache_open_id: "cache_ok db \<Longrightarrow> cache_open db = db"
  by (auto simp: cache_ok_def cache_open_def)

lemma fresh_check:
  assumes "en_store_opens en" and "cache_ok (cache_open (ss_db st))"
  shows "on_cache en (\<lambda>db. bind_res (cache_is_fresh pid path hash db) (\<lambda>b. Inr (b, db))) False st
    = (fresh_view (en_codec en) (cache_open (ss_db st)) (pid, path) hash \<noteq> None, st\<lparr>ss_db := cache_open (ss_db st)\<rparr>)"
  by (simp add: on_cache_def assms(1) Let_def cache_fresh_spec(2)[OF assms(2), where c = "en_codec en"])

lemma put_analysis_eq:
  assumes "en_store_opens en" and "cache_ok (ss_db st)"
  shows "put_analysis en a st = st\<lparr>ss_db := cache_write (en_codec en) (en_now en) a (ss_db st)\<rparr>"
  by (simp add: put_analysis_def on_cache_def assms(1) Let_def cache_open_id[OF assms(2)] cache_ops_succeed(2)[OF assms(2)])

lemma analyze_file_some:
  assumes "en_store_opens en" and "cache_ok (cache_open (ss_db st))"
    and "analyze_file en ae pl e root st = (Some a, st')"
  shows "ev_content_hash e = Some (an_content_hash a)" and "analysis_key a = (ev_project_id e, ev_file_path e)"
    and "ev_type e \<in> {Created, Modified}"
    and "st' = st\<lparr>ss_db := cache_write (en_codec en) (en_now en) a (cache_open (ss_db st))\<rparr>"
proof -
  let ?st1 = "st\<lparr>ss_db := cache_open (ss_db st)\<rparr>"
  have put: "put_analysis en x ?st1 = st\<lparr>ss_db := cache_write (en_codec en) (en_now en) x (cache_open (ss_db st))\<rparr>" for x
    using put_analysis_eq[OF assms(1), of ?st1] assms(2) by simp
  show "ev_content_hash e = Some (an_content_hash a)" "analysis_key a = (ev_project_id e, ev_file_path e)"
    "ev_type e \<in> {Created, Modified}"
    "st' = st\<lparr>ss_db := cache_write (en_codec en) (en_now en) a (cache_open (ss_db st))\<rparr>"
    using assms(3) fresh_check[OF assms(1,2)] put
    by (auto simp: analyze_file_def analyze_def analysis_key_def Let_def bind_res_Inr
        split: if_splits option.splits sum.splits)
qed

subsection \<open>Properties\<close>

text \<open>
  C28. An analysis is cached once: when a file event leads to an analysis, the cache at the store path
  returns it for the project and the path of the event, it is marked with the hash of the event, no
  other entry changes, and analysing the same event again finds the cache fresh and does nothing.
  Hypothesis: the JSON texts of the analysis' lists read back.
\<close>

theorem analysis_is_cached_once:
  assumes "en_store_opens en" and "cache_ok (ss_db st) \<or> db_analysis (ss_db st) = None"
    and "analyze_file en ae pl e root st = (Some a, st')" and "codec_keeps (en_codec en) a"
  shows "cache_get (en_codec en) (ev_project_id e) (ev_file_path e) (ss_db st') = Inr (Some a) \<and>
    ev_content_hash e = Some (an_content_hash a) \<and>
    analyze_file en ae' pl' e root' st' = (None, st') \<and>
    (k \<noteq> (ev_project_id e, ev_file_path e) \<longrightarrow>
       cache_view (en_codec en) (ss_db st') k = cache_view (en_codec en) (cache_open (ss_db st)) k)"
proof -
  let ?db = "cache_open (ss_db st)"
  have ok: "cache_ok ?db" using assms(2) by (rule cache_open_ok')
  note some = analyze_file_some[OF assms(1) ok assms(3)]
  have ok': "cache_ok (ss_db st')" using cache.inv_update[OF ok assms(4), of "en_now en"] some(4) by simp
  have view: "cache_view (en_codec en) (ss_db st') j
      = (if j = (ev_project_id e, ev_file_path e) then Some a else cache_view (en_codec en) ?db j)" for j
    using cache.lookup_update[OF ok assms(4), of "en_now en" j] some(2,4) by simp
  have "fresh_view (en_codec en) (ss_db st') (ev_project_id e, ev_file_path e) (an_content_hash a) = Some a"
    by (simp add: fresh_view_def view is_valid_for_def)
  then have "analyze_file en ae' pl' e root' st' = (None, st')"
    using fresh_check[OF assms(1), of st'] ok' some(1,3) by (simp add: analyze_file_def Let_def cache_open_id)
  then show ?thesis
    by (simp add: view some(1) cache_ops_succeed(1)[OF ok'])
qed

definition demo_analysis_env :: analysis_env where
  "demo_analysis_env = \<lparr>ae_alpha = ascii_alpha, ae_upper = ascii_upper, ae_json = (\<lambda>_. Inl ''expected value''),
     ae_contended = False, ae_registry = with_builtin_languages\<rparr>"

definition hashed_event :: file_event where
  "hashed_event = with_content_hash ''h'' (log_event 5 ''a.rs'')"

definition empty_state :: server_state where
  "empty_state = with_machine_id ''/db'' ''m'' database_empty database_empty"

theorem analysis_is_cached_once_witness:
  "\<exists>a st'. analyze_file demo_env demo_analysis_env (pipeline_with_defaults ''/db'') hashed_event ''/w'' empty_state = (Some a, st') \<and>
     an_line_count a = 1 \<and> cache_get demo_codec ''p'' ''a.rs'' (ss_db st') = Inr (Some a) \<and>
     analyze_file demo_env demo_analysis_env (pipeline_with_defaults ''/db'') hashed_event ''/w'' st' = (None, st')"
proof -
  let ?r = "analyze_file demo_env demo_analysis_env (pipeline_with_defaults ''/db'') hashed_event ''/w'' empty_state"
  have o: "en_store_opens demo_env" "en_codec demo_env = demo_codec" by (simp_all add: demo_env_def)
  have e: "ev_type hashed_event = Modified" "ev_content_hash hashed_event = Some ''h''"
    "ev_project_id hashed_event = ''p''" "ev_file_path hashed_event = ''a.rs''"
    by (simp_all add: hashed_event_def with_content_hash_def log_event_def file_event_new_def)
  have none: "db_analysis (ss_db empty_state) = None"
    by (simp add: empty_state_def with_machine_id_def database_empty_def)
  have fresh: "fresh_view demo_codec (cache_open (ss_db empty_state)) (''p'', ''a.rs'') ''h'' = None"
    by (simp add: fresh_view_def cache_view_def cache_get_def with_analysis_def cache_open_def none)
  have counts: "utf8_valid ''x''" "count_lines ''x'' = 1" "count_todos ascii_alpha ascii_upper ''x'' = 0" by code_simp+
  have "\<exists>a st'. ?r = (Some a, st') \<and> an_line_count a = 1 \<and> an_exports a = [] \<and> an_imports a = [] \<and> an_lint_hints a = []"
    using fresh_check[OF o(1) cache_open_ok'[of "ss_db empty_state"]] none fresh counts
    by (simp add: analyze_file_def e o analyze_def demo_env_def demo_disk_def demo_analysis_env_def Let_def
        file_analyzer_new_def pipeline_with_defaults_def pipeline_new_def pipeline_config_default_def)
  then obtain a st' where r: "?r = (Some a, st')" "an_line_count a = 1" "codec_keeps demo_codec a"
    by (auto simp: codec_keeps_def demo_codec_def)
  then show ?thesis
    using analysis_is_cached_once[OF o(1) _ r(1)] none by (auto simp: e o(2))
qed

text \<open>
  Analyses never reach the awareness of a file: \<open>do_analyze\<close> caches at the store path and
  \<open>build_awareness\<close> reads the file \<open>analysis.db\<close>, so whatever is analysed, with or without a language
  model, every awareness query has the answer that it had before.
\<close>

theorem analysis_never_reaches_awareness:
  "fst (build_awareness en' pid path (do_analyze en ae pl e root st)) = fst (build_awareness en' pid path st)"
proof -
  let ?st' = "do_analyze en ae pl e root st"
  obtain t where db: "ss_db ?st' = (ss_db st)\<lparr>db_analysis := t\<rparr>"
    and rest: "ss_analysis_db ?st' = ss_analysis_db st" "ss_agent_tracker ?st' = ss_agent_tracker st"
    using do_analyze_same[of st en ae pl e root] by (auto simp: same_but_cache_def)
  have "event_store_new (ss_db ?st') = (event_store_new (ss_db st))\<lparr>db_analysis := t\<rparr>"
    by (simp add: event_store_new_def db)
  moreover have "store_get_latest od parse pid path (d\<lparr>db_analysis := t\<rparr>) = store_get_latest od parse pid path d" for od parse d
    by (simp add: store_get_latest_def)
  ultimately have latest: "fst (read_store en' (store_get_latest (en_order en') (en_parse en') pid path) ?st')
      = fst (read_store en' (store_get_latest (en_order en') (en_parse en') pid path) st)"
    by (simp add: read_store_result)
  show ?thesis unfolding build_awareness_result rest latest ..
qed

end
