(* ===== verification/Daemon.thy ===== *)
theory Daemon
  imports Pipeline Pruning Socket
begin

text \<open>
  The daemon of \<open>crates/ambient-fsd/src/server.rs\<close>: its watcher, the shared server state, the analysis
  pipeline, the event loop and the project operations.  Tasks run interleaved: an event of the watcher
  waits in \<open>dm_queue\<close> until the loop takes it, a scheduled analysis in \<open>dm_tasks\<close>.  What the outside
  answers, beyond \<open>env\<close>, is the record \<open>daemon_env\<close>.
\<close>

record daemon_env =
  de_lower :: "string \<Rightarrow> string"
  de_files :: file_system
  de_blake3 :: "string \<Rightarrow> string"
  de_order_projects :: "project_row list \<Rightarrow> project_row list"
  de_iter :: "(string \<Rightarrow> string option) \<Rightarrow> (string \<times> string) list"
  de_mkdir_error :: "string option"
  de_bind_error :: "string option"
  de_hostname :: "string option"
  de_analysis :: analysis_env

record server_config =
  cf_db_path :: string
  cf_socket_path :: string
  cf_debounce_ms :: nat
  cf_max_file_size_bytes :: nat
  cf_machine_id :: string

text \<open>The environment variables, where they are set and UTF-8.\<close>

definition default_machine_id :: "(string \<Rightarrow> string option) \<Rightarrow> string" where
  "default_machine_id var =
     (case var ''HOSTNAME'' of Some h \<Rightarrow> h
      | None \<Rightarrow> (case var ''COMPUTERNAME'' of Some c \<Rightarrow> c | None \<Rightarrow> ''localhost''))"

definition server_config_default :: "(string \<Rightarrow> string option) \<Rightarrow> server_config" where
  "server_config_default var =
     \<lparr>cf_db_path = ''/tmp/ambient-fs/events.db'', cf_socket_path = ''/tmp/ambient-fs.sock'',
      cf_debounce_ms = 100, cf_max_file_size_bytes = 10 * 1024 * 1024, cf_machine_id = default_machine_id var\<rparr>"

record daemon =
  dm_config :: server_config
  dm_state :: server_state
  dm_watcher :: fs_watcher
  dm_pipeline :: analysis_pipeline
  dm_running :: bool
  dm_bound :: bool
  dm_channel :: "nat option"
  dm_queue :: "file_event list"
  dm_tasks :: "(file_event \<times> string) list"

datatype daemon_error = DmIo string | DmStore store_error | DmWatch watch_error | DmBind string

text \<open>\<open>db\<close> and \<open>adb\<close> are the database files at the store path and beside it.\<close>

definition daemon_new :: "env \<Rightarrow> daemon_env \<Rightarrow> server_config \<Rightarrow> database \<Rightarrow> database \<Rightarrow> daemon_error + daemon" where
  "daemon_new en de cf db adb =
     (case de_mkdir_error de of
        Some e \<Rightarrow> Inl (DmIo e)
      | None \<Rightarrow>
          if \<not> en_store_opens en then Inl (DmStore (Sqlite CannotOpen))
          else Inr \<lparr>dm_config = cf,
            dm_state = server_state_new (de_hostname de) (cf_db_path cf) (event_store_new db) adb,
            dm_watcher = fs_watcher_new ''default'' (cf_machine_id cf),
            dm_pipeline = pipeline_with_state (pipeline_new (cf_db_path cf)
              \<lparr>pc_max_concurrent = 2, pc_max_file_size = cf_max_file_size_bytes cf\<rparr>),
            dm_running = False, dm_bound = False, dm_channel = None, dm_queue = [], dm_tasks = []\<rparr>)"

definition generate_project_id :: "string \<Rightarrow> string" where
  "generate_project_id path =
     (case Option.bind (file_name path) to_str of None \<Rightarrow> ''unknown'' | Some n \<Rightarrow> n)"

subsection \<open>Restoring and starting\<close>

definition forget_project :: "env \<Rightarrow> string \<Rightarrow> server_state \<Rightarrow> server_state" where
  "forget_project en pid st =
     snd (on_store en (\<lambda>db. bind_res (store_remove_project pid db) (\<lambda>db'. Inr ((), db'))) st)"

definition restore_one :: "env \<Rightarrow> daemon_env \<Rightarrow> string \<times> string \<Rightarrow> daemon \<Rightarrow> daemon" where
  "restore_one en de pp d =
     (let (pid, path) = pp in
      if dk_exists (en_disk en) path then
        (case fw_watch (en_disk en) (en_watch_error en path) path (dm_watcher d) of
           Inl _ \<Rightarrow> d\<lparr>dm_state := forget_project en pid (dm_state d)\<rparr>
         | Inr w \<Rightarrow>
             d\<lparr>dm_watcher := w,
               dm_state := add_tree pid (from_directory (de_lower de) (de_files de) path path_filter_default)
                 (add_project pid path (dm_state d))\<rparr>)
      else d\<lparr>dm_state := forget_project en pid (dm_state d)\<rparr>)"

definition restore_projects :: "env \<Rightarrow> daemon_env \<Rightarrow> daemon \<Rightarrow> (daemon_error + unit) \<times> daemon" where
  "restore_projects en de d =
     (case read_store en (store_list_projects (de_order_projects de)) (dm_state d) of
        (Inl err, st) \<Rightarrow> (Inl (DmStore err), d\<lparr>dm_state := st\<rparr>)
      | (Inr ps, st) \<Rightarrow> (Inr (), fold (restore_one en de) ps (d\<lparr>dm_state := st\<rparr>)))"

text \<open>The prune cycle at start; its errors are logged.\<close>

definition prune_at_start :: "env \<Rightarrow> daemon \<Rightarrow> daemon" where
  "prune_at_start en d =
     (if en_store_opens en
      then d\<lparr>dm_state := (dm_state d)\<lparr>ss_db := snd (prune_cycle (en_fmt en) (en_now en)
             (pn_config (prune_scheduler_new (cf_db_path (dm_config d)) 90)) (ss_db (dm_state d)))\<rparr>\<rparr>
      else d)"

text \<open>A turn of the periodic task, \<open>PruneScheduler::run\<close>: the cycle again, and the cutoff it used.\<close>

definition scheduler_tick :: "env \<Rightarrow> daemon \<Rightarrow> timestamp option \<times> daemon" where
  "scheduler_tick en d =
     (if en_store_opens en
      then cutoff_timestamp (en_now en) (pn_config (prune_scheduler_new (cf_db_path (dm_config d)) 90)) else None,
      prune_at_start en d)"

text \<open>\<open>run\<close> up to the event loop.  An early return leaves \<open>running\<close> set.\<close>

definition daemon_start :: "env \<Rightarrow> daemon_env \<Rightarrow> daemon \<Rightarrow> (daemon_error + unit) \<times> daemon" where
  "daemon_start en de d =
     (if dm_running d then (Inr (), d)
      else (case fw_start (en_start_error en) (dm_watcher d) of
        (Inl err, w) \<Rightarrow> (Inl (DmWatch err), d\<lparr>dm_running := True, dm_watcher := w\<rparr>)
      | (Inr ch, w) \<Rightarrow>
          (case restore_projects en de (d\<lparr>dm_running := True, dm_watcher := w\<rparr>) of
             (Inl err, d1) \<Rightarrow> (Inl err, d1)
           | (Inr _, d1) \<Rightarrow>
               (let d2 = prune_at_start en d1 in
                if dm_bound d2 then (Inl (DmBind ''already bound''), d2)
                else (case de_bind_error de of
                  Some e \<Rightarrow> (Inl (DmBind e), d2)
                | None \<Rightarrow> (Inr (), d2\<lparr>dm_bound := True, dm_channel := Some ch, dm_queue := []\<rparr>))))))"

subsection \<open>The event loop\<close>

text \<open>The first project, in the iteration order of the map, whose path is a prefix of the text.\<close>

definition project_of :: "(string \<times> string) list \<Rightarrow> string \<Rightarrow> string option" where
  "project_of ps path =
     map_option fst (List.find (\<lambda>(pid, root). starts_with path (to_string_lossy root)) ps)"

definition resolve :: "env \<Rightarrow> daemon_env \<Rightarrow> server_state \<Rightarrow> file_event \<Rightarrow> file_event" where
  "resolve en de st e =
     (let e1 = (case project_of (de_iter de (ss_projects st)) (ev_file_path e) of
                  None \<Rightarrow> e | Some pid \<Rightarrow> e\<lparr>ev_project_id := pid\<rparr>) in
      case get_active_agent en (ev_file_path e1) st of
        None \<Rightarrow> e1 | Some _ \<Rightarrow> e1\<lparr>ev_source := AiAgent\<rparr>)"

text \<open>Step 1; the errors of the store are logged.\<close>

definition persist :: "env \<Rightarrow> file_event \<Rightarrow> server_state \<Rightarrow> server_state" where
  "persist en e st = snd (on_store en (store_insert (en_fmt en) e) st)"

text \<open>Step 3.\<close>

definition update_tree :: "daemon_env \<Rightarrow> file_event \<Rightarrow> server_state \<Rightarrow> server_state" where
  "update_tree de e st =
     (case ss_trees st (ev_project_id e) of
        None \<Rightarrow> st
      | Some t \<Rightarrow>
          (let (patch, t') = apply_event (de_lower de) t e; st1 = add_tree (ev_project_id e) t' st in
           case patch of
             None \<Rightarrow> st1
           | Some p \<Rightarrow> publish (NTreePatch (ev_project_id e) p) st1))"

text \<open>One event: what was recorded, if the daemon runs, and the daemon afterwards.  The event is handled in one
  step; the code awaits between recording, publishing and the tree, so that other tasks may run in between.\<close>

definition handle_event :: "env \<Rightarrow> daemon_env \<Rightarrow> file_event \<Rightarrow> daemon \<Rightarrow> file_event list \<times> daemon" where
  "handle_event en de e d =
     (if \<not> dm_running d then ([], d)
      else (let e' = resolve en de (dm_state d) e;
                st = update_tree de e' (publish (NEvent e') (persist en e' (dm_state d)));
                tasks = (if ev_type e' \<in> {Created, Modified}
                         then (case get_project (ev_project_id e') st of None \<Rightarrow> [] | Some root \<Rightarrow> [(e', root)])
                         else []) in
            ([e'], d\<lparr>dm_state := st, dm_tasks := dm_tasks d @ tasks\<rparr>)))"

subsection \<open>Project operations\<close>

definition daemon_watch_project :: "env \<Rightarrow> daemon_env \<Rightarrow> string \<Rightarrow> daemon \<Rightarrow> (daemon_error + string) \<times> daemon" where
  "daemon_watch_project en de path d =
     (let pid = generate_project_id path in
      case fw_watch (en_disk en) (en_watch_error en path) path (dm_watcher d) of
        Inl err \<Rightarrow> (Inl (DmWatch err), d)
      | Inr w \<Rightarrow>
          (case on_store en (\<lambda>db. bind_res (store_add_project (en_fmt en) (en_now en) pid path db)
                  (\<lambda>db'. Inr ((), db'))) (dm_state d) of
             (Inl err, st) \<Rightarrow> (Inl (DmStore err), d\<lparr>dm_watcher := w, dm_state := st\<rparr>)
           | (Inr _, st) \<Rightarrow>
               (Inr pid, d\<lparr>dm_watcher := w,
                  dm_state := add_project pid path
                    (add_tree pid (from_directory (de_lower de) (de_files de) path path_filter_default) st)\<rparr>)))"

definition daemon_unwatch_project :: "env \<Rightarrow> string \<Rightarrow> daemon \<Rightarrow> (daemon_error + unit) \<times> daemon" where
  "daemon_unwatch_project en pid d =
     (case on_store en (\<lambda>db. bind_res (store_get_project_path pid db) (\<lambda>path.
             bind_res (store_remove_project pid db) (\<lambda>db'. Inr (path, db')))) (dm_state d) of
        (Inl err, st) \<Rightarrow> (Inl (DmStore err), d\<lparr>dm_state := st\<rparr>)
      | (Inr path, st) \<Rightarrow>
          (case (case path of None \<Rightarrow> Inr (dm_watcher d)
                 | Some p \<Rightarrow> fw_unwatch (en_watch_error en p) p (dm_watcher d)) of
             Inl err \<Rightarrow> (Inl (DmWatch err), d\<lparr>dm_state := st\<rparr>)
           | Inr w \<Rightarrow>
               (Inr (), d\<lparr>dm_watcher := w,
                  dm_state := snd (remove_project pid (snd (remove_tree pid st)))\<rparr>)))"

text \<open>\<open>None\<close>: the arithmetic of chrono panics.\<close>

definition daemon_query_events ::
  "env \<Rightarrow> string option \<Rightarrow> duration option \<Rightarrow> source option \<Rightarrow> nat option \<Rightarrow> daemon
    \<Rightarrow> (store_error + file_event list) option \<times> daemon" where
  "daemon_query_events en pid since src lim d =
     (let f1 = (case pid of None \<Rightarrow> event_filter_new | Some p \<Rightarrow> filter_project_id p event_filter_new);
          f2 = (case src of None \<Rightarrow> f1 | Some s \<Rightarrow> filter_source s f1);
          f3 = (case lim of None \<Rightarrow> f2 | Some n \<Rightarrow> filter_limit n f2) in
      if \<not> en_store_opens en then (Some (Inl (Sqlite CannotOpen)), d)
      else (case (case since of None \<Rightarrow> Some f3
                  | Some s \<Rightarrow> map_option (\<lambda>t. filter_since t f3)
                      (Option.bind (checked_seconds (trunc_div s nanos_per_sec)) (utc_minus (en_now en)))) of
        None \<Rightarrow> (None, d\<lparr>dm_state := (dm_state d)\<lparr>ss_db := event_store_new (ss_db (dm_state d))\<rparr>\<rparr>)
      | Some f \<Rightarrow>
          (let (r, st) = read_store en (store_query (en_order en) (en_fmt en) (en_parse en) f) (dm_state d) in
           (Some r, d\<lparr>dm_state := st\<rparr>))))"

text \<open>The end of \<open>run\<close> after a signal: the flag, then the watcher.\<close>

definition daemon_stop :: "daemon \<Rightarrow> daemon" where
  "daemon_stop d = d\<lparr>dm_running := False, dm_watcher := fw_stop (dm_watcher d)\<rparr>"

subsection \<open>Interleavings\<close>

datatype daemon_op =
  OpNotify "string + event_kind \<times> string list"
| OpHandle
| OpTask nat
| OpWatch string
| OpUnwatch string
| OpQuery "string option"

definition drop_nth :: "nat \<Rightarrow> 'a list \<Rightarrow> 'a list" where
  "drop_nth n xs = take n xs @ drop (Suc n) xs"

text \<open>A step in its environment: the events that the watcher sent to the loop, the events that the loop
  recorded, and the daemon.\<close>

fun daemon_step :: "daemon_env \<Rightarrow> env \<times> daemon_op \<Rightarrow> daemon \<Rightarrow> file_event list \<times> file_event list \<times> daemon" where
  "daemon_step de (en, OpNotify res) d =
     (let (sent, w) = handle_events (de_blake3 de) (en_disk en) (en_now en) res (dm_watcher d);
          es = map snd (filter (\<lambda>(ch, _). dm_channel d = Some ch) sent) in
      (es, [], d\<lparr>dm_watcher := w, dm_queue := dm_queue d @ es\<rparr>))"
| "daemon_step de (en, OpHandle) d =
     (case dm_queue d of
        [] \<Rightarrow> ([], [], d)
      | e # es \<Rightarrow> (let (rec, d') = handle_event en de e (d\<lparr>dm_queue := es\<rparr>) in ([], rec, d')))"
| "daemon_step de (en, OpTask n) d =
     (if n < length (dm_tasks d)
      then (let (e, root) = dm_tasks d ! n in
        ([], [], d\<lparr>dm_state := do_analyze en (de_analysis de) (dm_pipeline d) e root (dm_state d),
           dm_tasks := drop_nth n (dm_tasks d)\<rparr>))
      else ([], [], d))"
| "daemon_step de (en, OpWatch path) d = ([], [], snd (daemon_watch_project en de path d))"
| "daemon_step de (en, OpUnwatch pid) d = ([], [], snd (daemon_unwatch_project en pid d))"
| "daemon_step de (en, OpQuery pid) d = ([], [], snd (daemon_query_events en pid None None None d))"

fun daemon_run :: "daemon_env \<Rightarrow> (env \<times> daemon_op) list \<Rightarrow> daemon \<Rightarrow> file_event list \<times> file_event list \<times> daemon" where
  "daemon_run de [] d = ([], [], d)"
| "daemon_run de (op # ops) d =
     (let (sent, rec, d1) = daemon_step de op d; (sent', rec', d2) = daemon_run de ops d1 in
      (sent @ sent', rec @ rec', d2))"

subsection \<open>The log and the announcements\<close>

lemma holds_log_events:
  "db_events db' = db_events db \<Longrightarrow> holds_log fmt T db' L = holds_log fmt T db L"
  "db_events db' = db_events db \<Longrightarrow> key_seq db' = key_seq db"
  by (simp_all add: holds_log_def key_seq_def)

definition events_in :: "notif list \<Rightarrow> file_event list" where
  "events_in ns = concat (map (\<lambda>n. case n of NEvent e \<Rightarrow> [e] | _ \<Rightarrow> []) ns)"

definition announced :: "server_state \<Rightarrow> server_state \<Rightarrow> file_event list \<Rightarrow> bool" where
  "announced st st' es \<longleftrightarrow>
     (\<exists>ns. ss_subscriptions st' = publish_all ns (ss_subscriptions st) \<and> events_in ns = es)"

lemma announced_none [intro]: "ss_subscriptions st' = ss_subscriptions st \<Longrightarrow> announced st st' []"
  unfolding announced_def by (rule exI[of _ "[]"]) (simp add: publish_all_def events_in_def)

lemma announced_trans: "announced a b xs \<Longrightarrow> announced b c ys \<Longrightarrow> announced a c (xs @ ys)"
  unfolding announced_def
proof (elim exE conjE)
  fix ns ms
  assume "ss_subscriptions b = publish_all ns (ss_subscriptions a)" "events_in ns = xs"
    and "ss_subscriptions c = publish_all ms (ss_subscriptions b)" "events_in ms = ys"
  then show "\<exists>ns. ss_subscriptions c = publish_all ns (ss_subscriptions a) \<and> events_in ns = xs @ ys"
    by (intro exI[of _ "ns @ ms"]) (simp add: publish_all_def events_in_def)
qed

lemma announced_publish: "announced st (publish n st) (events_in [n])"
  unfolding announced_def by (rule exI[of _ "[n]"]) (simp add: publish_all_def publish_def)

lemma publish_fields [simp]:
  "ss_db (publish n st) = ss_db st" "ss_projects (publish n st) = ss_projects st"
  "ss_trees (publish n st) = ss_trees st" "ss_agent_tracker (publish n st) = ss_agent_tracker st"
  by (simp_all add: publish_def)

lemma update_tree_fields [simp]:
  "ss_db (update_tree de e st) = ss_db st" "ss_projects (update_tree de e st) = ss_projects st"
  "ss_agent_tracker (update_tree de e st) = ss_agent_tracker st"
  by (auto simp: update_tree_def add_tree_def Let_def split: option.split prod.split)

lemma announced_update_tree: "announced st (update_tree de e st) []"
  using announced_publish[of "add_tree (ev_project_id e) t st" for t]
  by (auto simp: update_tree_def add_tree_def announced_def publish_def publish_all_def events_in_def Let_def
      split: option.split prod.split intro: exI[of _ "[]"] exI[of _ "[NTreePatch _ _]"])

lemma persist_log:
  assumes "holds_log (en_fmt en) T (ss_db st) L" and "en_store_opens en" and "ev_timestamp e \<in> T"
    and "key_seq (ss_db st) < max_i64"
  shows "holds_log (en_fmt en) T (ss_db (persist en e st)) (L @ [(key_seq (ss_db st) + 1, e)]) \<and>
    key_seq (ss_db (persist en e st)) = key_seq (ss_db st) + 1"
proof -
  have k: "key_seq (event_store_new (ss_db st)) = key_seq (ss_db st)"
    using event_store_new_holds[OF assms(1)] by (simp add: key_seq_def)
  then show ?thesis
    using store_insert_holds[OF event_store_new_log[OF assms(1)] assms(3)] assms(2,4)
    by (auto simp: persist_def on_store_def Let_def)
qed

lemma do_analyze_publishes:
  "\<exists>ns. ss_subscriptions (do_analyze en ae pl e root st) = publish_all ns (ss_subscriptions st) \<and>
    ns \<in> {[]} \<union> (\<Union>pid path lines todos. {[NAnalysis pid path lines todos]})"
proof -
  have put: "ss_subscriptions (put_analysis en a st) = ss_subscriptions st" for a st
    by (auto simp: put_analysis_def on_cache_def Let_def split: sum.split prod.split)
  have check: "ss_subscriptions (snd (on_cache en f d st)) = ss_subscriptions st" for f and d :: bool
    by (auto simp: on_cache_def Let_def split: sum.split prod.split)
  obtain ao st1 where 1: "analyze_file en ae pl e root st = (ao, st1)" by force
  have "ss_subscriptions (snd (analyze_file en ae pl e root st)) = ss_subscriptions st"
    by (auto simp: analyze_file_def Let_def split_beta put check split: option.split sum.split)
  with 1 have st1: "ss_subscriptions st1 = ss_subscriptions st" by simp
  have two: "ss_subscriptions (snd (tier_two en ae call e root a st1)) = ss_subscriptions st" for call a
    by (auto simp: tier_two_def Let_def put st1 split: option.split sum.split prod.split)
  show ?thesis
    by (auto simp: do_analyze_def 1 Let_def split_beta st1 two publish_analysis_def publish_all_def
        split: option.split intro: exI[of _ "[]"] exI[of _ "[NAnalysis _ _ _ _]"])
qed

lemma do_analyze_announced: "announced st (do_analyze en ae pl e root st) []"
  using do_analyze_publishes[of en ae pl e root st] by (auto simp: announced_def events_in_def)

lemma on_store_log:
  assumes "holds_log fmt T (ss_db st) L"
    and "\<And>db a db'. f db = Inr (a, db') \<Longrightarrow> db_events db' = db_events db"
  shows "holds_log fmt T (ss_db (snd (on_store en f st))) L \<and>
    key_seq (ss_db (snd (on_store en f st))) = key_seq (ss_db st)"
proof -
  have "db_events (event_store_new (ss_db st)) = db_events (ss_db st)"
    using event_store_new_holds[OF assms(1)] by simp
  then have "db_events (ss_db (snd (on_store en f st))) = db_events (ss_db st)"
    using assms(2) by (auto simp: on_store_def Let_def split: sum.split prod.split)
  then show ?thesis using assms(1) holds_log_events by blast
qed

lemma on_store_subs: "on_store en f st = (r, st') \<Longrightarrow> ss_subscriptions st' = ss_subscriptions st"
  by (metis on_store_fields(1) snd_conv)

lemma project_ops_events:
  "store_add_project fmt now pid path db = Inr db' \<Longrightarrow> db_events db' = db_events db \<and> db_migrations db' = db_migrations db"
  "store_remove_project pid db = Inr db' \<Longrightarrow> db_events db' = db_events db \<and> db_migrations db' = db_migrations db"
  by (auto simp: store_add_project_def store_remove_project_def with_projects_def set_projects_def
      split: option.splits projects_table.splits if_splits)

text \<open>The recorded migrations, which no task but the pruning one changes.\<close>

abbreviation migrations_of :: "server_state \<Rightarrow> (int \<times> int) list option" where
  "migrations_of st \<equiv> db_migrations (ss_db st)"

lemma event_store_new_migrations [simp]: "db_migrations (event_store_new db) = db_migrations db"
  by (simp add: event_store_new_def)

lemma store_insert_migrations: "store_insert fmt e db = Inr (i, db') \<Longrightarrow> db_migrations db' = db_migrations db"
  by (auto simp: store_insert_def Let_def split: option.splits if_splits)

lemma on_store_migrations:
  assumes "\<And>db a db'. f db = Inr (a, db') \<Longrightarrow> db_migrations db' = db_migrations db"
  shows "migrations_of (snd (on_store en f st)) = migrations_of st"
  using assms by (auto simp: on_store_def Let_def split: sum.split prod.split)

lemma read_store_migrations:
  assumes "read_store en f st = (r, st')"
  shows "migrations_of st' = migrations_of st"
  using on_store_migrations[of "\<lambda>db. bind_res (f db) (\<lambda>a. Inr (a, db))" en st] assms
  by (auto simp: read_store_def bind_res_Inr)

text \<open>What the loop does not rewrite of an event.\<close>

definition untouched :: "file_event \<Rightarrow> file_event" where
  "untouched e = e\<lparr>ev_project_id := [], ev_source := User\<rparr>"

lemma resolve_untouched [simp]: "untouched (resolve en de st e) = untouched e"
  by (auto simp: resolve_def untouched_def Let_def split: option.split)

lemma resolve_time [simp]: "ev_timestamp (resolve en de st e) = ev_timestamp e"
  by (auto simp: resolve_def Let_def split: option.split)

text \<open>What one step keeps, from its sent and recorded events.\<close>

definition recorded_in_order ::
  "(timestamp \<Rightarrow> string) \<Rightarrow> timestamp set \<Rightarrow> (int \<times> file_event) list \<Rightarrow> daemon \<Rightarrow> file_event list
    \<Rightarrow> file_event list \<Rightarrow> daemon \<Rightarrow> bool" where
  "recorded_in_order fmt T L d sent rec d' \<longleftrightarrow>
     dm_running d' \<and>
     holds_log fmt T (ss_db (dm_state d')) (L @ keyed_from (key_seq (ss_db (dm_state d))) rec) \<and>
     key_seq (ss_db (dm_state d')) = key_seq (ss_db (dm_state d)) + int (length rec) \<and>
     map untouched (rec @ dm_queue d') = map untouched (dm_queue d @ sent) \<and>
     announced (dm_state d) (dm_state d') rec"

lemma handle_event_recorded:
  assumes "dm_running d" and "holds_log (en_fmt en) T (ss_db (dm_state d)) L" and "en_store_opens en"
    and "ev_timestamp e \<in> T" and "key_seq (ss_db (dm_state d)) < max_i64"
  shows "\<exists>r d'. handle_event en de e d = ([r], d') \<and> dm_running d' \<and> dm_queue d' = dm_queue d \<and>
    untouched r = untouched e \<and> announced (dm_state d) (dm_state d') [r] \<and>
    holds_log (en_fmt en) T (ss_db (dm_state d')) (L @ [(key_seq (ss_db (dm_state d)) + 1, r)]) \<and>
    key_seq (ss_db (dm_state d')) = key_seq (ss_db (dm_state d)) + 1"
proof -
  let ?r = "resolve en de (dm_state d) e" and ?st = "dm_state d"
  have log: "holds_log (en_fmt en) T (ss_db (persist en ?r ?st)) (L @ [(key_seq (ss_db ?st) + 1, ?r)]) \<and>
      key_seq (ss_db (persist en ?r ?st)) = key_seq (ss_db ?st) + 1"
    using persist_log[OF assms(2,3), of ?r] assms(4,5) by simp
  have "announced ?st (persist en ?r ?st) []" by (rule announced_none) (simp add: persist_def)
  then have "announced ?st (update_tree de ?r (publish (NEvent ?r) (persist en ?r ?st))) (([] @ events_in [NEvent ?r]) @ [])"
    by (intro announced_trans[OF announced_trans[OF _ announced_publish] announced_update_tree])
  then show ?thesis using log assms(1) by (simp add: handle_event_def Let_def events_in_def)
qed

lemma same_cache_log:
  "same_but_cache st st' \<Longrightarrow> holds_log fmt T (ss_db st') L = holds_log fmt T (ss_db st) L"
  "same_but_cache st st' \<Longrightarrow> key_seq (ss_db st') = key_seq (ss_db st)"
  using holds_log_events[of "ss_db st'" "ss_db st"] by (auto simp: same_but_cache_def)

lemma daemon_step_recorded:
  assumes "dm_running d" and "holds_log (en_fmt en) T (ss_db (dm_state d)) L" and "en_store_opens en"
    and "ev_timestamp ` set (dm_queue d) \<subseteq> T" and "daemon_step de (en, op) d = (sent, rec, d')"
    and "key_seq (ss_db (dm_state d)) + int (length rec) \<le> max_i64"
  shows "recorded_in_order (en_fmt en) T L d sent rec d'"
proof (cases op)
  case (OpNotify res)
  with assms(1,2,5) show ?thesis
    by (auto simp: recorded_in_order_def Let_def split_beta)
next
  case OpHandle
  show ?thesis
  proof (cases "dm_queue d")
    case Nil
    with assms(1,2,5) OpHandle show ?thesis by (auto simp: recorded_in_order_def)
  next
    case (Cons e es)
    let ?d = "d\<lparr>dm_queue := es\<rparr>"
    obtain r d1 where h: "handle_event en de e ?d = (r, d1)" by force
    have "rec = r" "d' = d1" "sent = []" using assms(5) OpHandle Cons h by (simp_all add: split_beta)
    moreover have "length r \<le> 1" using h by (auto simp: handle_event_def Let_def split: if_splits)
    moreover have "r \<noteq> []" using h assms(1) by (auto simp: handle_event_def Let_def split: if_splits)
    ultimately have "key_seq (ss_db (dm_state d)) < max_i64" using assms(6) by (cases r) auto
    then show ?thesis
      using handle_event_recorded[of ?d en T L e de] assms(1-4) h \<open>rec = r\<close> \<open>d' = d1\<close> \<open>sent = []\<close> Cons
      by (auto simp: recorded_in_order_def)
  qed
next
  case (OpTask n)
  obtain e root where task: "dm_tasks d ! n = (e, root)" by force
  show ?thesis
    using OpTask assms(1,2,5) same_cache_log[OF do_analyze_same[of "dm_state d" en "de_analysis de" "dm_pipeline d" e root]]
      do_analyze_announced[of "dm_state d" en "de_analysis de" "dm_pipeline d" e root]
    by (auto simp: recorded_in_order_def task split: if_splits)
next
  case (OpWatch path)
  obtain r st where st: "on_store en (\<lambda>db. bind_res (store_add_project (en_fmt en) (en_now en) (generate_project_id path) path db)
      (\<lambda>db'. Inr ((), db'))) (dm_state d) = (r, st)" by force
  have log: "holds_log (en_fmt en) T (ss_db st) L" "key_seq (ss_db st) = key_seq (ss_db (dm_state d))"
    "ss_subscriptions st = ss_subscriptions (dm_state d)"
    using on_store_log[OF assms(2), of "\<lambda>db. bind_res (store_add_project (en_fmt en) (en_now en) (generate_project_id path)
        path db) (\<lambda>db'. Inr ((), db'))" en] on_store_subs[OF st]
    by (auto simp: st bind_res_Inr project_ops_events)
  show ?thesis
    using OpWatch assms(1,2,5) log
    by (auto simp: recorded_in_order_def daemon_watch_project_def st Let_def add_project_def add_tree_def
        split: sum.splits)
next
  case (OpUnwatch pid)
  let ?f = "\<lambda>db. bind_res (store_get_project_path pid db) (\<lambda>path.
      bind_res (store_remove_project pid db) (\<lambda>db'. Inr (path, db')))"
  obtain r st where st: "on_store en ?f (dm_state d) = (r, st)" by force
  have keeps: "?f db = Inr (a, db') \<Longrightarrow> db_events db' = db_events db" for db a db'
    by (auto simp: bind_res_Inr dest: project_ops_events(2))
  have log: "holds_log (en_fmt en) T (ss_db st) L" "key_seq (ss_db st) = key_seq (ss_db (dm_state d))"
    "ss_subscriptions st = ss_subscriptions (dm_state d)"
    using on_store_log[OF assms(2), where f = ?f, OF keeps, where en = en] on_store_subs[OF st] by (simp_all add: st)
  show ?thesis
    using OpUnwatch assms(1,2,5) log
    by (auto simp: recorded_in_order_def daemon_unwatch_project_def st remove_project_def remove_tree_def
        split: sum.splits)
next
  case (OpQuery pid)
  let ?f = "case pid of None \<Rightarrow> event_filter_new | Some p \<Rightarrow> filter_project_id p event_filter_new"
  obtain r st where st: "read_store en (store_query (en_order en) (en_fmt en) (en_parse en) ?f) (dm_state d) = (r, st)"
    by force
  have subs: "ss_subscriptions st = ss_subscriptions (dm_state d)"
    using read_store_fields(1)[of en "store_query (en_order en) (en_fmt en) (en_parse en) ?f" "dm_state d"]
    by (simp add: st)
  have log: "holds_log (en_fmt en) T (ss_db st) L" "key_seq (ss_db st) = key_seq (ss_db (dm_state d))"
    using on_store_log[OF assms(2), of "\<lambda>db. bind_res (store_query (en_order en) (en_fmt en) (en_parse en) ?f db)
        (\<lambda>a. Inr (a, db))" en]
    by (auto simp: st[unfolded read_store_def] bind_res_Inr)
  show ?thesis
    using OpQuery assms(1,2,3,5) log subs by (auto simp: recorded_in_order_def daemon_query_events_def st Let_def)
qed

lemma daemon_step_migrations:
  assumes "daemon_step de (en, op) d = (sent, rec, d')"
  shows "migrations_of (dm_state d') = migrations_of (dm_state d)"
proof -
  have project: "migrations_of (snd (on_store en (\<lambda>db. bind_res (store_add_project (en_fmt en) (en_now en) pid path db)
      (\<lambda>db'. Inr ((), db'))) st)) = migrations_of st"
    "migrations_of (snd (on_store en (\<lambda>db. bind_res (store_get_project_path pid db) (\<lambda>path.
      bind_res (store_remove_project pid db) (\<lambda>db'. Inr (path, db')))) st)) = migrations_of st" for pid path st
    by (rule on_store_migrations; auto simp: bind_res_Inr dest: project_ops_events)+
  show ?thesis
  proof (cases op)
    case OpHandle
    have "migrations_of (persist en e st) = migrations_of st" for e st
      unfolding persist_def by (rule on_store_migrations) (auto dest: store_insert_migrations)
    then show ?thesis using assms OpHandle
      by (auto simp: handle_event_def Let_def split: list.splits if_splits prod.splits)
  next
    case (OpTask n)
    then show ?thesis
      using assms do_analyze_same[of "dm_state d" en "de_analysis de" "dm_pipeline d" "fst (dm_tasks d ! n)" "snd (dm_tasks d ! n)"]
      by (auto simp: same_but_cache_def Let_def split_beta split: if_splits)
  next
    case (OpWatch path)
    then show ?thesis using assms project(1)[of "generate_project_id path" path "dm_state d"]
      by (auto simp: daemon_watch_project_def Let_def add_project_def add_tree_def split: sum.splits prod.splits)
  next
    case (OpUnwatch pid)
    then show ?thesis using assms project(2)[of pid "dm_state d"]
      by (auto simp: daemon_unwatch_project_def remove_project_def remove_tree_def split: sum.splits prod.splits)
  next
    case (OpQuery pid)
    then show ?thesis using assms
      by (auto simp: daemon_query_events_def Let_def dest: read_store_migrations split: prod.splits)
  qed (use assms in \<open>auto simp: Let_def split_beta\<close>)
qed

lemma keyed_from_append: "keyed_from k (xs @ ys) = keyed_from k xs @ keyed_from (k + int (length xs)) ys"
  by (induction xs arbitrary: k) (simp_all add: algebra_simps)

lemma untouched_times: "map untouched xs = map untouched ys \<Longrightarrow> ev_timestamp ` set xs = ev_timestamp ` set ys"
proof -
  have t: "map ev_timestamp (map untouched zs) = map ev_timestamp zs" for zs by (simp add: untouched_def)
  assume "map untouched xs = map untouched ys"
  then have "map ev_timestamp xs = map ev_timestamp ys" using t by metis
  then show ?thesis by (metis set_map)
qed

lemma recorded_in_order_trans:
  assumes "recorded_in_order fmt T L d s r d1"
    and "recorded_in_order fmt T (L @ keyed_from (key_seq (ss_db (dm_state d))) r) d1 s' r' d2"
  shows "recorded_in_order fmt T L d (s @ s') (r @ r') d2"
proof -
  note 1 = assms(1)[unfolded recorded_in_order_def] and 2 = assms(2)[unfolded recorded_in_order_def]
  have "map untouched (r @ r' @ dm_queue d2) = map untouched (r @ dm_queue d1 @ s')" using 2 by simp
  also have "\<dots> = map untouched (dm_queue d @ s @ s')" using 1 by simp
  finally show ?thesis using 1 2 announced_trans
    by (auto simp: recorded_in_order_def keyed_from_append)
qed

lemma daemon_run_recorded:
  assumes "dm_running d" and "holds_log fmt T (ss_db (dm_state d)) L"
    and "\<forall>(en, op) \<in> set ops. en_fmt en = fmt \<and> en_store_opens en"
    and "daemon_run de ops d = (sent, rec, d')" and "ev_timestamp ` set (dm_queue d @ sent) \<subseteq> T"
    and "key_seq (ss_db (dm_state d)) + int (length rec) \<le> max_i64"
  shows "recorded_in_order fmt T L d sent rec d'"
  using assms
proof (induction ops arbitrary: d L sent rec)
  case Nil
  then show ?case by (auto simp: recorded_in_order_def)
next
  case (Cons op ops)
  obtain en o1 where op: "op = (en, o1)" by force
  obtain s1 r1 d1 where 1: "daemon_step de (en, o1) d = (s1, r1, d1)" by (metis prod_cases3)
  obtain s2 r2 d2 where 2: "daemon_run de ops d1 = (s2, r2, d2)" by (metis prod_cases3)
  have eq: "sent = s1 @ s2" "rec = r1 @ r2" "d' = d2" using Cons.prems(4) 1 2 by (simp_all add: op)
  have en: "en_fmt en = fmt" "en_store_opens en" using Cons.prems(3) by (auto simp: op)
  have pre: "ev_timestamp ` set (dm_queue d) \<subseteq> T" "key_seq (ss_db (dm_state d)) + int (length r1) \<le> max_i64"
    "holds_log (en_fmt en) T (ss_db (dm_state d)) L"
    using Cons.prems(2,5,6) en eq by auto
  from daemon_step_recorded[OF Cons.prems(1) pre(3) en(2) pre(1) 1 pre(2)]
  have step: "recorded_in_order fmt T L d s1 r1 d1" by (simp add: en)
  note s = step[unfolded recorded_in_order_def]
  have "ev_timestamp ` set (r1 @ dm_queue d1) = ev_timestamp ` set (dm_queue d @ s1)"
    using s by (intro untouched_times) simp
  then have "ev_timestamp ` set (dm_queue d1 @ s2) \<subseteq> T" using Cons.prems(5) eq by auto
  then have "recorded_in_order fmt T (L @ keyed_from (key_seq (ss_db (dm_state d))) r1) d1 s2 r2 d'"
    using s Cons.prems(3,6) 2 eq by (intro Cons.IH) auto
  from recorded_in_order_trans[OF step this] show ?case by (simp add: eq)
qed

subsection \<open>What the daemon's watcher sends\<close>

text \<open>The daemon configures neither a deduplicator nor an attributor.\<close>

definition plain_watcher :: "fs_watcher \<Rightarrow> bool" where
  "plain_watcher w \<longleftrightarrow> fw_content_dedup w = None \<and> fw_attributor w = None \<and>
     (case fw_watcher w of None \<Rightarrow> True | Some h \<Rightarrow> hc_content_dedup h = None)"

definition plain_event :: "file_event \<Rightarrow> bool" where
  "plain_event e \<longleftrightarrow> ev_content_hash e = None \<and> ev_source e = User"

definition plain_daemon :: "daemon \<Rightarrow> bool" where
  "plain_daemon d \<longleftrightarrow> plain_watcher (dm_watcher d) \<and> list_all plain_event (dm_queue d) \<and>
     list_all (\<lambda>(e, root). ev_content_hash e = None) (dm_tasks d)"

lemma plain_handle_paths:
  "hc_content_dedup h = None \<Longrightarrow> list_all plain_event (fst (handle_paths b dk now h kind ps None)) \<and>
     snd (handle_paths b dk now h kind ps None) = None"
proof (induction ps)
  case (Cons p ps)
  obtain eo at where 1: "handle_path b dk now h kind p None = (eo, at)" by force
  have "at = None \<and> (\<forall>e. eo = Some e \<longrightarrow> plain_event e)"
    using 1 Cons.prems
    by (auto simp: handle_path_def Let_def attribute_event_def hash_event_def plain_event_def
        file_event_new_def source_default_def split: if_splits option.splits)
  then show ?case using Cons by (auto simp: 1 split_beta split: option.split)
qed simp

lemma plain_handle_events:
  assumes "plain_watcher w" and "handle_events b dk now res w = (sent, w')"
  shows "list_all (\<lambda>(c, e). plain_event e) sent" and "plain_watcher w'"
proof -
  have "list_all (\<lambda>(c, e). plain_event e) sent \<and> plain_watcher w'"
  proof (cases "fw_watcher w")
    case None
    with assms show ?thesis by (auto simp: handle_events_def)
  next
    case (Some h)
    then have h: "hc_content_dedup h = None" "fw_attributor w = None" using assms(1) by (simp_all add: plain_watcher_def)
    show ?thesis
    proof (cases res)
      case (Inr r)
      obtain kind paths where r: "r = (kind, paths)" by (cases r)
      show ?thesis
        using plain_handle_paths[OF h(1), of b dk now kind paths] assms Some h(2)
        by (auto simp: handle_events_def Inr r split_beta plain_watcher_def list_all_iff)
    qed (use assms Some in \<open>auto simp: handle_events_def\<close>)
  qed
  then show "list_all (\<lambda>(c, e). plain_event e) sent" "plain_watcher w'" by blast+
qed

lemma plain_fw_watch: "plain_watcher w \<Longrightarrow> fw_watch dk os p w = Inr w' \<Longrightarrow> plain_watcher w'"
  by (auto simp: fw_watch_def plain_watcher_def split: if_splits option.splits)

lemma plain_fw_unwatch: "plain_watcher w \<Longrightarrow> fw_unwatch os p w = Inr w' \<Longrightarrow> plain_watcher w'"
  by (auto simp: fw_unwatch_def plain_watcher_def split: if_splits option.splits)

lemma resolve_plain:
  "plain_event e \<Longrightarrow> ev_content_hash (resolve en de st e) = None \<and> ev_source (resolve en de st e) \<in> {User, AiAgent}"
  by (auto simp: resolve_def plain_event_def Let_def split: option.split)

lemma list_all_drop_nth: "list_all P xs \<Longrightarrow> list_all P (drop_nth n xs)"
  by (auto simp: drop_nth_def list_all_iff dest: in_set_takeD in_set_dropD)

lemma plain_step:
  assumes "plain_daemon d" and "daemon_step de (en, op) d = (sent, rec, d')"
  shows "plain_daemon d' \<and> list_all (\<lambda>e. ev_content_hash e = None \<and> ev_source e \<in> {User, AiAgent}) rec"
proof (cases op)
  case (OpNotify res)
  obtain out w where h: "handle_events (de_blake3 de) (en_disk en) (en_now en) res (dm_watcher d) = (out, w)" by force
  have "plain_watcher (dm_watcher d)" using assms(1) by (simp add: plain_daemon_def)
  note sent = plain_handle_events[OF this h]
  then have "(c, e) \<in> set out \<Longrightarrow> plain_event e" for c e by (auto simp: list_all_iff)
  then show ?thesis
    using assms sent(2) by (auto simp: OpNotify h plain_daemon_def list_all_iff Let_def)
next
  case OpHandle
  show ?thesis
  proof (cases "dm_queue d")
    case (Cons e es)
    have "plain_event e" using assms(1) by (simp add: plain_daemon_def Cons)
    from resolve_plain[OF this, of en de "dm_state d"] show ?thesis
      using assms by (auto simp: OpHandle Cons handle_event_def Let_def split_beta plain_daemon_def split: if_splits option.splits)
  qed (use assms OpHandle in auto)
next
  case (OpTask n)
  then show ?thesis using assms list_all_drop_nth
    by (auto simp: plain_daemon_def split_beta split: if_splits)
next
  case (OpWatch path)
  then show ?thesis using assms plain_fw_watch
    by (auto simp: plain_daemon_def daemon_watch_project_def Let_def split: sum.split prod.split)
next
  case (OpUnwatch pid)
  then show ?thesis using assms plain_fw_unwatch
    by (auto simp: plain_daemon_def daemon_unwatch_project_def split: sum.splits prod.splits option.splits)
next
  case (OpQuery pid)
  then show ?thesis using assms
    by (auto simp: plain_daemon_def daemon_query_events_def Let_def split_beta)
qed

lemma plain_run:
  assumes "plain_daemon d" and "daemon_run de ops d = (sent, rec, d')"
  shows "plain_daemon d' \<and> list_all (\<lambda>e. ev_content_hash e = None \<and> ev_source e \<in> {User, AiAgent}) rec"
  using assms
proof (induction ops arbitrary: d sent rec)
  case (Cons op ops)
  obtain en o1 where op: "op = (en, o1)" by force
  obtain s1 r1 d1 where 1: "daemon_step de (en, o1) d = (s1, r1, d1)" by (metis prod_cases3)
  obtain s2 r2 d2 where 2: "daemon_run de ops d1 = (s2, r2, d2)" by (metis prod_cases3)
  show ?case
    using plain_step[OF Cons.prems(1) 1] Cons.IH[of d1 s2 r2] 2 Cons.prems(2) by (auto simp: op 1)
qed simp

lemma plain_task:
  assumes "plain_daemon d"
  shows "dm_state (snd (snd (daemon_step de (en, OpTask n) d))) = dm_state d"
proof -
  have "n < length (dm_tasks d) \<Longrightarrow> ev_content_hash (fst (dm_tasks d ! n)) = None"
    using assms by (auto simp: plain_daemon_def list_all_length split_beta)
  then show ?thesis by (auto simp: split_beta do_analyze_unhashed)
qed

lemma plain_restore_one: "plain_daemon d \<Longrightarrow> plain_daemon (restore_one en de pp d)"
  by (auto simp: restore_one_def plain_daemon_def split_beta plain_fw_watch split: sum.split)

lemma plain_start:
  assumes "daemon_new en de cf db adb = Inr d" and "daemon_start en' de' d = (r, d')"
  shows "plain_daemon d'"
proof -
  have d: "plain_daemon d" "dm_running d = False"
    using assms(1)
    by (auto simp: daemon_new_def plain_daemon_def plain_watcher_def fs_watcher_new_def split: option.splits if_splits)
  have fold: "plain_daemon d \<Longrightarrow> plain_daemon (fold (restore_one en' de') ps d)" for ps d
    by (induction ps arbitrary: d) (simp_all add: plain_restore_one)
  obtain c w where w: "fw_start (en_start_error en') (dm_watcher d) = (c, w)" by force
  have pw: "plain_watcher w"
    using w d(1) by (auto simp: fw_start_def Let_def plain_daemon_def plain_watcher_def create_watcher_def split: option.splits)
  obtain q d1 where 1: "restore_projects en' de' (d\<lparr>dm_running := True, dm_watcher := w\<rparr>) = (q, d1)" by force
  have "plain_daemon d1"
    using 1 pw d(1) fold by (auto simp: restore_projects_def plain_daemon_def split: sum.splits prod.splits)
  then show ?thesis
    using assms(2) w 1 pw d
    by (auto simp: daemon_start_def prune_at_start_def plain_daemon_def Let_def split: sum.splits option.splits if_splits)
qed

subsection \<open>Restoring, project by project\<close>

text \<open>A project whose directory exists and whose watch succeeds.\<close>

definition restorable :: "env \<Rightarrow> fs_watcher \<Rightarrow> string \<Rightarrow> bool" where
  "restorable en w path \<longleftrightarrow> dk_exists (en_disk en) path \<and> is_absolute path \<and> fw_watched w (components path) = None \<and>
     (fw_watcher w = None \<or> en_watch_error en path = None)"

abbreviation scanned :: "daemon_env \<Rightarrow> string \<Rightarrow> project_tree" where
  "scanned de path \<equiv> from_directory (de_lower de) (de_files de) path path_filter_default"

abbreviation rows_of :: "daemon \<Rightarrow> projects_table option" where
  "rows_of d \<equiv> db_projects (ss_db (dm_state d))"

lemma event_store_new_projects:
  "db_projects db = Some (StoreProjects rs) \<Longrightarrow> db_projects (event_store_new db) = Some (StoreProjects rs)"
  by (simp add: event_store_new_def)

lemma forget_project_rows:
  assumes "en_store_opens en" and "db_projects (ss_db st) = Some (StoreProjects rs)"
  shows "db_projects (ss_db (forget_project en pid st)) = Some (StoreProjects (filter (\<lambda>r. pr_project_id r \<noteq> pid) rs))"
    and "ss_projects (forget_project en pid st) = ss_projects st" and "ss_trees (forget_project en pid st) = ss_trees st"
  using event_store_new_projects[OF assms(2)] assms(1)
  by (simp_all add: forget_project_def on_store_def store_remove_project_def with_projects_def set_projects_def Let_def)

lemma fw_watch_restorable:
  assumes "dk_exists (en_disk en) path"
  shows "if restorable en w path
    then \<exists>w'. fw_watch (en_disk en) (en_watch_error en path) path w = Inr w' \<and> fw_watcher w' = fw_watcher w \<and>
      fw_watched w' = (fw_watched w)(components path \<mapsto> \<lparr>wp_path = path, wp_recursive = dk_is_dir (en_disk en) path\<rparr>)
    else \<exists>e. fw_watch (en_disk en) (en_watch_error en path) path w = Inl e"
  using assms by (auto simp: restorable_def fw_watch_def split: option.split)

lemma restore_one_spec:
  assumes "en_store_opens en" and "rows_of d = Some (StoreProjects rs)" and "restore_one en de (pid, path) d = d'"
  shows "if restorable en (dm_watcher d) path
    then rows_of d' = Some (StoreProjects rs) \<and> ss_projects (dm_state d') = (ss_projects (dm_state d))(pid \<mapsto> path) \<and>
      ss_trees (dm_state d') = (ss_trees (dm_state d))(pid \<mapsto> scanned de path) \<and>
      fw_watcher (dm_watcher d') = fw_watcher (dm_watcher d) \<and>
      fw_watched (dm_watcher d') = (fw_watched (dm_watcher d))
        (components path \<mapsto> \<lparr>wp_path = path, wp_recursive = dk_is_dir (en_disk en) path\<rparr>)
    else rows_of d' = Some (StoreProjects (filter (\<lambda>r. pr_project_id r \<noteq> pid) rs)) \<and>
      ss_projects (dm_state d') = ss_projects (dm_state d) \<and> ss_trees (dm_state d') = ss_trees (dm_state d) \<and>
      dm_watcher d' = dm_watcher d"
proof (cases "dk_exists (en_disk en) path")
  case True
  note w = fw_watch_restorable[OF True, of "dm_watcher d"]
  show ?thesis
  proof (cases "restorable en (dm_watcher d) path")
    case restored: True
    with w assms(2,3) True show ?thesis by (auto simp: restore_one_def add_tree_def add_project_def)
  next
    case False
    with w obtain e where "fw_watch (en_disk en) (en_watch_error en path) path (dm_watcher d) = Inl e" by auto
    with False assms(3) True forget_project_rows[OF assms(1,2)] show ?thesis by (auto simp: restore_one_def)
  qed
next
  case False
  with assms(3) forget_project_rows[OF assms(1,2)] show ?thesis by (auto simp: restore_one_def restorable_def)
qed

lemma restorable_other:
  assumes "fw_watcher w' = fw_watcher w" and "fw_watched w' = fw_watched w \<or> fw_watched w' = (fw_watched w)(c \<mapsto> x)"
    and "components path \<noteq> c"
  shows "restorable en w' path \<longleftrightarrow> restorable en w path"
  using assms by (auto simp: restorable_def)

lemma map_of_filter_none:
  assumes "k \<notin> fst ` set ps"
  shows "map_of (filter P ps) k = None" and "map_of (map (\<lambda>(pid, path). (pid, f path)) (filter P ps)) k = None"
  using assms by (induction ps) auto

text \<open>The rows in turn; whether one can be restored does not depend on the others, whose paths differ.\<close>

lemma restore_fold:
  assumes "en_store_opens en" and "distinct (map (components \<circ> snd) ps)" and "distinct (map fst ps)"
    and "rows_of d = Some (StoreProjects rs)" and "fold (restore_one en de) ps d = d'"
  shows "let P = \<lambda>p. restorable en (dm_watcher d) (snd p) in
    rows_of d' = Some (StoreProjects (filter (\<lambda>r. pr_project_id r \<notin> fst ` set (filter (\<lambda>p. \<not> P p) ps)) rs)) \<and>
    ss_projects (dm_state d') = ss_projects (dm_state d) ++ map_of (filter P ps) \<and>
    ss_trees (dm_state d') = ss_trees (dm_state d) ++ map_of (map (\<lambda>(pid, path). (pid, scanned de path)) (filter P ps))"
  using assms(2-5)
proof (induction ps arbitrary: d rs)
  case (Cons p ps)
  obtain pid path where p: "p = (pid, path)" by (cases p)
  let ?d = "restore_one en de p d" and ?P = "\<lambda>p. restorable en (dm_watcher d) (snd p)"
  note one = restore_one_spec[OF assms(1) Cons.prems(3), of de pid path ?d, folded p, OF refl]
  have new: "pid \<notin> fst ` set ps" and dist: "distinct (map (components \<circ> snd) ps)" "distinct (map fst ps)"
    using Cons.prems(1,2) by (simp_all add: p comp_def)
  have fin: "fold (restore_one en de) ps ?d = d'" using Cons.prems(4) by simp
  have same: "restorable en (dm_watcher ?d) (snd q) = ?P q" if "q \<in> set ps" for q
  proof (rule restorable_other[where c = "components path" and x = "\<lparr>wp_path = path, wp_recursive = dk_is_dir (en_disk en) path\<rparr>"])
    show "components (snd q) \<noteq> components path" using that Cons.prems(1) by (force simp: p)
  qed (use one in \<open>auto split: if_splits\<close>)
  have filt: "filter (\<lambda>p. restorable en (dm_watcher ?d) (snd p)) ps = filter ?P ps"
    "filter (\<lambda>p. \<not> restorable en (dm_watcher ?d) (snd p)) ps = filter (\<lambda>p. \<not> ?P p) ps"
    using same by (auto intro: filter_cong)
  have free: "pid \<notin> dom (map_of (filter ?P ps))" "pid \<notin> dom (map_of (map (\<lambda>(pid, path). (pid, scanned de path)) (filter ?P ps)))"
    using map_of_filter_none[OF new] by (simp_all add: domIff)
  show ?case
  proof (cases "restorable en (dm_watcher d) path")
    case True
    then have rows: "rows_of ?d = Some (StoreProjects rs)"
      and e: "ss_projects (dm_state ?d) = (ss_projects (dm_state d))(pid \<mapsto> path)"
        "ss_trees (dm_state ?d) = (ss_trees (dm_state d))(pid \<mapsto> scanned de path)" using one by simp_all
    note IH = Cons.IH[OF dist rows fin, unfolded Let_def filt e map_add_upd_left[OF free(1)] map_add_upd_left[OF free(2)]]
    have f: "filter ?P (p # ps) = p # filter ?P ps" "filter (\<lambda>p. \<not> ?P p) (p # ps) = filter (\<lambda>p. \<not> ?P p) ps"
      using True by (simp_all add: p)
    show ?thesis unfolding Let_def f using IH unfolding p list.map map_of.simps prod.case fst_conv snd_conv map_add_upd .
  next
    case False
    then have rows: "rows_of ?d = Some (StoreProjects (filter (\<lambda>r. pr_project_id r \<noteq> pid) rs))"
      and e: "ss_projects (dm_state ?d) = ss_projects (dm_state d)" "ss_trees (dm_state ?d) = ss_trees (dm_state d)"
      using one by simp_all
    note IH = Cons.IH[OF dist rows fin, unfolded Let_def filt e]
    have f: "filter ?P (p # ps) = filter ?P ps" "filter (\<lambda>p. \<not> ?P p) (p # ps) = p # filter (\<lambda>p. \<not> ?P p) ps"
      using False by (simp_all add: p)
    show ?thesis unfolding Let_def f using IH by (simp add: p conj_commute)
  qed
qed simp

lemma restore_projects_spec:
  assumes "en_store_opens en" and "rows_of d = Some (StoreProjects rs)" and "mset (de_order_projects de rs) = mset rs"
    and "distinct (map pr_project_id rs)" and "distinct (map (components \<circ> pr_path) rs)"
  shows "let keep = filter (\<lambda>r. restorable en (dm_watcher d) (pr_path r)) rs in
    \<exists>d'. restore_projects en de d = (Inr (), d') \<and> rows_of d' = Some (StoreProjects keep) \<and>
      list_all (\<lambda>r. ss_projects (dm_state d') (pr_project_id r) = Some (pr_path r) \<and>
        ss_trees (dm_state d') (pr_project_id r) = Some (scanned de (pr_path r))) keep \<and>
      (\<forall>pid. pid \<in> pr_project_id ` set keep \<or> ss_projects (dm_state d') pid = ss_projects (dm_state d) pid \<and>
        ss_trees (dm_state d') pid = ss_trees (dm_state d) pid)"
proof -
  let ?ps = "map (\<lambda>r. (pr_project_id r, pr_path r)) (de_order_projects de rs)"
    and ?P = "\<lambda>p :: string \<times> string. restorable en (dm_watcher d) (snd p)"
  let ?d = "d\<lparr>dm_state := (dm_state d)\<lparr>ss_db := event_store_new (ss_db (dm_state d))\<rparr>\<rparr>"
  let ?keep = "filter (\<lambda>r. restorable en (dm_watcher d) (pr_path r)) rs"
  define d' where "d' = fold (restore_one en de) ?ps ?d"
  note rows = event_store_new_projects[OF assms(2)]
  have set_ps: "set ?ps = (\<lambda>r. (pr_project_id r, pr_path r)) ` set rs" using mset_eq_setD[OF assms(3)] by simp
  have "mset (map fst ?ps) = mset (map pr_project_id rs)"
    "mset (map (components \<circ> snd) ?ps) = mset (map (components \<circ> pr_path) rs)"
    using assms(3) by (simp_all add: comp_def)
  then have dist: "distinct (map fst ?ps)" "distinct (map (components \<circ> snd) ?ps)"
    using assms(4,5) by (metis mset_eq_imp_distinct_iff)+
  have start: "rows_of ?d = Some (StoreProjects rs)" using rows by simp
  have w: "dm_watcher ?d = dm_watcher d" and st: "ss_projects (dm_state ?d) = ss_projects (dm_state d)"
    "ss_trees (dm_state ?d) = ss_trees (dm_state d)" by simp_all
  note spec = restore_fold[OF assms(1) dist(2,1) start d'_def[symmetric], unfolded Let_def w st]
  have res: "restore_projects en de d = (Inr (), d')"
    using rows by (simp add: restore_projects_def read_store_def on_store_def assms(1) store_list_projects_def
        with_projects_def Let_def d'_def)
  have inj: "r = q" if "r \<in> set rs" "q \<in> set rs" "pr_project_id r = pr_project_id q" for r q
    using assms(4) that by (auto simp: distinct_map inj_on_def)
  have gone: "fst ` set (filter (\<lambda>p. \<not> ?P p) ?ps) = pr_project_id ` {r \<in> set rs. \<not> restorable en (dm_watcher d) (pr_path r)}"
    unfolding set_filter set_ps by force
  have kept: "filter (\<lambda>r. pr_project_id r \<notin> fst ` set (filter (\<lambda>p. \<not> ?P p) ?ps)) rs = ?keep"
    unfolding gone by (rule filter_cong[OF refl]) (use inj in auto)
  have tree: "map_of (map (\<lambda>(pid, path). (pid, scanned de path)) (filter ?P ?ps)) pid
      = map_option (scanned de) (map_of (filter ?P ?ps) pid)" for pid
    using map_of_map[of "scanned de" "filter ?P ?ps"] by simp
  have look: "map_of (filter ?P ?ps) (pr_project_id r) = Some (pr_path r)" if "r \<in> set ?keep" for r
  proof (rule map_of_is_SomeI)
    show "distinct (map fst (filter ?P ?ps))" using dist(1) by (rule distinct_map_filter)
    show "(pr_project_id r, pr_path r) \<in> set (filter ?P ?ps)" unfolding set_filter set_ps using that by auto
  qed
  have none: "map_of (filter ?P ?ps) pid = None" if "pid \<notin> pr_project_id ` set ?keep" for pid
  proof -
    have "pid \<notin> fst ` set (filter ?P ?ps)" using that unfolding set_filter set_ps by auto
    then show ?thesis by (simp add: map_of_eq_None_iff)
  qed
  have "list_all (\<lambda>r. ss_projects (dm_state d') (pr_project_id r) = Some (pr_path r) \<and>
      ss_trees (dm_state d') (pr_project_id r) = Some (scanned de (pr_path r))) ?keep"
    unfolding list_all_iff using look spec tree by (simp add: map_add_def)
  moreover have "ss_projects (dm_state d') pid = ss_projects (dm_state d) pid \<and> ss_trees (dm_state d') pid = ss_trees (dm_state d) pid"
    if "pid \<notin> pr_project_id ` set ?keep" for pid
    using none[OF that] spec tree by (simp add: map_add_def)
  ultimately show ?thesis unfolding Let_def using res spec unfolding kept by blast
qed

lemma restored_project:
  assumes "en_store_opens en" and "rows_of d = Some (StoreProjects rs)" and "mset (de_order_projects de rs) = mset rs"
    and "distinct (map pr_project_id rs)" and "distinct (map (components \<circ> pr_path) rs)"
    and "restore_projects en de d = (Inr (), d')" and "r \<in> set rs"
  shows "if restorable en (dm_watcher d) (pr_path r)
    then ss_projects (dm_state d') (pr_project_id r) = Some (pr_path r) \<and>
      ss_trees (dm_state d') (pr_project_id r) = Some (scanned de (pr_path r))
    else ss_projects (dm_state d') (pr_project_id r) = ss_projects (dm_state d) (pr_project_id r) \<and>
      ss_trees (dm_state d') (pr_project_id r) = ss_trees (dm_state d) (pr_project_id r)"
proof -
  let ?keep = "filter (\<lambda>r. restorable en (dm_watcher d) (pr_path r)) rs"
  have kept: "\<forall>r \<in> set ?keep. ss_projects (dm_state d') (pr_project_id r) = Some (pr_path r) \<and>
      ss_trees (dm_state d') (pr_project_id r) = Some (scanned de (pr_path r))"
    and others: "\<forall>pid. pid \<in> pr_project_id ` set ?keep \<or> ss_projects (dm_state d') pid = ss_projects (dm_state d) pid \<and>
      ss_trees (dm_state d') pid = ss_trees (dm_state d) pid"
    using restore_projects_spec[OF assms(1-5)] assms(6) unfolding Let_def list_all_iff prod.inject by (metis prod.inject)+
  have "pr_project_id r \<in> pr_project_id ` set ?keep \<longleftrightarrow> restorable en (dm_watcher d) (pr_path r)"
    using assms(4,7) by (auto simp: distinct_map inj_on_def)
  then show ?thesis using kept others[THEN spec, of "pr_project_id r"] assms(7) by auto
qed

lemma restored_bound: "dm_bound (fold (restore_one en de) ps d) = dm_bound d"
  by (induction ps arbitrary: d) (auto simp: restore_one_def split: prod.split sum.split)

subsection \<open>Properties\<close>

text \<open>
  A running daemon loses no event: in every interleaving of notify events, loop steps, analyses,
  project operations and queries, the log grows by exactly the events that the loop took, in their
  order, the same events are published in that order, and the events taken so far followed by those
  still waiting are the ones that waited before and those the watcher sent, up to the project and
  the source, which the loop decides.  Hypothesis: the store can be opened and has room.
\<close>

theorem daemon_records_every_event:
  assumes "dm_running d" and "holds_log fmt T (ss_db (dm_state d)) L"
    and "\<forall>(en, op) \<in> set ops. en_fmt en = fmt \<and> en_store_opens en"
    and "daemon_run de ops d = (sent, recorded, d')" and "ev_timestamp ` set (dm_queue d @ sent) \<subseteq> T"
    and "key_seq (ss_db (dm_state d)) + int (length recorded) \<le> max_i64"
  shows "holds_log fmt T (ss_db (dm_state d')) (L @ keyed_from (key_seq (ss_db (dm_state d))) recorded) \<and>
    map untouched (recorded @ dm_queue d') = map untouched (dm_queue d @ sent) \<and>
    (\<exists>ns. ss_subscriptions (dm_state d') = publish_all ns (ss_subscriptions (dm_state d)) \<and> events_in ns = recorded)"
  using daemon_run_recorded[OF assms] by (simp add: recorded_in_order_def announced_def)

definition demo_daemon_env :: daemon_env where
  "demo_daemon_env = \<lparr>de_lower = ascii_lower, de_files = (\<lambda>_. None), de_blake3 = (\<lambda>_. ''h''),
     de_order_projects = (\<lambda>rs. rs), de_iter = (\<lambda>m. if m ''w'' = None then [] else [(''w'', the (m ''w''))]),
     de_mkdir_error = None, de_bind_error = None, de_hostname = None, de_analysis = demo_analysis_env\<rparr>"

definition demo_daemon :: daemon where
  "demo_daemon = \<lparr>dm_config = server_config_default (\<lambda>_. None), dm_state = add_project ''w'' ''/w'' demo_state,
     dm_watcher = fs_watcher_new ''default'' ''m'', dm_pipeline = pipeline_with_defaults ''/db'', dm_running = True,
     dm_bound = True, dm_channel = Some 1, dm_queue = [log_event 4 ''/w/a'', log_event 6 ''/x''], dm_tasks = []\<rparr>"

text \<open>One event of the queue, in the project that is watched.\<close>

lemma demo_daemon_facts:
  shows "dm_running demo_daemon" and "dm_queue demo_daemon = [log_event 4 ''/w/a'', log_event 6 ''/x'']"
    and "holds_log byte_fmt {0..<256} (ss_db (dm_state demo_daemon)) [(1, log_event 5 ''a''), (2, log_event 9 ''b''), (3, log_event 7 ''a'')]"
    and "key_seq (ss_db (dm_state demo_daemon)) = 3"
proof -
  show "dm_running demo_daemon" "dm_queue demo_daemon = [log_event 4 ''/w/a'', log_event 6 ''/x'']"
    "holds_log byte_fmt {0..<256} (ss_db (dm_state demo_daemon)) [(1, log_event 5 ''a''), (2, log_event 9 ''b''), (3, log_event 7 ''a'')]"
    using log_holds by (simp_all add: demo_daemon_def demo_state_def with_machine_id_def add_project_def)
  show "key_seq (ss_db (dm_state demo_daemon)) = 3"
    by (simp add: demo_daemon_def demo_state_def with_machine_id_def add_project_def log_db_def) code_simp
qed

lemma demo_resolve:
  "resolve demo_env demo_daemon_env (dm_state demo_daemon) (log_event 4 ''/w/a'') = (log_event 4 ''/w/a'')\<lparr>ev_project_id := ''w''\<rparr>"
proof -
  have agent: "tracker_active_agent (100 :: int) ''/w/a'' with_default_timeout = None" by code_simp
  have en: "en_now demo_env = 100" by (simp add: demo_env_def)
  have "get_active_agent demo_env ''/w/a'' (dm_state demo_daemon) = None"
    using agent by (simp add: get_active_agent_def en demo_daemon_def add_project_def demo_state_def with_machine_id_def)
  moreover have "project_of (de_iter demo_daemon_env (ss_projects (dm_state demo_daemon))) ''/w/a'' = Some ''w''"
    by (simp add: demo_daemon_env_def demo_daemon_def add_project_def) code_simp
  ultimately show ?thesis by (simp add: resolve_def log_event_def file_event_new_def)
qed

lemma demo_daemon_run:
  "\<exists>d'. daemon_run demo_daemon_env [(demo_env, OpHandle)] demo_daemon = ([], [(log_event 4 ''/w/a'')\<lparr>ev_project_id := ''w''\<rparr>], d')"
  using demo_resolve by (simp add: demo_daemon_facts handle_event_def Let_def split_beta)

theorem daemon_records_every_event_witness:
  "\<exists>d'. daemon_run demo_daemon_env [(demo_env, OpHandle)] demo_daemon
      = ([], [(log_event 4 ''/w/a'')\<lparr>ev_project_id := ''w''\<rparr>], d') \<and>
    holds_log byte_fmt {0..<256} (ss_db (dm_state d')) [(1, log_event 5 ''a''), (2, log_event 9 ''b''),
      (3, log_event 7 ''a''), (4, (log_event 4 ''/w/a'')\<lparr>ev_project_id := ''w''\<rparr>)] \<and>
    map untouched (dm_queue d') = [untouched (log_event 6 ''/x'')]"
proof -
  obtain d' where run: "daemon_run demo_daemon_env [(demo_env, OpHandle)] demo_daemon
      = ([], [(log_event 4 ''/w/a'')\<lparr>ev_project_id := ''w''\<rparr>], d')" using demo_daemon_run by blast
  have "\<forall>(en, op) \<in> set [(demo_env, OpHandle)]. en_fmt en = byte_fmt \<and> en_store_opens en" by (simp add: demo_env_def)
  from daemon_records_every_event[OF demo_daemon_facts(1,3) this run] show ?thesis
    using run by (auto simp: demo_daemon_facts log_event_def file_event_new_def max_i64_def)
qed

text \<open>
  C40. The daemon never analyses a file and never attributes one to git or a build: its watcher is built
  without a deduplicator and without an attributor, so in every history of a started daemon the
  recorded events carry no content hash and have the source user, or agent where an agent is
  active, and every scheduled analysis ends without any effect.
\<close>

theorem daemon_never_analyses:
  assumes "daemon_new en de cf db adb = Inr d0" and "daemon_start en' de d0 = (r, d1)"
    and "daemon_run de ops d1 = (sent, recorded, d2)"
  shows "list_all (\<lambda>e. ev_content_hash e = None \<and> ev_source e \<in> {User, AiAgent}) recorded \<and>
    dm_state (snd (snd (daemon_step de (en'', OpTask n) d2))) = dm_state d2"
  using plain_run[OF plain_start[OF assms(1,2)] assms(3)] plain_task by blast

theorem daemon_never_analyses_witness:
  "\<exists>d0 d1 sent recorded d2. daemon_new demo_env demo_daemon_env (server_config_default (\<lambda>_. None)) database_empty database_empty = Inr d0 \<and>
     daemon_start demo_env demo_daemon_env d0 = (Inr (), d1) \<and>
     daemon_run demo_daemon_env [(demo_env, OpNotify (Inr (KindCreate, [''/w/a'']))), (demo_env, OpHandle)] d1 = (sent, recorded, d2) \<and>
     length recorded = 1 \<and> list_all (\<lambda>e. ev_content_hash e = None \<and> ev_source e \<in> {User, AiAgent}) recorded"
proof -
  obtain d0 where new: "daemon_new demo_env demo_daemon_env (server_config_default (\<lambda>_. None)) database_empty database_empty = Inr d0"
    by (simp add: daemon_new_def demo_env_def demo_daemon_env_def)
  have rows: "db_projects (event_store_new (event_store_new database_empty)) = Some (StoreProjects [])"
    by (simp add: event_store_new_def database_empty_def)
  obtain d1 where start: "daemon_start demo_env demo_daemon_env d0 = (Inr (), d1)" "dm_running d1" "dm_channel d1 = Some 1"
    "dm_queue d1 = []" "fw_watcher (dm_watcher d1) = Some (create_watcher ((fs_watcher_new ''default'' ''localhost'')\<lparr>fw_channel := 1\<rparr>))"
    using new rows
    by (auto simp: daemon_new_def demo_env_def demo_daemon_env_def daemon_start_def fw_start_def restore_projects_def
        read_store_def on_store_def store_list_projects_def with_projects_def Let_def server_state_new_def
        with_machine_id_def fs_watcher_new_def prune_at_start_def server_config_default_def default_machine_id_def)
  obtain sent recorded d2 where run: "daemon_run demo_daemon_env [(demo_env, OpNotify (Inr (KindCreate, [''/w/a'']))),
      (demo_env, OpHandle)] d1 = (sent, recorded, d2)" by (metis prod_cases3)
  have "\<not> should_ignore path_filter_default (to_string_lossy ''/w/a'')" by code_simp
  then have "length recorded = 1"
    using run start by (auto simp: handle_events_def handle_path_def create_watcher_def fs_watcher_new_def Let_def
        split_beta handle_event_def split: option.splits)
  then show ?thesis using new start(1) run daemon_never_analyses[OF new start(1) run] by blast
qed

text \<open>
  C26. Restoring keeps exactly the projects that can be watched again: for a registry of different ids and
  different paths, listed in any order, on a store that opens and has
  their table, \<open>restore_projects\<close> succeeds and keeps a row
  exactly when its directory exists, its path is absolute and not watched yet, and notify accepts the watch
  (which is asked only when the watcher has started).  The other rows are removed, also that of a project that is
  still on disk but whose watch fails.  Each project that is kept is in the mapping and has the
  tree that a scan of its directory builds; the mapping and the trees of all other ids are as before.
\<close>

theorem restore_keeps_watchable_projects:
  assumes "en_store_opens en" and "rows_of d = Some (StoreProjects rs)" and "mset (de_order_projects de rs) = mset rs"
    and "distinct (map pr_project_id rs)" and "distinct (map (components \<circ> pr_path) rs)"
  shows "let keep = filter (\<lambda>r. dk_exists (en_disk en) (pr_path r) \<and> is_absolute (pr_path r) \<and>
        fw_watched (dm_watcher d) (components (pr_path r)) = None \<and>
        (fw_watcher (dm_watcher d) = None \<or> en_watch_error en (pr_path r) = None)) rs in
    \<exists>d'. restore_projects en de d = (Inr (), d') \<and> rows_of d' = Some (StoreProjects keep) \<and>
      list_all (\<lambda>r. ss_projects (dm_state d') (pr_project_id r) = Some (pr_path r) \<and>
        ss_trees (dm_state d') (pr_project_id r) = Some (scanned de (pr_path r))) keep \<and>
      (\<forall>pid. pid \<in> pr_project_id ` set keep \<or> ss_projects (dm_state d') pid = ss_projects (dm_state d) pid \<and>
        ss_trees (dm_state d') pid = ss_trees (dm_state d) pid)"
  using restore_projects_spec[OF assms] unfolding restorable_def .

text \<open>Of three registered directories one is gone, and the watch of another fails.\<close>

theorem restore_keeps_watchable_projects_witness:
  "let row = (\<lambda>pid path. \<lparr>pr_project_id = pid, pr_path = path, pr_created_at = ''t''\<rparr>);
       en = demo_env\<lparr>en_disk := demo_disk\<lparr>dk_exists := (\<lambda>p. p \<noteq> ''/v'')\<rparr>,
         en_watch_error := (\<lambda>p. if p = ''/u'' then Some ''no space'' else None)\<rparr>;
       d = demo_daemon\<lparr>dm_watcher := snd (fw_start None (fs_watcher_new ''default'' ''m'')),
         dm_state := demo_state\<lparr>ss_db := database_empty\<lparr>db_projects :=
           Some (StoreProjects [row ''w'' ''/w'', row ''v'' ''/v'', row ''u'' ''/u''])\<rparr>\<rparr>\<rparr> in
   \<exists>d'. restore_projects en demo_daemon_env d = (Inr (), d') \<and> rows_of d' = Some (StoreProjects [row ''w'' ''/w'']) \<and>
     ss_projects (dm_state d') ''w'' = Some ''/w'' \<and> ss_projects (dm_state d') ''v'' = None \<and>
     ss_projects (dm_state d') ''u'' = None"
proof -
  let ?row = "\<lambda>pid path. \<lparr>pr_project_id = pid, pr_path = path, pr_created_at = ''t''\<rparr>"
  let ?en = "demo_env\<lparr>en_disk := demo_disk\<lparr>dk_exists := (\<lambda>p. p \<noteq> ''/v'')\<rparr>,
    en_watch_error := (\<lambda>p. if p = ''/u'' then Some ''no space'' else None)\<rparr>"
  let ?rs = "[?row ''w'' ''/w'', ?row ''v'' ''/v'', ?row ''u'' ''/u'']"
  let ?d = "demo_daemon\<lparr>dm_watcher := snd (fw_start None (fs_watcher_new ''default'' ''m'')),
    dm_state := demo_state\<lparr>ss_db := database_empty\<lparr>db_projects := Some (StoreProjects ?rs)\<rparr>\<rparr>\<rparr>"
  have c: "components ''/w'' \<noteq> components ''/v''" "components ''/w'' \<noteq> components ''/u''"
    "components ''/v'' \<noteq> components ''/u''" "is_absolute ''/w''" by code_simp+
  have en: "en_store_opens ?en" "\<And>p. dk_exists (en_disk ?en) p = (p \<noteq> ''/v'')"
    "\<And>p. en_watch_error ?en p = (if p = ''/u'' then Some ''no space'' else None)"
    by (simp_all add: demo_env_def)
  have d: "rows_of ?d = Some (StoreProjects ?rs)" "fw_watched (dm_watcher ?d) = Map.empty" "fw_watcher (dm_watcher ?d) \<noteq> None"
    "ss_projects (dm_state ?d) = Map.empty" "mset (de_order_projects demo_daemon_env ?rs) = mset ?rs"
    by (simp_all add: fw_start_def fs_watcher_new_def demo_state_def with_machine_id_def demo_daemon_env_def)
  have dist: "distinct (map pr_project_id ?rs)" "distinct (map (components \<circ> pr_path) ?rs)" using c by simp_all
  note ends = restore_keeps_watchable_projects[OF en(1) d(1,5) dist, unfolded en(2,3) d(2)]
  have "is_absolute ''/w'' \<and> fw_watcher (dm_watcher ?d) \<noteq> None" using c(4) d(3) by simp
  with ends obtain d' where res: "restore_projects ?en demo_daemon_env ?d = (Inr (), d')"
    and rows: "rows_of d' = Some (StoreProjects [?row ''w'' ''/w''])" and w: "ss_projects (dm_state d') ''w'' = Some ''/w''"
    and others: "\<forall>pid. pid = ''w'' \<or> ss_projects (dm_state d') pid = ss_projects demo_state pid \<and>
      ss_trees (dm_state d') pid = ss_trees demo_state pid"
    by (auto simp: Let_def)
  have "ss_projects demo_state = Map.empty" by (simp add: demo_state_def with_machine_id_def)
  with others[THEN spec, of "''v''"] others[THEN spec, of "''u''"] have "ss_projects (dm_state d') ''v'' = None"
    "ss_projects (dm_state d') ''u'' = None" by simp_all
  with res rows w show ?thesis unfolding Let_def by blast
qed

text \<open>
  The project of an event does not depend on the order in which the map is iterated as long as no
  project's path is a textual prefix of another's: then the loop finds a project exactly when the
  event's path starts with some project's path.  The comparison is textual: of a project and a
  sibling whose name extends its name, the one that is met first takes the events of the other.
\<close>

theorem project_is_order_independent:
  assumes "set ps = set qs"
    and "\<forall>(p, a) \<in> set ps. \<forall>(q, b) \<in> set ps. starts_with (to_string_lossy b) (to_string_lossy a) \<longrightarrow> p = q"
  shows "project_of ps path = project_of qs path \<and>
    (project_of ps path = None \<longleftrightarrow> \<not> (\<exists>(p, a) \<in> set ps. starts_with path (to_string_lossy a)))"
proof -
  let ?hit = "\<lambda>(pid, root). starts_with path (to_string_lossy root)"
  have none: "project_of xs path = None \<longleftrightarrow> \<not> (\<exists>x \<in> set xs. ?hit x)" for xs
    by (auto simp: project_of_def find_None_iff)
  have some: "project_of xs path = Some pid \<Longrightarrow> \<exists>a. (pid, a) \<in> set xs \<and> starts_with path (to_string_lossy a)" for xs pid
    unfolding project_of_def by (induction xs) (auto split: if_splits)
  have one: "p = q" if "(p, a) \<in> set ps" "(q, b) \<in> set ps" "starts_with path (to_string_lossy a)" "starts_with path (to_string_lossy b)" for p q a b
  proof -
    have "prefix (to_string_lossy a) (to_string_lossy b) \<or> prefix (to_string_lossy b) (to_string_lossy a)"
      using that(3,4) prefix_same_cases unfolding starts_with_def by blast
    moreover have "prefix (to_string_lossy a) (to_string_lossy b) \<Longrightarrow> q = p"
      "prefix (to_string_lossy b) (to_string_lossy a) \<Longrightarrow> p = q"
      using assms(2) that(1,2) unfolding starts_with_def by (auto dest: bspec)
    ultimately show ?thesis by auto
  qed
  have "project_of ps path = project_of qs path"
  proof (cases "project_of ps path")
    case None
    then have "project_of qs path = None" using none[of ps] none[of qs] assms(1) by simp
    with None show ?thesis by simp
  next
    case (Some p)
    then have "project_of qs path \<noteq> None" using none[of ps] none[of qs] assms(1) by simp
    then obtain q where q: "project_of qs path = Some q" by blast
    have "p = q" using some[OF Some] some[OF q] one assms(1) by blast
    with Some q show ?thesis by simp
  qed
  then show ?thesis using none[of ps] by auto
qed

theorem project_is_order_independent_witness:
  "project_of [(''a'', ''/w/a''), (''b'', ''/w/b'')] ''/w/b/x'' = project_of [(''b'', ''/w/b''), (''a'', ''/w/a'')] ''/w/b/x'' \<and>
   project_of [(''app'', ''/w/app''), (''app2'', ''/w/app2'')] ''/w/app2/x'' = Some ''app'' \<and>
   project_of [(''app2'', ''/w/app2''), (''app'', ''/w/app'')] ''/w/app2/x'' = Some ''app2''"
proof -
  have "to_string_lossy ''/w/a'' = ''/w/a''" "to_string_lossy ''/w/b'' = ''/w/b''" by code_simp+
  then have "project_of [(''a'', ''/w/a''), (''b'', ''/w/b'')] ''/w/b/x''
      = project_of [(''b'', ''/w/b''), (''a'', ''/w/a'')] ''/w/b/x''"
    using project_is_order_independent[of "[(''a'', ''/w/a''), (''b'', ''/w/b'')]" "[(''b'', ''/w/b''), (''a'', ''/w/a'')]" "''/w/b/x''"]
    by (auto simp: starts_with_def)
  moreover have "project_of [(''app'', ''/w/app''), (''app2'', ''/w/app2'')] ''/w/app2/x'' = Some ''app''"
    "project_of [(''app2'', ''/w/app2''), (''app'', ''/w/app'')] ''/w/app2/x'' = Some ''app2''" by code_simp+
  ultimately show ?thesis by blast
qed

end
