(* ===== verification/Client.thy ===== *)
theory Client
  imports Socket
begin

text \<open>
  The client library, \<open>crates/ambient-fs-client/src/client.rs\<close> and \<open>builder.rs\<close>: requests that wait for
  their answer in a map of one-shot channels, the reader task that routes the daemon's lines, the
  notification channel, and the typed calls.  The text syntax of JSON is the argument \<open>pj\<close>, which
  gives a \<open>Value\<close>, one entry for each key of an object; the operating system's answers to connecting and
  writing are arguments.
\<close>

datatype client_error =
  ClientIo string | JsonSerialize string | DaemonError string | InvalidResponse | NotConnected | ConnectionClosed

record client_notification =
  cn_method :: string
  cn_params :: json

text \<open>Where the receiving half of the notification channel is.\<close>

datatype rx_place = Held | Taken | Dropped

record client =
  cl_pending :: "nat \<Rightarrow> bool"
  cl_reply :: "nat \<Rightarrow> (client_error + json) option"
  cl_notifs :: "client_notification list"
  cl_buffer :: nat
  cl_receiver :: rx_place
  cl_reading :: bool
  cl_next_id :: nat

subsection \<open>Connecting\<close>

record client_builder =
  cb_socket_path :: string
  cb_connect_timeout :: "duration option"
  cb_notification_buffer_size :: nat

definition builder_new :: client_builder where
  "builder_new = \<lparr>cb_socket_path = ''/tmp/ambient-fs.sock'', cb_connect_timeout = None, cb_notification_buffer_size = 256\<rparr>"

definition builder_socket_path :: "string \<Rightarrow> client_builder \<Rightarrow> client_builder" where
  "builder_socket_path p b = b\<lparr>cb_socket_path := p\<rparr>"

definition builder_connect_timeout :: "duration \<Rightarrow> client_builder \<Rightarrow> client_builder" where
  "builder_connect_timeout t b = b\<lparr>cb_connect_timeout := Some t\<rparr>"

definition builder_buffer_size :: "nat \<Rightarrow> client_builder \<Rightarrow> client_builder" where
  "builder_buffer_size n b = b\<lparr>cb_notification_buffer_size := n\<rparr>"

text \<open>A channel without capacity panics, \<open>None\<close>.\<close>

definition from_halves :: "nat \<Rightarrow> client option" where
  "from_halves n =
     (if n = 0 then None
      else Some \<lparr>cl_pending = (\<lambda>_. False), cl_reply = Map.empty, cl_notifs = [], cl_buffer = n,
        cl_receiver = Held, cl_reading = True, cl_next_id = 1\<rparr>)"

text \<open>What connecting gives: \<open>TimedOut\<close> when it takes longer than a given timeout.\<close>

datatype connect_outcome = Connected | ConnectFailed string | TimedOut

definition builder_build :: "connect_outcome \<Rightarrow> client_builder \<Rightarrow> (client_error + client) option" where
  "builder_build out b =
     (case out of
        TimedOut \<Rightarrow> Some (Inl (DaemonError ''connection timeout''))
      | ConnectFailed e \<Rightarrow> Some (Inl (ClientIo e))
      | Connected \<Rightarrow> map_option Inr (from_halves (cb_notification_buffer_size b)))"

text \<open>\<open>connect\<close> and \<open>connect_local\<close> wait as long as the system does and use the default buffer.\<close>

definition client_connect :: "(string \<Rightarrow> string option) \<Rightarrow> string \<Rightarrow> client_error + client option" where
  "client_connect refuses endpoint =
     (case refuses endpoint of Some e \<Rightarrow> Inl (ClientIo e) | None \<Rightarrow> Inr (from_halves 256))"

definition client_connect_local :: "(string \<Rightarrow> string option) \<Rightarrow> client_error + client option" where
  "client_connect_local refuses = client_connect refuses ''/tmp/ambient-fs.sock''"

subsection \<open>The reader task\<close>

definition stop_reading :: "client \<Rightarrow> client" where
  "stop_reading c =
     c\<lparr>cl_reading := False, cl_pending := (\<lambda>_. False),
       cl_reply := (\<lambda>i. if cl_pending c i then Some (Inl ConnectionClosed) else cl_reply c i)\<rparr>"

fun error_message :: "json \<Rightarrow> string" where
  "error_message (JObj es) = (case get_str ''message'' es of None \<Rightarrow> ''unknown error'' | Some m \<Rightarrow> m)"
| "error_message _ = ''unknown error''"

definition answer_of :: "fields \<Rightarrow> client_error + json" where
  "answer_of fs =
     (case obj_get ''error'' fs of
        Some err \<Rightarrow> Inl (DaemonError (error_message err))
      | None \<Rightarrow> (case obj_get ''result'' fs of Some r \<Rightarrow> Inr r | None \<Rightarrow> Inl InvalidResponse))"

definition notify_client :: "client_notification \<Rightarrow> client \<Rightarrow> client" where
  "notify_client n c =
     (if cl_receiver c = Dropped then stop_reading c
      else if length (cl_notifs c) < cl_buffer c then c\<lparr>cl_notifs := cl_notifs c @ [n]\<rparr>
      else c)"

definition response_id :: "fields \<Rightarrow> nat option" where
  "response_id fs = Option.bind (obj_get ''id'' fs) as_u64"

definition notification_of :: "fields \<Rightarrow> json \<Rightarrow> client_notification" where
  "notification_of fs m =
     \<lparr>cn_method = (case as_string m of None \<Rightarrow> [] | Some s \<Rightarrow> s),
      cn_params = (case obj_get ''params'' fs of None \<Rightarrow> JNull | Some p \<Rightarrow> p)\<rparr>"

definition route :: "json \<Rightarrow> client \<Rightarrow> client" where
  "route msg c =
     (case msg of
        JObj fs \<Rightarrow>
          (case response_id fs of
             Some i \<Rightarrow>
               if cl_pending c i
               then c\<lparr>cl_pending := (cl_pending c)(i := False), cl_reply := (cl_reply c)(i \<mapsto> answer_of fs)\<rparr>
               else c
           | None \<Rightarrow>
               (case obj_get ''method'' fs of
                  Some m \<Rightarrow> notify_client (notification_of fs m) c
                | None \<Rightarrow> c))
      | _ \<Rightarrow> c)"

text \<open>One line; \<open>read_line\<close> fails on bytes that are not UTF-8.\<close>

definition read_line :: "(string \<Rightarrow> string + json) \<Rightarrow> string \<Rightarrow> client \<Rightarrow> client" where
  "read_line pj line c =
     (if \<not> cl_reading c then c
      else if \<not> utf8_valid line then stop_reading c
      else (let t = str_trim line in
        if t = [] then c
        else (case pj t of Inl _ \<Rightarrow> c | Inr msg \<Rightarrow> route msg c)))"

definition end_of_input :: "client \<Rightarrow> client" where
  "end_of_input c = (if cl_reading c then stop_reading c else c)"

subsection \<open>Requests\<close>

definition json_call :: "nat \<Rightarrow> string \<Rightarrow> json \<Rightarrow> json" where
  "json_call i m p = JObj [(''jsonrpc'', JStr ''2.0''), (''method'', JStr m), (''params'', p), (''id'', JInt (int i))]"

text \<open>\<open>werr\<close> is the error of writing; otherwise the message is written and the caller waits for the id.\<close>

definition send_request ::
  "string \<Rightarrow> json \<Rightarrow> string option \<Rightarrow> client \<Rightarrow> (client_error + nat \<times> json) \<times> client" where
  "send_request m p werr c =
     (let i = cl_next_id c;
          c1 = c\<lparr>cl_next_id := (i + 1) mod 2 ^ 64, cl_pending := (cl_pending c)(i := True),
                 cl_reply := (cl_reply c)(i := None)\<rparr> in
      case werr of
        Some e \<Rightarrow> (Inl (ClientIo e), c1\<lparr>cl_pending := (cl_pending c1)(i := False)\<rparr>)
      | None \<Rightarrow> (Inr (i, json_call i m p), c1))"

text \<open>What a caller that waits for an id has got: \<open>None\<close> while it waits.\<close>

definition await_reply :: "nat \<Rightarrow> client \<Rightarrow> (client_error + json) option" where
  "await_reply i c = cl_reply c i"

definition is_connected :: "client \<Rightarrow> bool" where
  "is_connected c = cl_reading c"

definition take_notification_stream :: "client \<Rightarrow> bool \<times> client" where
  "take_notification_stream c =
     (if cl_receiver c = Held then (True, c\<lparr>cl_receiver := Taken\<rparr>) else (False, c))"

definition drop_stream :: "client \<Rightarrow> client" where
  "drop_stream c = (if cl_receiver c = Taken then c\<lparr>cl_receiver := Dropped, cl_notifs := []\<rparr> else c)"

text \<open>The owner of the stream takes its next element, when there is one.\<close>

definition stream_next :: "client \<Rightarrow> client_notification option \<times> client" where
  "stream_next c =
     (if cl_receiver c = Taken
      then (case cl_notifs c of [] \<Rightarrow> (None, c) | n # ns \<Rightarrow> (Some n, c\<lparr>cl_notifs := ns\<rparr>))
      else (None, c))"

subsection \<open>Typed notifications\<close>

datatype typed_notification =
  TEvent file_event
| TAwarenessChanged string string file_awareness
| TAnalysisComplete string string u32 u32
| TTreePatch string json

definition dec_change_frequency :: "json \<Rightarrow> string + change_frequency" where
  "dec_change_frequency j = bind_res (dec_string j) (\<lambda>s.
     if s = ''hot'' then Inr Hot else if s = ''warm'' then Inr Warm
     else if s = ''cold'' then Inr Cold else Inl ''unknown variant'')"

definition dec_awareness :: "(string \<Rightarrow> string + timestamp) \<Rightarrow> json \<Rightarrow> string + file_awareness" where
  "dec_awareness tparse j =
     bind_res (struct_fields (map (\<lambda>n. (n, False))
       [''file_path'', ''project_id'', ''last_modified'', ''modified_by'', ''modified_by_label'', ''active_agent'',
        ''chat_references'', ''todo_count'', ''lint_hints'', ''line_count'', ''change_frequency'']) j) (\<lambda>m.
     bind_res (required ''file_path'' dec_string m) (\<lambda>path.
     bind_res (required ''project_id'' dec_string m) (\<lambda>pid.
     bind_res (required ''last_modified'' (\<lambda>j. bind_res (dec_string j) tparse) m) (\<lambda>ts.
     bind_res (required ''modified_by'' dec_source m) (\<lambda>src.
     bind_res (optional ''modified_by_label'' dec_string m) (\<lambda>label.
     bind_res (optional ''active_agent'' dec_string m) (\<lambda>agent.
     bind_res (required ''chat_references'' dec_u32 m) (\<lambda>refs.
     bind_res (required ''todo_count'' dec_u32 m) (\<lambda>todos.
     bind_res (required ''lint_hints'' dec_u32 m) (\<lambda>hints.
     bind_res (required ''line_count'' dec_u32 m) (\<lambda>lines.
     bind_res (required ''change_frequency'' dec_change_frequency m) (\<lambda>freq.
     Inr \<lparr>aw_file_path = path, aw_project_id = pid, aw_last_modified = ts, aw_modified_by = src,
          aw_modified_by_label = label, aw_active_agent = agent, aw_chat_references = refs,
          aw_todo_count = todos, aw_lint_hints = hints, aw_line_count = lines,
          aw_change_frequency = freq\<rparr>))))))))))))"

text \<open>\<open>TreePatchParams\<close> flattens: the fields besides \<open>project_id\<close> form the patch.\<close>

definition dec_tree_patch_params :: "json \<Rightarrow> string + string \<times> json" where
  "dec_tree_patch_params j =
     (case j of
        JObj fs \<Rightarrow>
          if 1 < length (filter (\<lambda>(k, _). k = ''project_id'') fs) then Inl ''duplicate field''
          else bind_res (required ''project_id'' dec_string (map_of fs)) (\<lambda>pid.
            Inr (pid, JObj (norm_obj (filter (\<lambda>(k, _). k \<noteq> ''project_id'') fs))))
      | _ \<Rightarrow> Inl ''invalid type'')"

definition dec_notification ::
  "(string \<Rightarrow> string + timestamp) \<Rightarrow> client_notification \<Rightarrow> string + typed_notification" where
  "dec_notification tparse n =
     (let m = cn_method n; p = cn_params n in
      if m = ''event'' then bind_res (dec_event tparse p) (\<lambda>e. Inr (TEvent e))
      else if m = ''awareness_changed'' then
        bind_res (struct_fields [(''project_id'', False), (''file_path'', False), (''awareness'', False)] p) (\<lambda>f.
        bind_res (required ''project_id'' dec_string f) (\<lambda>pid.
        bind_res (required ''file_path'' dec_string f) (\<lambda>path.
        bind_res (required ''awareness'' (dec_awareness tparse) f) (\<lambda>a.
        Inr (TAwarenessChanged pid path a)))))
      else if m = ''analysis_complete'' then
        bind_res (struct_fields [(''project_id'', False), (''file_path'', False), (''line_count'', False),
          (''todo_count'', False)] p) (\<lambda>f.
        bind_res (required ''project_id'' dec_string f) (\<lambda>pid.
        bind_res (required ''file_path'' dec_string f) (\<lambda>path.
        bind_res (required ''line_count'' dec_u32 f) (\<lambda>lines.
        bind_res (required ''todo_count'' dec_u32 f) (\<lambda>todos.
        Inr (TAnalysisComplete pid path lines todos))))))
      else if m = ''tree_patch'' then bind_res (dec_tree_patch_params p) (\<lambda>(pid, patch). Inr (TTreePatch pid patch))
      else Inl ''unknown variant'')"

text \<open>\<open>None\<close> while the caller waits.\<close>

definition recv_notification ::
  "(string \<Rightarrow> string + timestamp) \<Rightarrow> client \<Rightarrow> (client_error + typed_notification option) option \<times> client" where
  "recv_notification tparse c =
     (if cl_receiver c \<noteq> Held then (Some (Inl NotConnected), c)
      else (case cl_notifs c of
        n # ns \<Rightarrow>
          (Some (case dec_notification tparse n of
                   Inl e \<Rightarrow> Inl (DaemonError (''invalid notification: '' @ e))
                 | Inr t \<Rightarrow> Inr (Some t)), c\<lparr>cl_notifs := ns\<rparr>)
      | [] \<Rightarrow> (if cl_reading c then None else Some (Inr None), c)))"

subsection \<open>Typed calls\<close>

record client_filter =
  cf_project_id :: "string option"
  cf_since :: "int option"
  cf_source :: "string option"
  cf_limit :: "nat option"

definition json_filter :: "client_filter \<Rightarrow> json" where
  "json_filter f = JObj
     [(''project_id'', json_opt JStr (cf_project_id f)), (''since'', json_opt JInt (cf_since f)),
      (''source'', json_opt JStr (cf_source f)), (''limit'', json_opt (\<lambda>n. JInt (int n)) (cf_limit f))]"

datatype client_call =
  CallWatch string | CallEvents client_filter | CallSubscribe string | CallWatchProject string
| CallUnwatchProject string | CallUnsubscribe string | CallQueryEvents client_filter
| CallQueryAwareness string string | CallAttribute string string string "string option" | CallQueryAgents

datatype client_answer = GotUnit | GotId string | GotEvents "file_event list" | GotAwareness file_awareness | GotValues "json list"

text \<open>The method and the parameters of a call.  \<open>json!\<close> builds a map ordered by keys; the order of an
  object's fields does not matter to who reads it.\<close>

fun call_message :: "client_call \<Rightarrow> string \<times> json" where
  "call_message (CallWatch path) = (''watch'', JObj [(''path'', JStr path)])"
| "call_message (CallEvents f) = (''events'', json_filter f)"
| "call_message (CallSubscribe pid) = (''subscribe'', JObj [(''project_id'', JStr pid)])"
| "call_message (CallWatchProject path) = (''watch_project'', JObj [(''path'', JStr path)])"
| "call_message (CallUnwatchProject pid) = (''unwatch_project'', JObj [(''project_id'', JStr pid)])"
| "call_message (CallUnsubscribe pid) = (''unsubscribe'', JObj [(''project_id'', JStr pid)])"
| "call_message (CallQueryEvents f) = (''query_events'', json_filter f)"
| "call_message (CallQueryAwareness pid path) =
     (''query_awareness'', JObj [(''project_id'', JStr pid), (''path'', JStr path)])"
| "call_message (CallAttribute pid path source sid) =
     (''attribute'', JObj ([(''project_id'', JStr pid), (''file_path'', JStr path), (''source'', JStr source)]
        @ (case sid of None \<Rightarrow> [] | Some i \<Rightarrow> [(''source_id'', JStr i)])))"
| "call_message CallQueryAgents = (''query_agents'', JObj [])"

definition or_invalid :: "string + 'a \<Rightarrow> ('a \<Rightarrow> client_answer) \<Rightarrow> client_error + client_answer" where
  "or_invalid r f = (case r of Inl _ \<Rightarrow> Inl InvalidResponse | Inr a \<Rightarrow> Inr (f a))"

text \<open>How a call reads the result it gets.\<close>

fun read_result :: "(string \<Rightarrow> string + timestamp) \<Rightarrow> client_call \<Rightarrow> json \<Rightarrow> client_error + client_answer" where
  "read_result tparse (CallEvents f) j = or_invalid (dec_list (dec_event tparse) j) GotEvents"
| "read_result tparse (CallQueryEvents f) j = or_invalid (dec_list (dec_event tparse) j) GotEvents"
| "read_result tparse (CallWatchProject p) j = or_invalid (dec_string j) GotId"
| "read_result tparse (CallQueryAwareness pid path) j = or_invalid (dec_awareness tparse j) GotAwareness"
| "read_result tparse CallQueryAgents j = or_invalid (dec_list Inr j) GotValues"
| "read_result tparse _ j = Inr GotUnit"

definition finish_call ::
  "(string \<Rightarrow> string + timestamp) \<Rightarrow> client_call \<Rightarrow> client_error + json \<Rightarrow> client_error + client_answer" where
  "finish_call tparse call r = bind_res r (read_result tparse call)"

subsection \<open>Routing\<close>

text \<open>The answer that a line carries for a request.\<close>

definition message_on :: "(string \<Rightarrow> string + json) \<Rightarrow> string \<Rightarrow> fields option" where
  "message_on pj line =
     (if str_trim line = [] then None
      else (case pj (str_trim line) of Inr (JObj fs) \<Rightarrow> Some fs | _ \<Rightarrow> None))"

definition answer_on :: "(string \<Rightarrow> string + json) \<Rightarrow> nat \<Rightarrow> string \<Rightarrow> (client_error + json) option" where
  "answer_on pj i line =
     Option.bind (message_on pj line) (\<lambda>fs. if response_id fs = Some i then Some (answer_of fs) else None)"

definition notification_on :: "(string \<Rightarrow> string + json) \<Rightarrow> string \<Rightarrow> client_notification option" where
  "notification_on pj line =
     Option.bind (message_on pj line) (\<lambda>fs.
       if response_id fs = None then map_option (notification_of fs) (obj_get ''method'' fs) else None)"

text \<open>A reader that cannot stop in the middle of the lines.\<close>

definition reader_live :: "client \<Rightarrow> string list \<Rightarrow> bool" where
  "reader_live c ls \<longleftrightarrow> cl_reading c \<and> cl_receiver c \<noteq> Dropped \<and> length (cl_notifs c) \<le> cl_buffer c \<and> list_all utf8_valid ls"

lemma read_line_message:
  assumes "cl_reading c" and "utf8_valid l"
  shows "read_line pj l c = (case message_on pj l of None \<Rightarrow> c | Some fs \<Rightarrow> route (JObj fs) c)"
  using assms by (auto simp: read_line_def message_on_def route_def Let_def split: sum.split json.split)

lemma notify_client_live:
  assumes "cl_receiver c \<noteq> Dropped" and "length (cl_notifs c) \<le> cl_buffer c"
  shows "notify_client n c = c\<lparr>cl_notifs := take (cl_buffer c) (cl_notifs c @ [n])\<rparr>"
  using assms by (auto simp: notify_client_def)

definition note_list :: "(string \<Rightarrow> string + json) \<Rightarrow> string \<Rightarrow> client_notification list" where
  "note_list pj l = (case notification_on pj l of None \<Rightarrow> [] | Some n \<Rightarrow> [n])"

lemma read_line_live:
  assumes "reader_live c (l # ls)"
  shows "reader_live (read_line pj l c) ls" and "cl_buffer (read_line pj l c) = cl_buffer c"
    and "cl_reply (read_line pj l c) i = (if cl_pending c i then
      (case answer_on pj i l of None \<Rightarrow> cl_reply c i | Some r \<Rightarrow> Some r) else cl_reply c i)"
    and "cl_pending (read_line pj l c) i = (cl_pending c i \<and> answer_on pj i l = None)"
    and "cl_notifs (read_line pj l c) = take (cl_buffer c) (cl_notifs c @ note_list pj l)"
proof -
  have c: "cl_reading c" "utf8_valid l" "cl_receiver c \<noteq> Dropped" "length (cl_notifs c) \<le> cl_buffer c" "list_all utf8_valid ls"
    using assms by (simp_all add: reader_live_def)
  note 1 = read_line_message[OF c(1,2), of pj] notify_client_live[OF c(3,4)]
  show "reader_live (read_line pj l c) ls" "cl_buffer (read_line pj l c) = cl_buffer c"
    using c by (auto simp: 1 reader_live_def route_def split: option.split)
  show "cl_reply (read_line pj l c) i = (if cl_pending c i then
      (case answer_on pj i l of None \<Rightarrow> cl_reply c i | Some r \<Rightarrow> Some r) else cl_reply c i)"
    "cl_pending (read_line pj l c) i = (cl_pending c i \<and> answer_on pj i l = None)"
    by (auto simp: 1 route_def answer_on_def split: option.split)
  show "cl_notifs (read_line pj l c) = take (cl_buffer c) (cl_notifs c @ note_list pj l)"
    using c by (auto simp: 1 route_def note_list_def notification_on_def split: option.split)
qed

text \<open>The first of the optional values of a list.\<close>

fun first_some :: "('a \<Rightarrow> 'b option) \<Rightarrow> 'a list \<Rightarrow> 'b option" where
  "first_some f [] = None"
| "first_some f (x # xs) = (case f x of None \<Rightarrow> first_some f xs | Some y \<Rightarrow> Some y)"

lemma take_again: "take n (take n xs @ ys) = take n (xs @ ys)"
  by (cases "length xs \<le> n") simp_all

lemma read_lines_live:
  assumes "reader_live c ls"
  shows "cl_reply (fold (read_line pj) ls c) i = (if cl_pending c i then
      (case first_some (answer_on pj i) ls of None \<Rightarrow> cl_reply c i | Some r \<Rightarrow> Some r) else cl_reply c i) \<and>
    cl_pending (fold (read_line pj) ls c) i = (cl_pending c i \<and> first_some (answer_on pj i) ls = None) \<and>
    cl_notifs (fold (read_line pj) ls c) = take (cl_buffer c) (cl_notifs c @ concat (map (note_list pj) ls))"
  using assms
proof (induction ls arbitrary: c)
  case Nil
  then show ?case by (simp add: reader_live_def)
next
  case (Cons l ls)
  note step = read_line_live[OF Cons.prems, of pj]
  note IH = Cons.IH[OF step(1)]
  have "cl_notifs (fold (read_line pj) (l # ls) c)
      = take (cl_buffer c) (take (cl_buffer c) (cl_notifs c @ note_list pj l) @ concat (map (note_list pj) ls))"
    using IH unfolding step(2,5) by simp
  also have "\<dots> = take (cl_buffer c) (cl_notifs c @ concat (map (note_list pj) (l # ls)))"
    unfolding take_again by simp
  finally show ?case using IH unfolding step(3,4) by (auto split: option.split)
qed

subsection \<open>Steps of a client\<close>

inductive client_step :: "(string \<Rightarrow> string + json) \<Rightarrow> client \<Rightarrow> client \<Rightarrow> bool" for pj where
  step_line: "client_step pj c (read_line pj l c)"
| step_end: "client_step pj c (end_of_input c)"
| step_send: "client_step pj c (snd (send_request m p werr c))"
| step_take: "client_step pj c (snd (take_notification_stream c))"
| step_drop: "client_step pj c (drop_stream c)"
| step_next: "client_step pj c (snd (stream_next c))"
| step_recv: "client_step pj c (snd (recv_notification tparse c))"

inductive client_reach :: "(string \<Rightarrow> string + json) \<Rightarrow> client \<Rightarrow> client \<Rightarrow> bool" for pj where
  reach_here: "client_reach pj c c"
| reach_step: "client_reach pj c d \<Longrightarrow> client_step pj d e \<Longrightarrow> client_reach pj c e"

text \<open>A request that is registered when nobody reads any more.\<close>

definition stranded :: "nat \<Rightarrow> client \<Rightarrow> bool" where
  "stranded i c \<longleftrightarrow> \<not> cl_reading c \<and> cl_reply c i = None"

lemma stranded_step: "client_step pj c d \<Longrightarrow> stranded i c \<Longrightarrow> stranded i d"
  by (induction rule: client_step.induct)
    (auto simp: stranded_def read_line_def end_of_input_def send_request_def take_notification_stream_def
      drop_stream_def stream_next_def recv_notification_def Let_def split: option.split list.split)

lemma stranded_reach: "client_reach pj c d \<Longrightarrow> stranded i c \<Longrightarrow> stranded i d"
  by (induction rule: client_reach.induct) (auto intro: stranded_step)

subsection \<open>What the client reads of what the server writes\<close>

lemma dec_change_frequency_text [simp]: "dec_change_frequency (JStr (change_frequency_as_str f)) = Inr f"
  by (cases f) (simp_all add: dec_change_frequency_def dec_string_def)

lemma dec_source_text [simp]: "dec_source (JStr (source_as_str s)) = Inr s"
  by (simp add: dec_source_def dec_string_def source_text.parse_print)

lemma dec_awareness_json:
  assumes "tparse (tfmt (aw_last_modified a)) = Inr (aw_last_modified a)"
  shows "dec_awareness tparse (json_awareness tfmt a) = Inr a"
  using assms by (simp add: dec_awareness_def json_awareness_def struct_fields_def required_def dec_string_def)

fun understood :: "notif \<Rightarrow> typed_notification" where
  "understood (NEvent e) = TEvent e"
| "understood (NAwareness pid path a) = TAwarenessChanged pid path a"
| "understood (NAnalysis pid path lines todos) = TAnalysisComplete pid path lines todos"
| "understood (NTreePatch pid p) = TTreePatch pid (JObj [(''patch'', json_patch p)])"

fun notif_times :: "notif \<Rightarrow> timestamp set" where
  "notif_times (NEvent e) = {ev_timestamp e}"
| "notif_times (NAwareness pid path a) = {aw_last_modified a}"
| "notif_times _ = {}"

definition notif_message :: "env \<Rightarrow> notif \<Rightarrow> client_notification" where
  "notif_message en n = (case json_notif en n of
     JObj fs \<Rightarrow> notification_of fs (the (obj_get ''method'' fs)) | _ \<Rightarrow> \<lparr>cn_method = [], cn_params = JNull\<rparr>)"

lemma json_notif_routed: "route (json_notif en n) c = notify_client (notif_message en n) c"
  by (cases n) (simp_all add: route_def json_notif_def notif_message_def response_id_def obj_get_def Let_def)

lemma dec_notif_message:
  assumes "\<forall>t \<in> notif_times n. tparse (en_json_time en t) = Inr t"
  shows "dec_notification tparse (notif_message en n) = Inr (understood n)"
proof (cases n)
  case (NEvent e)
  then show ?thesis using assms
    by (simp add: dec_notification_def notif_message_def json_notif_def notification_of_def obj_get_def dec_event_json Let_def)
next
  case (NAwareness pid path a)
  then show ?thesis using assms
    by (simp add: dec_notification_def notif_message_def json_notif_def notification_of_def obj_get_def Let_def
        struct_fields_def required_def dec_string_def dec_awareness_json)
next
  case (NAnalysis pid path lines todos)
  then show ?thesis
    by (simp add: dec_notification_def notif_message_def json_notif_def notification_of_def obj_get_def Let_def
        struct_fields_def required_def dec_string_def)
next
  case (NTreePatch pid p)
  then show ?thesis
    by (simp add: dec_notification_def notif_message_def json_notif_def notification_of_def obj_get_def Let_def
        dec_tree_patch_params_def required_def dec_string_def)
qed

subsection \<open>A query through the socket\<close>

lemma dec_json_call:
  "i < 2 ^ 63 \<Longrightarrow> dec_request (json_call i m (JObj fs))
     = Inr \<lparr>rq_jsonrpc = ''2.0'', rq_method = m, rq_params = Some (ParamsObject fs), rq_id = IdNumber (int i)\<rparr>"
  by (simp add: dec_request_def json_call_def struct_fields_def required_def optional_def defaulted_def dec_opt_def
      dec_params_def dec_string_def dec_id_def)

definition store_filter :: "string option \<Rightarrow> source option \<Rightarrow> nat option \<Rightarrow> event_filter" where
  "store_filter pid src lim = event_filter_new\<lparr>flt_project_id := pid, flt_source := src, flt_limit := lim\<rparr>"

lemma events_filter_of_client:
  assumes "\<forall>n \<in> set_option lim. int n \<le> max_i64"
  shows "events_filter en [(''project_id'', json_opt JStr pid), (''since'', JNull),
      (''source'', json_opt JStr (map_option source_as_str src)), (''limit'', json_opt (\<lambda>n. JInt (int n)) lim)]
    = Inr (store_filter pid src lim)"
  using assms
  by (auto simp: events_filter_def get_str_def obj_get_def json_opt_def source_text.parse_print filter_builder_defs
      store_filter_def max_i64_def Let_def split: option.split)

lemma handle_query_of_client:
  assumes "env_ok en T" and "holds_log (en_fmt en) T (ss_db st) L" and "en_store_opens en"
    and "\<forall>n \<in> set_option lim. int n \<le> max_i64"
    and "f = \<lparr>cf_project_id = pid, cf_since = None, cf_source = map_option source_as_str src, cf_limit = lim\<rparr>"
    and "json_filter f = JObj fs"
  shows "\<exists>es. mset es = mset (filter (event_matches (store_filter pid src lim)) (map snd L)) \<and> newest_first es \<and>
    handle_request en \<lparr>rq_jsonrpc = ''2.0'', rq_method = ''query_events'', rq_params = Some (ParamsObject fs), rq_id = i\<rparr> (st, conn)
      = (Some (response_result i (JArr (map (json_event (en_json_time en)) (case lim of None \<Rightarrow> es | Some n \<Rightarrow> take n es)))),
         st\<lparr>ss_db := event_store_new (ss_db st)\<rparr>, conn)"
proof -
  let ?f = "store_filter pid src lim"
  have p: "time_text_ok (en_fmt en) (en_parse en) T" "orders_desc (en_order en)"
    using assms(1) by (simp_all add: env_ok_def)
  have flt: "set_option (flt_since ?f) \<subseteq> T" "flt_limit ?f = lim" by (simp_all add: store_filter_def event_filter_new_def)
  obtain es where es: "mset es = mset (filter (event_matches ?f) (map snd L))" "newest_first es"
    "store_query (en_order en) (en_fmt en) (en_parse en) ?f (event_store_new (ss_db st))
      = Inr (case lim of None \<Rightarrow> es | Some n \<Rightarrow> take n es)"
    using store_query_spec[OF p event_store_new_log[OF assms(2)] flt(1)] assms(4) unfolding flt(2) by blast
  have "events_filter en fs = Inr ?f"
    using events_filter_of_client[OF assms(4), of en pid src] assms(5,6) by (auto simp: json_filter_def json_opt_def)
  moreover have "method_from_str ''query_events'' = Inr QueryEvents" by (simp add: method_from_str_def)
  ultimately show ?thesis
    using es assms(3)
    by (intro exI[of _ es]) (simp add: handle_request_def handle_query_events_def object_params_def lift_handled_def
        reply_def read_store_def on_store_def Let_def)
qed

text \<open>A line that carries the server's response.\<close>

definition carries :: "(string \<Rightarrow> string + json) \<Rightarrow> string \<Rightarrow> response \<Rightarrow> bool" where
  "carries pj line q \<longleftrightarrow> utf8_valid line \<and> str_trim line \<noteq> [] \<and> pj (str_trim line) = Inr (json_response q)"

lemma reply_routed:
  assumes "cl_reading c" and "cl_pending c i" and "i < 2 ^ 63" and "carries pj line (response_result (IdNumber (int i)) v)"
  shows "await_reply i (read_line pj line c) = Some (Inr v)"
  using assms
  by (simp add: carries_def read_line_def route_def json_response_def response_result_def response_id_def obj_get_def answer_of_def
      await_reply_def Let_def)

lemma reads_events:
  "\<forall>e \<in> set es. tparse (tfmt (ev_timestamp e)) = Inr (ev_timestamp e) \<Longrightarrow>
     finish_call tparse (CallQueryEvents f) (Inr (JArr (map (json_event tfmt) es))) = Inr (GotEvents es)"
  by (simp add: finish_call_def or_invalid_def dec_list_def dec_all_map dec_event_json)

subsection \<open>Properties\<close>

definition demo_client :: client where
  "demo_client = the (from_halves 2)"

lemma demo_client_sel [simp]:
  "cl_reading demo_client" "cl_receiver demo_client = Held" "cl_notifs demo_client = []" "cl_buffer demo_client = 2"
  "cl_next_id demo_client = 1" "cl_reply demo_client = Map.empty" "cl_pending demo_client = (\<lambda>_. False)"
  by (simp_all add: demo_client_def from_halves_def)

text \<open>A parser for the witnesses: the texts r1, r2 and n are two answers and a notification.\<close>

definition demo_parse :: "string \<Rightarrow> string + json" where
  "demo_parse t =
     (if t = ''r1'' then Inr (json_response (response_result (IdNumber 1) (JStr ''one'')))
      else if t = ''r2'' then Inr (json_response (response_error (IdNumber 2) (err_project_not_found ''p'')))
      else if t = ''n'' then Inr (JObj [(''method'', JStr ''event'')])
      else Inl ''syntax'')"

lemma demo_parse_lines:
  "str_trim ''r1'' = ''r1''" "str_trim ''r2'' = ''r2''" "str_trim ''n'' = ''n''"
  "utf8_valid ''r1''" "utf8_valid ''r2''" "utf8_valid ''n''"
  by code_simp+

lemma demo_answers [simp]:
  "answer_on demo_parse (Suc 0) ''r1'' = Some (Inr (JStr ''one''))" "answer_on demo_parse (Suc 0) ''r2'' = None"
  "answer_on demo_parse (Suc 0) ''n'' = None" "answer_on demo_parse 2 ''r1'' = None"
  "answer_on demo_parse 2 ''r2'' = Some (Inl (DaemonError ''Project not found: p''))" "answer_on demo_parse 2 ''n'' = None"
  "notification_on demo_parse ''n'' = Some \<lparr>cn_method = ''event'', cn_params = JNull\<rparr>"
  by (simp_all add: answer_on_def notification_on_def message_on_def demo_parse_lines demo_parse_def response_id_def
      obj_get_def json_response_def response_result_def response_error_def err_defs answer_of_def get_str_def
      json_error_def notification_of_def)

text \<open>
  C13. Answers find their requests in any order: a reader with an open notification channel gives each
  waiting request the first answer with its id, whatever other answers, notifications and unreadable
  lines arrive around it, leaves the request waiting if there is none and the finished requests as they are,
  and, as long as the lines are UTF-8, passes on the notifications in their order, dropping those that find the buffer full.
\<close>

theorem client_replies_matched:
  assumes "reader_live c ls"
  shows "let d = fold (read_line pj) ls c in
    (\<forall>i. await_reply i d =
      (if cl_pending c i then (case first_some (answer_on pj i) ls of None \<Rightarrow> await_reply i c | Some r \<Rightarrow> Some r)
       else await_reply i c)) \<and>
    (\<forall>i. cl_pending d i \<longleftrightarrow> cl_pending c i \<and> first_some (answer_on pj i) ls = None) \<and>
    cl_notifs d = take (cl_buffer c) (cl_notifs c @ concat (map (note_list pj) ls))"
  using read_lines_live[OF assms, of pj] unfolding await_reply_def Let_def by blast

theorem client_replies_matched_witness:
  "(let c = snd (send_request ''b'' JNull None (snd (send_request ''a'' JNull None demo_client)));
        d = fold (read_line demo_parse) [''r2'', ''n'', ''r1''] c in
    await_reply 1 d = Some (Inr (JStr ''one'')) \<and>
    await_reply 2 d = Some (Inl (DaemonError ''Project not found: p'')))"
proof -
  let ?c = "snd (send_request ''b'' JNull None (snd (send_request ''a'' JNull None demo_client)))"
  have "reader_live ?c [''r2'', ''n'', ''r1'']"
    by (simp add: reader_live_def send_request_def demo_parse_lines)
  from client_replies_matched[OF this, of demo_parse] show ?thesis
    by (simp add: send_request_def Let_def)
qed

text \<open>
  C39. Dropping the notification stream strands later requests: once a caller has taken the stream and
  dropped it, the next notification makes the reader stop; every request that waits then fails with
  ConnectionClosed, and a request sent afterwards, although it is written and given an id without an
  error, is never answered, whatever lines arrive and whatever the client does.
\<close>

theorem dropped_stream_strands_requests:
  assumes "cl_reading c" and "cl_receiver c = Taken" and "utf8_valid l" and "notification_on pj l = Some n"
    and "send_request m p None (read_line pj l (drop_stream c)) = (Inr (i, msg), d)" and "client_reach pj d e"
  shows "(\<forall>j. cl_pending c j \<longrightarrow> await_reply j (read_line pj l (drop_stream c)) = Some (Inl ConnectionClosed)) \<and>
    \<not> is_connected d \<and> await_reply i e = None"
proof -
  let ?c = "drop_stream c"
  have c: "cl_reading ?c" "cl_receiver ?c = Dropped" "cl_pending ?c = cl_pending c"
    using assms(1,2) by (simp_all add: drop_stream_def)
  obtain fs where fs: "message_on pj l = Some fs" "response_id fs = None" "obj_get ''method'' fs \<noteq> None"
    using assms(4) by (auto simp: notification_on_def split: Option.bind_splits if_splits)
  have "read_line pj l ?c = stop_reading ?c"
    using read_line_message[OF c(1) assms(3), of pj] fs c(2) by (auto simp: route_def notify_client_def)
  then have stop: "\<not> cl_reading (read_line pj l ?c)"
    "\<forall>j. cl_pending c j \<longrightarrow> await_reply j (read_line pj l ?c) = Some (Inl ConnectionClosed)"
    using c(3) by (simp_all add: stop_reading_def await_reply_def)
  then have "stranded i d" "\<not> is_connected d"
    using assms(5) by (auto simp: send_request_def stranded_def is_connected_def Let_def)
  with stop(2) stranded_reach[OF assms(6), of i] show ?thesis by (simp add: stranded_def await_reply_def)
qed

theorem dropped_stream_strands_requests_witness:
  "(let c = snd (take_notification_stream demo_client);
        (r, d) = send_request ''subscribe'' JNull None (read_line demo_parse ''n'' (drop_stream c)) in
    r = Inr (1, json_call 1 ''subscribe'' JNull) \<and> await_reply 1 (read_line demo_parse ''r1'' d) = None)"
proof -
  let ?c = "snd (take_notification_stream demo_client)"
  have c: "cl_reading ?c" "cl_receiver ?c = Taken" by (simp_all add: take_notification_stream_def)
  have "read_line demo_parse ''n'' (drop_stream ?c) = stop_reading (drop_stream ?c)"
    by (simp add: read_line_def demo_parse_lines demo_parse_def route_def response_id_def obj_get_def
        notify_client_def drop_stream_def take_notification_stream_def)
  then have id: "cl_next_id (read_line demo_parse ''n'' (drop_stream ?c)) = 1"
    by (simp add: stop_reading_def drop_stream_def take_notification_stream_def)
  obtain d where d: "send_request ''subscribe'' JNull None (read_line demo_parse ''n'' (drop_stream ?c))
      = (Inr (1, json_call 1 ''subscribe'' JNull), d)"
    by (simp add: send_request_def id Let_def)
  have "client_reach demo_parse d (read_line demo_parse ''r1'' d)"
    by (rule reach_step[OF reach_here step_line])
  from dropped_stream_strands_requests[OF c demo_parse_lines(6) _ d this] d show ?thesis by (simp add: Let_def)
qed

text \<open>A query's answer on its way through the server and back to the caller.\<close>

text \<open>What the server answers to the query of a client, and what the client makes of it.\<close>

lemma query_served:
  assumes "env_ok en T" and "holds_log (en_fmt en) T (ss_db st) L" and "en_store_opens en"
    and "\<forall>t \<in> T. tparse (en_json_time en t) = Inr t"
    and "f = \<lparr>cf_project_id = pid, cf_since = None, cf_source = map_option source_as_str src, cf_limit = lim\<rparr>"
    and "\<forall>n \<in> set_option lim. int n \<le> max_i64"
    and "cl_next_id c < 2 ^ 63" and "call_message (CallQueryEvents f) = (m, p)"
    and "send_request m p None c = (Inr (i, msg), c1)"
  shows "\<exists>rq v st' es. dec_request msg = Inr rq \<and>
    handle_request en rq (st, conn) = (Some (response_result (IdNumber (int i)) v), st', conn) \<and>
    mset es = mset (filter (event_matches (store_filter pid src lim)) (map snd L)) \<and> newest_first es \<and>
    finish_call tparse (CallQueryEvents f) (Inr v) = Inr (GotEvents (case lim of None \<Rightarrow> es | Some n \<Rightarrow> take n es))"
proof -
  obtain fs where fs: "json_filter f = JObj fs" by (simp add: json_filter_def)
  have m: "m = ''query_events''" "p = JObj fs" using assms(8) fs by simp_all
  have i: "i < 2 ^ 63" "msg = json_call i ''query_events'' (JObj fs)"
    using assms(7,9) by (auto simp: send_request_def m Let_def)
  let ?rq = "\<lparr>rq_jsonrpc = ''2.0'', rq_method = ''query_events'', rq_params = Some (ParamsObject fs), rq_id = IdNumber (int i)\<rparr>"
  let ?shown = "\<lambda>es. case lim of None \<Rightarrow> es | Some n \<Rightarrow> take n es"
  let ?v = "\<lambda>es. JArr (map (json_event (en_json_time en)) (?shown es))"
  obtain es where es: "mset es = mset (filter (event_matches (store_filter pid src lim)) (map snd L))" "newest_first es"
    "handle_request en ?rq (st, conn) = (Some (response_result (IdNumber (int i)) (?v es)), st\<lparr>ss_db := event_store_new (ss_db st)\<rparr>, conn)"
    using handle_query_of_client[OF assms(1-3,6,5) fs] by blast
  have "set es \<subseteq> snd ` set L" using es(1) by (metis filter_is_subset list.set_map set_mset_mset)
  moreover have "\<forall>(k, e) \<in> set L. ev_timestamp e \<in> T" using assms(2) by (auto simp: holds_log_def)
  ultimately have "\<forall>e \<in> set (?shown es). tparse (en_json_time en (ev_timestamp e)) = Inr (ev_timestamp e)"
    using assms(4) by (fastforce split: option.splits dest: in_set_takeD)
  note got = reads_events[OF this, of f]
  show ?thesis using es got dec_json_call[OF i(1), of "''query_events''" fs] unfolding i(2) by blast
qed

lemma query_answered:
  assumes "env_ok en T" and "holds_log (en_fmt en) T (ss_db st) L" and "en_store_opens en"
    and "\<forall>t \<in> T. tparse (en_json_time en t) = Inr t"
    and "f = \<lparr>cf_project_id = pid, cf_since = None, cf_source = map_option source_as_str src, cf_limit = lim\<rparr>"
    and "\<forall>n \<in> set_option lim. int n \<le> max_i64"
    and "cl_reading c" and "cl_next_id c < 2 ^ 63" and "call_message (CallQueryEvents f) = (m, p)"
    and "send_request m p None c = (Inr (i, msg), c1)"
  shows "\<exists>rq q st' es. dec_request msg = Inr rq \<and> handle_request en rq (st, conn) = (Some q, st', conn) \<and>
    mset es = mset (filter (event_matches (store_filter pid src lim)) (map snd L)) \<and> newest_first es \<and>
    (\<forall>pj line. carries pj line q \<longrightarrow>
      map_option (finish_call tparse (CallQueryEvents f)) (await_reply i (read_line pj line c1))
        = Some (Inr (GotEvents (case lim of None \<Rightarrow> es | Some n \<Rightarrow> take n es))))"
proof -
  have i: "i < 2 ^ 63" "cl_reading c1" "cl_pending c1 i"
    using assms(7,8,10) by (auto simp: send_request_def Let_def)
  show ?thesis using query_served[OF assms(1-6,8-10), of conn] reply_routed[OF i(2,3,1)] by fastforce
qed

text \<open>
  C10. A query through the socket gives what the store holds: the client's \<open>query_events\<close> without
  \<open>since\<close> is read by the server as a request for the same filter, the server's answer, when its line
  reaches the waiting client, becomes the list of exactly the logged events that match, the newest
  first, cut to the limit.  Hypotheses: the store opens, the source is a known one, the limit is one of 64 bits and
  the request number below \<open>2^63\<close>; chrono's time texts read back, and the parser reads the line that
  the server wrote as the value that it serialized.
\<close>

theorem client_query_matches_store:
  assumes "env_ok en T" and "holds_log (en_fmt en) T (ss_db st) L" and "en_store_opens en"
    and "\<forall>t \<in> T. tparse (en_json_time en t) = Inr t"
    and "f = \<lparr>cf_project_id = pid, cf_since = None, cf_source = map_option source_as_str src, cf_limit = lim\<rparr>"
    and "\<forall>n \<in> set_option lim. int n \<le> max_i64"
    and "cl_reading c" and "cl_next_id c < 2 ^ 63" and "call_message (CallQueryEvents f) = (m, p)"
    and "send_request m p None c = (Inr (i, msg), c1)"
  shows "\<exists>rq q st' es. dec_request msg = Inr rq \<and> handle_request en rq (st, conn) = (Some q, st', conn) \<and>
    mset es = mset (filter (event_matches (store_filter pid src lim)) (map snd L)) \<and> newest_first es \<and>
    (\<forall>pj line. carries pj line q \<longrightarrow>
      map_option (finish_call tparse (CallQueryEvents f)) (await_reply i (read_line pj line c1))
        = Some (Inr (GotEvents (case lim of None \<Rightarrow> es | Some n \<Rightarrow> take n es))))"
  by (rule query_answered[OF assms])

theorem client_query_matches_store_witness:
  "\<exists>es f m msg c1 q. mset es = {#log_event 5 ''a'', log_event 9 ''b'', log_event 7 ''a''#} \<and> newest_first es \<and>
     (m, msg) = call_message (CallQueryEvents f) \<and> send_request m msg None demo_client = (Inr (1, json_call 1 m msg), c1) \<and>
     map_option (finish_call byte_parse (CallQueryEvents f)) (await_reply 1 (read_line (\<lambda>_. Inr (json_response q)) ''x'' c1))
      = Some (Inr (GotEvents (take 2 es)))"
proof -
  let ?f = "\<lparr>cf_project_id = Some ''p'', cf_since = None, cf_source = map_option source_as_str None, cf_limit = Some 2\<rparr>"
  obtain m p where m: "call_message (CallQueryEvents ?f) = (m, p)" by force
  obtain c1 where c1: "send_request m p None demo_client = (Inr (1, json_call 1 m p), c1)"
    by (simp add: send_request_def Let_def)
  have h: "en_store_opens demo_env" "\<forall>t \<in> {0..<256}. byte_parse (en_json_time demo_env t) = Inr t"
    "\<forall>n \<in> set_option (Some 2). int n \<le> max_i64" "cl_next_id demo_client < 2 ^ 63"
    using byte_time_text_ok by (auto simp: demo_env_def time_text_ok_def max_i64_def)
  have "carries (\<lambda>_. Inr (json_response q)) ''x'' q" for q
    unfolding carries_def by (intro conjI; code_simp)
  note carried = this
  from client_query_matches_store[OF demo_env_ok demo_state_log h(1,2) refl h(3) demo_client_sel(1) h(4) m c1, of "[]"]
  obtain es q where es: "mset es = mset (filter (event_matches (store_filter (Some ''p'') None (Some 2)))
      (map snd [(1::int, log_event 5 ''a''), (2, log_event 9 ''b''), (3, log_event 7 ''a'')]))" "newest_first es"
    and all: "\<forall>pj line. carries pj line q \<longrightarrow>
      map_option (finish_call byte_parse (CallQueryEvents ?f)) (await_reply 1 (read_line pj line c1))
        = Some (Inr (GotEvents (case Some 2 of None \<Rightarrow> es | Some n \<Rightarrow> take n es)))"
    by (elim exE conjE)
  have "map_option (finish_call byte_parse (CallQueryEvents ?f)) (await_reply 1 (read_line (\<lambda>_. Inr (json_response q)) ''x'' c1))
      = Some (Inr (GotEvents (take 2 es)))"
    using all[rule_format, OF carried] by simp
  moreover have "mset es = {#log_event 5 ''a'', log_event 9 ''b'', log_event 7 ''a''#}"
    using es(1) by (simp add: event_matches_def store_filter_def event_filter_new_def log_event_def file_event_new_def add_mset_commute)
  ultimately show ?thesis using m c1 es(2) by (intro exI[of _ es] exI[of _ ?f] exI[of _ m] exI[of _ p] exI[of _ c1] exI[of _ q]) simp
qed

text \<open>
  C22. The client understands every notification of the server: what the server writes for a
  notification is routed to the client's notification channel and read back there as the typed notification with the
  same content; a tree patch however arrives wrapped in an object with the single field \<open>patch\<close>.
\<close>

theorem notifications_understood:
  assumes "cl_reading c" and "cl_receiver c = Held" and "cl_notifs c = []" and "0 < cl_buffer c"
    and "\<forall>t \<in> notif_times n. tparse (en_json_time en t) = Inr t"
  shows "recv_notification tparse (route (json_notif en n) c) = (Some (Inr (Some (understood n))), c)"
  using assms dec_notif_message[OF assms(5)]
  by (simp add: json_notif_routed notify_client_def recv_notification_def)

theorem notifications_understood_witness:
  "recv_notification byte_parse (route (json_notif demo_env (NEvent (log_event 5 ''a''))) demo_client)
     = (Some (Inr (Some (TEvent (log_event 5 ''a'')))), demo_client) \<and>
   recv_notification byte_parse (route (json_notif demo_env (NTreePatch ''p'' (PatchRemove ''a''))) demo_client)
     = (Some (Inr (Some (TTreePatch ''p'' (JObj [(''patch'', JObj [(''op'', JStr ''remove''), (''path'', JStr ''a'')])])))), demo_client)"
proof -
  have "\<forall>t \<in> notif_times (NEvent (log_event 5 ''a'')). byte_parse (en_json_time demo_env t) = Inr t"
    using byte_time_text_ok by (simp add: demo_env_def time_text_ok_def log_event_def file_event_new_def)
  with notifications_understood[of demo_client "NEvent (log_event 5 ''a'')" byte_parse demo_env]
    notifications_understood[of demo_client "NTreePatch ''p'' (PatchRemove ''a'')" byte_parse demo_env]
  show ?thesis by (simp add: json_patch_def)
qed

text \<open>
  Three of the client's calls cannot succeed against this server: it knows no method for \<open>watch\<close>
  and \<open>events\<close>, and answers \<open>watch_project\<close>, when it starts watching, with an object where the client
  expects a string, so the caller gets InvalidResponse for a project that is watched.
\<close>

theorem calls_the_server_never_grants:
  assumes "handle_watch_project en rq st = (Some q, st')" and "rs_result q = Some v"
  shows "method_from_str (fst (call_message (CallWatch path))) = Inl (''unknown method: '' @ ''watch'') \<and>
    method_from_str (fst (call_message (CallEvents f))) = Inl (''unknown method: '' @ ''events'') \<and>
    ss_projects st' \<noteq> Map.empty \<and> finish_call tparse (CallWatchProject path) (Inr v) = Inl InvalidResponse"
proof -
  have "ss_projects st' \<noteq> Map.empty \<and> finish_call tparse (CallWatchProject path) (Inr v) = Inl InvalidResponse"
    using assms
    by (auto simp: handle_watch_project_def with_str_def Let_def refuse_def reply_def response_error_def
        response_result_def state_defs finish_call_def or_invalid_def dec_string_def fun_eq_iff
        split: option.splits if_splits sum.splits prod.splits)
  then show ?thesis by (simp add: method_from_str_def)
qed

theorem calls_the_server_never_grants_witness:
  "\<exists>q st' v. handle_watch_project demo_env
      (request_new ''watch_project'' (Some (ParamsObject [(''path'', JStr ''/w'')])) IdNull) demo_state = (Some q, st') \<and>
    rs_result q = Some v \<and> ss_projects st' \<noteq> Map.empty \<and>
    finish_call byte_parse (CallWatchProject ''/w'') (Inr v) = Inl InvalidResponse"
proof -
  let ?rq = "request_new ''watch_project'' (Some (ParamsObject [(''path'', JStr ''/w'')])) IdNull"
  obtain st' where st': "handle_watch_project demo_env ?rq demo_state = (Some (response_result IdNull
      (JObj [(''watching'', JBool True), (''project_id'', JStr ''w'')])), st')"
    using demo_watch_answer by blast
  have "rs_result (response_result IdNull (JObj [(''watching'', JBool True), (''project_id'', JStr ''w'')]))
      = Some (JObj [(''watching'', JBool True), (''project_id'', JStr ''w'')])" by (simp add: response_result_def)
  from calls_the_server_never_grants[OF st' this] st' this show ?thesis by blast
qed

end
