(* ===== verification/Pid_File.thy ===== *)
theory Pid_File
  imports Rust_Std
begin

text \<open>
  The daemon as a process, \<open>crates/ambient-fsd/src/daemon.rs\<close> on Unix: the PID file, starting in the
  foreground or by a fork, the signal handler, the redirection of the standard streams, stop and status.
  The text files are a map from paths to contents; what the operating system answers is the record
  \<open>os\<close>.  An error of writing a file is one of opening it, which leaves the file as it was.
\<close>

datatype daemon_fault =
  AlreadyRunning nat | NotRunning | PidFileRead string | InvalidPid string | DirCreate string | FaultIo string

datatype kill_outcome = Delivered | NoSuchProcess | OtherErrno

datatype fork_outcome = InParent | InChild nat | ForkFailed string

type_synonym files = "string \<Rightarrow> string option"

record os =
  os_kill :: "int \<Rightarrow> kill_outcome"
  os_term_error :: "int \<Rightarrow> string option"
  os_pid :: nat
  os_fork :: fork_outcome
  os_exists :: "string \<Rightarrow> bool"
  os_mkdir_error :: "string \<Rightarrow> string option"
  os_read_error :: "string \<Rightarrow> string option"
  os_write_error :: "string \<Rightarrow> string option"
  os_remove_error :: "string \<Rightarrow> string option"
  os_open_error :: "string \<Rightarrow> string option"
  os_dup2_error :: "nat \<Rightarrow> string option"

subsection \<open>The PID file\<close>

definition DEFAULT_PID_FILE :: string where
  "DEFAULT_PID_FILE = ''/tmp/ambient-fs.pid''"

definition DEFAULT_LOG_FILE :: string where
  "DEFAULT_LOG_FILE = ''/tmp/ambient-fs.log''"

definition read_text :: "os \<Rightarrow> files \<Rightarrow> string \<Rightarrow> string + string" where
  "read_text os fs path =
     (case (fs path, os_read_error os path) of
        (None, _) \<Rightarrow> Inl ''not found''
      | (Some _, Some e) \<Rightarrow> Inl e
      | (Some c, None) \<Rightarrow> if utf8_valid c then Inr c else Inl ''stream did not contain valid UTF-8'')"

definition read_pid :: "os \<Rightarrow> files \<Rightarrow> string \<Rightarrow> daemon_fault + nat" where
  "read_pid os fs path =
     bind_res (map_err PidFileRead (read_text os fs path)) (\<lambda>content.
       let t = str_trim content in
       case parse_unsigned (2 ^ 32) t of None \<Rightarrow> Inl (InvalidPid t) | Some n \<Rightarrow> Inr n)"

text \<open>\<open>pid as i32\<close>\<close>

definition raw_pid :: "nat \<Rightarrow> int" where
  "raw_pid n = sint (of_nat n :: 32 word)"

definition check_process :: "os \<Rightarrow> nat \<Rightarrow> bool" where
  "check_process os pid = (os_kill os (raw_pid pid) \<noteq> NoSuchProcess)"

definition is_running :: "os \<Rightarrow> files \<Rightarrow> string \<Rightarrow> daemon_fault + bool" where
  "is_running os fs path =
     (case read_pid os fs path of
        Inr pid \<Rightarrow> Inr (check_process os pid)
      | Inl (PidFileRead _) \<Rightarrow> Inr False
      | Inl e \<Rightarrow> Inl e)"

definition get_pid :: "os \<Rightarrow> files \<Rightarrow> string \<Rightarrow> daemon_fault + nat" where
  "get_pid os fs path =
     bind_res (read_pid os fs path) (\<lambda>pid. if check_process os pid then Inr pid else Inl NotRunning)"

text \<open>\<open>Path::parent\<close>, up to repeated separators.\<close>

definition parent_dir :: "string \<Rightarrow> string option" where
  "parent_dir p =
     (let cs = components p in if cs = [] \<or> cs = [RootDir] then None else Some (comps_path (butlast cs)))"

definition ensure_parent :: "os \<Rightarrow> string \<Rightarrow> daemon_fault + unit" where
  "ensure_parent os path =
     (case parent_dir path of
        None \<Rightarrow> Inr ()
      | Some d \<Rightarrow>
          if d \<noteq> [] \<and> \<not> os_exists os d
          then (case os_mkdir_error os d of Some e \<Rightarrow> Inl (DirCreate e) | None \<Rightarrow> Inr ())
          else Inr ())"

definition pid_create :: "os \<Rightarrow> nat \<Rightarrow> string \<Rightarrow> files \<Rightarrow> daemon_fault + files" where
  "pid_create os self path fs =
     (case (is_running os fs path, read_pid os fs path) of
        (Inr True, Inr pid) \<Rightarrow> Inl (AlreadyRunning pid)
      | _ \<Rightarrow>
          bind_res (ensure_parent os path) (\<lambda>_.
            case os_write_error os path of
              Some e \<Rightarrow> Inl (FaultIo e)
            | None \<Rightarrow> Inr (fs(path \<mapsto> show_nat self @ [CHR 0x0A]))))"

definition pid_remove :: "os \<Rightarrow> string \<Rightarrow> files \<Rightarrow> daemon_fault + files" where
  "pid_remove os path fs =
     (if fs path = None then Inr fs
      else (case os_remove_error os path of Some e \<Rightarrow> Inl (FaultIo e) | None \<Rightarrow> Inr (fs(path := None))))"

subsection \<open>The process\<close>

text \<open>\<open>pr_handler\<close>: the thread waits for SIGTERM; \<open>pr_streams\<close>: where a standard stream was redirected.\<close>

record process =
  pr_pid_file :: string
  pr_log_file :: string
  pr_shutdown :: bool
  pr_foreground :: bool
  pr_handler :: bool
  pr_streams :: "nat \<Rightarrow> string option"

definition process_new :: process where
  "process_new = \<lparr>pr_pid_file = DEFAULT_PID_FILE, pr_log_file = DEFAULT_LOG_FILE, pr_shutdown = False,
     pr_foreground = False, pr_handler = False, pr_streams = Map.empty\<rparr>"

definition with_foreground :: "bool \<Rightarrow> process \<Rightarrow> process" where
  "with_foreground b p = p\<lparr>pr_foreground := b\<rparr>"

definition with_pid_file :: "string \<Rightarrow> process \<Rightarrow> process" where
  "with_pid_file path p = p\<lparr>pr_pid_file := path\<rparr>"

definition with_log_file :: "string \<Rightarrow> process \<Rightarrow> process" where
  "with_log_file path p = p\<lparr>pr_log_file := path\<rparr>"

definition setup_signals :: "process \<Rightarrow> process" where
  "setup_signals p = p\<lparr>pr_handler := True\<rparr>"

text \<open>A SIGTERM that reaches the process; the handler's thread stops after the first.\<close>

definition on_sigterm :: "process \<Rightarrow> process" where
  "on_sigterm p = (if pr_handler p then p\<lparr>pr_shutdown := True, pr_handler := False\<rparr> else p)"

definition is_shutdown_requested :: "process \<Rightarrow> bool" where
  "is_shutdown_requested p = pr_shutdown p"

definition dup2_to :: "os \<Rightarrow> string \<Rightarrow> nat \<Rightarrow> process \<Rightarrow> (daemon_fault + unit) \<times> process" where
  "dup2_to os target fd p =
     (case os_dup2_error os fd of
        Some e \<Rightarrow> (Inl (FaultIo e), p)
      | None \<Rightarrow> (Inr (), p\<lparr>pr_streams := (pr_streams p)(fd \<mapsto> target)\<rparr>))"

definition redirect_stdio :: "os \<Rightarrow> process \<Rightarrow> (daemon_fault + unit) \<times> process" where
  "redirect_stdio os p =
     (case ensure_parent os (pr_log_file p) of
        Inl e \<Rightarrow> (Inl e, p)
      | Inr _ \<Rightarrow>
          (case os_open_error os (pr_log_file p) of
             Some e \<Rightarrow> (Inl (FaultIo e), p)
           | None \<Rightarrow>
               (case dup2_to os (pr_log_file p) 1 p of
                  (Inl e, p1) \<Rightarrow> (Inl e, p1)
                | (Inr _, p1) \<Rightarrow>
                    (case dup2_to os (pr_log_file p) 2 p1 of
                       (Inl e, p2) \<Rightarrow> (Inl e, p2)
                     | (Inr _, p2) \<Rightarrow>
                         (case os_open_error os ''/dev/null'' of
                            Some e \<Rightarrow> (Inl (FaultIo e), p2)
                          | None \<Rightarrow> dup2_to os ''/dev/null'' 0 p2)))))"

text \<open>\<open>ParentExits\<close>: the parent of the fork ends with status 0, its child goes on.\<close>

datatype start_outcome = ParentExits | Started "daemon_fault + unit"

definition process_fork :: "os \<Rightarrow> process \<Rightarrow> fork_outcome" where
  "process_fork os p = (if pr_foreground p then InChild (os_pid os) else os_fork os)"

definition process_start :: "os \<Rightarrow> process \<Rightarrow> files \<Rightarrow> start_outcome \<times> process \<times> files" where
  "process_start os p fs =
     (let path = pr_pid_file p in
      case is_running os fs path of
        Inl e \<Rightarrow> (Started (Inl e), p, fs)
      | Inr True \<Rightarrow> (Started (bind_res (read_pid os fs path) (\<lambda>pid. Inl (AlreadyRunning pid))), p, fs)
      | Inr False \<Rightarrow>
          (case process_fork os p of
             InParent \<Rightarrow> (ParentExits, p, fs)
           | ForkFailed e \<Rightarrow> (Started (Inl (FaultIo e)), p, fs)
           | InChild self \<Rightarrow>
               (case pid_create os self path fs of
                  Inl e \<Rightarrow> (Started (Inl e), p, fs)
                | Inr fs1 \<Rightarrow>
                    (let p1 = setup_signals p in
                     if pr_foreground p then (Started (Inr ()), p1, fs1)
                     else (let (r, p2) = redirect_stdio os p1 in (Started r, p2, fs1))))))"

text \<open>The result, and the processes to which SIGTERM was sent.\<close>

definition process_stop :: "os \<Rightarrow> process \<Rightarrow> files \<Rightarrow> (daemon_fault + unit) \<times> int list" where
  "process_stop os p fs =
     (case get_pid os fs (pr_pid_file p) of
        Inl e \<Rightarrow> (Inl e, [])
      | Inr pid \<Rightarrow>
          (case os_term_error os (raw_pid pid) of
             Some e \<Rightarrow> (Inl (FaultIo e), [])
           | None \<Rightarrow> (Inr (), [raw_pid pid])))"

definition process_status :: "os \<Rightarrow> process \<Rightarrow> files \<Rightarrow> daemon_fault + nat option" where
  "process_status os p fs =
     (case get_pid os fs (pr_pid_file p) of
        Inr pid \<Rightarrow> Inr (Some pid)
      | Inl NotRunning \<Rightarrow> Inr None
      | Inl e \<Rightarrow> Inl e)"

subsection \<open>Reading back what was written\<close>

lemma digits_not_white: "list_all is_digit s \<Longrightarrow> list_all (\<lambda>ch. \<not> white_space ch) (map (\<lambda>c. [c]) s)"
  by (induction s) (auto simp: white_space_def is_digit_def byte_def)

lemma digits_ascii: "list_all is_digit s \<Longrightarrow> is_ascii s"
  by (auto simp: is_ascii_def is_digit_def list_all_iff)

lemma str_trim_line:
  assumes "list_all is_digit s"
  shows "str_trim (s @ [CHR 0x0A]) = s"
proof -
  let ?cs = "map (\<lambda>c. [c]) s"
  have ascii: "is_ascii (s @ [CHR 0x0A])" using digits_ascii[OF assms] by (simp add: is_ascii_def byte_def)
  have none: "\<forall>x \<in> set ?cs. \<not> white_space x" using digits_not_white[OF assms] by (simp add: list_all_iff)
  have ws: "white_space [CHR 0x0A]" by (simp add: white_space_def)
  have keep: "dropWhile white_space xs = xs" if "\<forall>x \<in> set xs. \<not> white_space x" for xs
    using that by (cases xs) auto
  have "rev (dropWhile white_space (rev (dropWhile white_space (?cs @ [[CHR 0x0A]])))) = ?cs"
  proof (cases ?cs)
    case Nil
    with ws show ?thesis by simp
  next
    case (Cons a as)
    then have "dropWhile white_space (?cs @ [[CHR 0x0A]]) = ?cs @ [[CHR 0x0A]]" using none by auto
    with ws keep[of "rev ?cs"] none show ?thesis by simp
  qed
  then show ?thesis by (simp add: str_trim_def chars_ascii[OF ascii])
qed

lemma read_pid_written:
  assumes "fs path = Some (show_nat n @ [CHR 0x0A])" and "n < 2 ^ 32" and "os_read_error os path = None"
  shows "read_pid os fs path = Inr n"
proof -
  have d: "list_all is_digit (show_nat n)" using show_nat_digits[of n] by simp
  have "utf8_valid (show_nat n @ [CHR 0x0A])" using digits_ascii[OF d] by (simp add: is_ascii_def byte_def)
  then show ?thesis
    using assms parse_unsigned_show[OF assms(2)] by (simp add: read_pid_def read_text_def str_trim_line[OF d] Let_def)
qed

lemma raw_pid_small: "n < 2 ^ 31 \<Longrightarrow> raw_pid n = int n"
  by (simp add: raw_pid_def sint_uint unat_of_nat uint_nat signed_take_bit_int_eq_self take_bit_nat_eq_self)

lemma raw_pid_large:
  assumes "2 ^ 31 \<le> n" and "n < 2 ^ 32"
  shows "raw_pid n = int n - 2 ^ 32"
proof -
  have "int n div 2147483648 = 1" using assms by (intro int_div_pos_eq[where r = "int n - 2147483648"]) auto
  with assms show ?thesis
    by (simp add: raw_pid_def signed_of_nat signed_take_bit_eq_take_bit_minus take_bit_int_eq_self bit_iff_odd)
qed

text \<open>What a start that was not refused leaves: the file holds the process that goes on.\<close>

lemma process_start_writes:
  assumes "process_start os p fs = (Started r, p', fs')" and "process_fork os p = InChild self"
    and "r = Inr () \<or> fs' \<noteq> fs"
  shows "fs' (pr_pid_file p) = Some (show_nat self @ [CHR 0x0A])" and "pr_pid_file p' = pr_pid_file p"
proof -
  have created: "fs1 (pr_pid_file p) = Some (show_nat self @ [CHR 0x0A])"
    if "pid_create os self (pr_pid_file p) fs = Inr fs1" for fs1
    using that by (auto simp: pid_create_def bind_res_Inr split: sum.splits option.splits bool.splits)
  have streams: "pr_pid_file p2 = pr_pid_file q" if "redirect_stdio os q = (r2, p2)" for q r2 p2
    using that by (auto simp: redirect_stdio_def dup2_to_def split: sum.splits option.splits prod.splits)
  have kept: "pr_pid_file (setup_signals p) = pr_pid_file p" by (simp add: setup_signals_def)
  have "\<exists>fs1. pid_create os self (pr_pid_file p) fs = Inr fs1 \<and> fs' = fs1 \<and> pr_pid_file p' = pr_pid_file p"
    using assms streams[of "setup_signals p"] kept
    by (auto simp: process_start_def Let_def bind_res_Inr split: sum.splits bool.splits if_splits prod.splits)
  with created show "fs' (pr_pid_file p) = Some (show_nat self @ [CHR 0x0A])" "pr_pid_file p' = pr_pid_file p" by blast+
qed

subsection \<open>Properties\<close>

definition demo_os :: os where
  "demo_os = \<lparr>os_kill = (\<lambda>n. if n = 77 then Delivered else NoSuchProcess), os_term_error = (\<lambda>_. None), os_pid = 77,
     os_fork = InChild 78, os_exists = (\<lambda>_. True), os_mkdir_error = (\<lambda>_. None), os_read_error = (\<lambda>_. None),
     os_write_error = (\<lambda>_. None), os_remove_error = (\<lambda>_. None), os_open_error = (\<lambda>_. None), os_dup2_error = (\<lambda>_. None)\<rparr>"

lemma demo_os_sel [simp]:
  "os_kill demo_os n = (if n = 77 then Delivered else NoSuchProcess)" "os_pid demo_os = 77" "os_exists demo_os d"
  "os_read_error demo_os f = None" "os_write_error demo_os f = None" "os_term_error demo_os n = None"
  by (simp_all add: demo_os_def)

lemma demo_ensure_parent [simp]: "ensure_parent demo_os d = Inr ()"
  by (simp add: ensure_parent_def split: option.split)

text \<open>
  C29. A daemon that started is found through its PID file: after a start that succeeded, whether it
  forked or not, and even over the file of a process that is gone, the file reads back as the process
  that goes on; as long as that process exists, status reports it, a second start of another process is
  refused with its number and changes nothing, and stop sends SIGTERM to exactly that process.  Once it
  no longer exists, status says that nothing runs and stop sends nothing.
\<close>

theorem started_daemon_is_found:
  assumes "process_start os p fs = (Started (Inr ()), p', fs')" and "process_fork os p = InChild self" and "self < 2 ^ 31"
    and "os_read_error later (pr_pid_file p) = None" and "pr_pid_file q = pr_pid_file p"
  shows "read_pid later fs' (pr_pid_file p) = Inr self \<and>
    (if os_kill later (int self) = NoSuchProcess
     then process_status later q fs' = Inr None \<and> process_stop later q fs' = (Inl NotRunning, [])
     else process_status later q fs' = Inr (Some self) \<and>
       process_start later q fs' = (Started (Inl (AlreadyRunning self)), q, fs') \<and>
       (os_term_error later (int self) = None \<longrightarrow> process_stop later q fs' = (Inr (), [int self])))"
proof -
  have "read_pid later fs' (pr_pid_file p) = Inr self"
    using read_pid_written[of fs' "pr_pid_file p" self later] process_start_writes(1)[OF assms(1,2)] assms(3,4) by simp
  then show ?thesis
    using assms(5) raw_pid_small[OF assms(3)]
    by (auto simp: process_status_def process_stop_def process_start_def is_running_def get_pid_def check_process_def Let_def)
qed

theorem started_daemon_is_found_witness:
  "\<exists>p' fs'. process_start demo_os (with_foreground True process_new) (Map.empty(DEFAULT_PID_FILE \<mapsto> ''99'')) = (Started (Inr ()), p', fs') \<and>
     process_status demo_os process_new fs' = Inr (Some 77) \<and> process_stop demo_os process_new fs' = (Inr (), [77])"
proof -
  let ?p = "with_foreground True process_new" and ?fs = "Map.empty(DEFAULT_PID_FILE \<mapsto> ''99'')"
  have "read_pid demo_os ?fs DEFAULT_PID_FILE = Inr 99"
    unfolding read_pid_def read_text_def DEFAULT_PID_FILE_def demo_os_sel by code_simp
  moreover have "raw_pid 99 = 99" by (simp add: raw_pid_small)
  ultimately have "is_running demo_os ?fs DEFAULT_PID_FILE = Inr False" "read_pid demo_os ?fs DEFAULT_PID_FILE = Inr 99"
    by (simp_all add: is_running_def check_process_def)
  then obtain p' fs' where s: "process_start demo_os ?p ?fs = (Started (Inr ()), p', fs')"
    by (simp add: process_start_def process_fork_def pid_create_def with_foreground_def process_new_def Let_def)
  have "process_fork demo_os ?p = InChild 77" by (simp add: process_fork_def with_foreground_def)
  from started_daemon_is_found[OF s this, of demo_os process_new] s show ?thesis
    by (simp add: with_foreground_def process_new_def)
qed

text \<open>
  The text of the PID file decides whom stop signals: for a number below 2^32 in the file, if
  something with the converted number exists and the signal can be sent, SIGTERM goes to the process
  of that number only when it is positive and below 2^31; 0 addresses the process group of the caller, and a number
  from 2^31 on is converted to a negative one, which addresses a process group, or for 2^32 - 1 every
  process.  A file with any other text makes start, stop and status fail.
\<close>

theorem pid_text_decides_target:
  assumes "fs (pr_pid_file p) = Some text1" and "os_read_error os (pr_pid_file p) = None" and "utf8_valid text1"
  shows "case parse_unsigned (2 ^ 32) (str_trim text1) of
      None \<Rightarrow> process_start os p fs = (Started (Inl (InvalidPid (str_trim text1))), p, fs) \<and>
        process_stop os p fs = (Inl (InvalidPid (str_trim text1)), []) \<and>
        process_status os p fs = Inl (InvalidPid (str_trim text1))
    | Some n \<Rightarrow> (let target = (if n < 2 ^ 31 then int n else int n - 2 ^ 32) in
        process_stop os p fs =
          (if os_kill os target = NoSuchProcess then (Inl NotRunning, [])
           else case os_term_error os target of Some e \<Rightarrow> (Inl (FaultIo e), []) | None \<Rightarrow> (Inr (), [target])))"
proof (cases "parse_unsigned (2 ^ 32) (str_trim text1)")
  case None
  then have "read_pid os fs (pr_pid_file p) = Inl (InvalidPid (str_trim text1))"
    using assms by (simp add: read_pid_def read_text_def Let_def)
  with None show ?thesis by (simp add: process_start_def process_stop_def process_status_def is_running_def get_pid_def Let_def)
next
  case (Some n)
  then have r: "read_pid os fs (pr_pid_file p) = Inr n"
    using assms by (simp add: read_pid_def read_text_def Let_def)
  have "n < 2 ^ 32" using Some by (auto simp: parse_unsigned_def Let_def split: if_splits)
  then have "raw_pid n = (if n < 2 ^ 31 then int n else int n - 2 ^ 32)"
    using raw_pid_small raw_pid_large by simp
  with Some r show ?thesis by (simp add: process_stop_def get_pid_def check_process_def Let_def split: option.split)
qed

theorem pid_text_decides_target_witness:
  "process_stop (demo_os\<lparr>os_kill := (\<lambda>_. Delivered)\<rparr>) process_new (Map.empty(DEFAULT_PID_FILE \<mapsto> ''0'')) = (Inr (), [0]) \<and>
   process_stop (demo_os\<lparr>os_kill := (\<lambda>_. Delivered)\<rparr>) process_new (Map.empty(DEFAULT_PID_FILE \<mapsto> ''4294967295'')) = (Inr (), [- 1]) \<and>
   process_status demo_os process_new (Map.empty(DEFAULT_PID_FILE \<mapsto> ''x'')) = Inl (InvalidPid ''x'')"
proof -
  have t: "utf8_valid ''0''" "utf8_valid ''4294967295''" "utf8_valid ''x''"
    "parse_unsigned (2 ^ 32) (str_trim ''0'') = Some 0" "parse_unsigned (2 ^ 32) (str_trim ''4294967295'') = Some 4294967295"
    "parse_unsigned (2 ^ 32) ''x'' = None" "str_trim ''x'' = ''x''"
    by code_simp+
  have pf: "pr_pid_file process_new = DEFAULT_PID_FILE" by (simp add: process_new_def)
  note thm1 = pid_text_decides_target[where p = process_new]
  show ?thesis
    using thm1[where fs = "Map.empty(DEFAULT_PID_FILE \<mapsto> ''0'')" and os = "demo_os\<lparr>os_kill := (\<lambda>_. Delivered)\<rparr>"]
      thm1[where fs = "Map.empty(DEFAULT_PID_FILE \<mapsto> ''4294967295'')" and os = "demo_os\<lparr>os_kill := (\<lambda>_. Delivered)\<rparr>"]
      thm1[where fs = "Map.empty(DEFAULT_PID_FILE \<mapsto> ''x'')" and os = demo_os]
    by (simp add: t[simplified] pf)
qed

end
