(* ===== verification/Cli.thy ===== *)
theory Cli
  imports Daemon Pid_File
begin

text \<open>
  The program \<open>ambient-fsd\<close>: its configuration file, \<open>crates/ambient-fsd/src/config.rs\<close>, and its
  commands, \<open>main.rs\<close>.  A command opens the configured store itself; it does not talk to the running
  daemon.  The state is the host's text files and database files.  The crate toml, the environment
  variables, the directories and chrono's formatting are the record \<open>cli_env\<close>; the service files
  and the entry point are in the theory Commands.
\<close>

record daemon_config =
  dc_machine_id :: string
  dc_db_path :: string
  dc_socket_path :: string
  dc_debounce_ms :: nat
  dc_max_file_size_bytes :: nat
  dc_log_level :: string

record cli_env =
  ce_var :: "string \<Rightarrow> string option"
  ce_data_dir :: "string option"
  ce_config_dir :: "string option"
  ce_uuid :: string
  ce_to_toml :: "daemon_config \<Rightarrow> string + string"
  ce_from_toml :: "string \<Rightarrow> string + daemon_config"
  ce_stamp :: "timestamp \<Rightarrow> string"
  ce_os :: os
  ce_env :: env
  ce_daemon :: daemon_env

record host =
  ho_files :: files
  ho_dbs :: "string \<Rightarrow> database"

text \<open>
  \<open>CliJoin\<close> is the error of a blocking task that panicked, which \<open>await?\<close> returns; \<open>CliPanic\<close> a panic of the
  main thread itself, which no caller catches.
\<close>

datatype cli_error =
  CliConfig string | CliIo string | CliFault daemon_fault | CliDaemon daemon_error | CliStore store_error
| CliSchema schema_error | CliJoin | CliPanic

subsection \<open>Configuration\<close>

definition base_dir :: "string option \<Rightarrow> string" where
  "base_dir d = (case d of None \<Rightarrow> ''/tmp'' | Some p \<Rightarrow> p)"

definition default_db_path :: "cli_env \<Rightarrow> string" where
  "default_db_path ce = join_path (join_path (base_dir (ce_data_dir ce)) ''ambient-fs'') ''events.db''"

definition config_path :: "cli_env \<Rightarrow> string" where
  "config_path ce =
     (case ce_var ce ''AMBIENT_FS_CONFIG'' of
        Some p \<Rightarrow> p
      | None \<Rightarrow> join_path (join_path (base_dir (ce_config_dir ce)) ''ambient-fs'') ''config.toml'')"

definition daemon_config_default :: "cli_env \<Rightarrow> daemon_config" where
  "daemon_config_default ce =
     \<lparr>dc_machine_id = ce_uuid ce, dc_db_path = default_db_path ce, dc_socket_path = ''/tmp/ambient-fs.sock'',
      dc_debounce_ms = 100, dc_max_file_size_bytes = 10 * 1024 * 1024, dc_log_level = ''info''\<rparr>"

definition config_save :: "cli_env \<Rightarrow> daemon_config \<Rightarrow> files \<Rightarrow> string + files" where
  "config_save ce c fs =
     (let path = config_path ce in
      case Option.bind (parent_dir path) (os_mkdir_error (ce_os ce)) of
        Some e \<Rightarrow> Inl e
      | None \<Rightarrow> bind_res (ce_to_toml ce c) (\<lambda>content.
          case os_write_error (ce_os ce) path of Some e \<Rightarrow> Inl e | None \<Rightarrow> Inr (fs(path \<mapsto> content))))"

definition config_load :: "cli_env \<Rightarrow> files \<Rightarrow> (string + daemon_config) \<times> files" where
  "config_load ce fs =
     (let path = config_path ce in
      if fs path \<noteq> None
      then (bind_res (read_text (ce_os ce) fs path) (ce_from_toml ce), fs)
      else (let c = daemon_config_default ce in
        case config_save ce c fs of Inl e \<Rightarrow> (Inl e, fs) | Inr fs' \<Rightarrow> (Inr c, fs')))"

definition to_server_config :: "daemon_config \<Rightarrow> server_config" where
  "to_server_config c =
     \<lparr>cf_db_path = dc_db_path c, cf_socket_path = dc_socket_path c, cf_debounce_ms = dc_debounce_ms c,
      cf_max_file_size_bytes = dc_max_file_size_bytes c, cf_machine_id = dc_machine_id c\<rparr>"

subsection \<open>Durations\<close>

text \<open>\<open>None\<close>: chrono panics.\<close>

definition parse_duration :: "string \<Rightarrow> duration option option" where
  "parse_duration s =
     (case parse_unsigned (2 ^ 63) (takeWhile is_digit s) of
        None \<Rightarrow> Some None
      | Some n \<Rightarrow>
          (let num = int n; unit = dropWhile is_digit s in
           if unit \<in> {''s'', ''sec''} then map_option Some (checked_seconds num)
           else if unit \<in> {''m'', ''min''} then map_option Some (checked_seconds (num * 60))
           else if unit \<in> {''h'', ''hour''} then map_option Some (checked_seconds (num * 3600))
           else if unit \<in> {''d'', ''day''} then map_option Some (checked_seconds (num * 86400))
           else Some None))"

subsection \<open>Commands on the store\<close>

text \<open>The result of a command: the lines that it prints, and its error.\<close>

type_synonym cmd_out = "string list \<times> (cli_error + unit)"

definition fails :: "cli_error \<Rightarrow> cmd_out" where
  "fails e = ([], Inl e)"

text \<open>\<open>DaemonServer::new(to_server_config(&load()?))\<close>; \<open>close_server\<close> is the store file afterwards.\<close>

definition close_server :: "daemon \<Rightarrow> host \<Rightarrow> host" where
  "close_server d h = h\<lparr>ho_dbs := (ho_dbs h)(cf_db_path (dm_config d) := ss_db (dm_state d))\<rparr>"

definition open_server :: "cli_env \<Rightarrow> host \<Rightarrow> (cli_error + daemon) \<times> host" where
  "open_server ce h =
     (let (r, fs) = config_load ce (ho_files h); h1 = h\<lparr>ho_files := fs\<rparr> in
      case r of
        Inl e \<Rightarrow> (Inl (CliConfig e), h1)
      | Inr c \<Rightarrow>
          (let db_path = dc_db_path c in
           case daemon_new (ce_env ce) (ce_daemon ce) (to_server_config c) (ho_dbs h db_path)
               (ho_dbs h (with_file_name db_path ''analysis.db'')) of
             Inl e \<Rightarrow> (Inl (CliDaemon e), h1)
           | Inr d \<Rightarrow> (Inr d, close_server d h1)))"

definition cmd_watch :: "cli_env \<Rightarrow> string \<Rightarrow> host \<Rightarrow> cmd_out \<times> host" where
  "cmd_watch ce path h =
     (case en_canonicalize (ce_env ce) path of
        None \<Rightarrow> (fails (CliIo ''not found''), h)
      | Some canonical \<Rightarrow>
          (case open_server ce h of
             (Inl e, h1) \<Rightarrow> (fails e, h1)
           | (Inr d, h1) \<Rightarrow>
               (let (r, d') = daemon_watch_project (ce_env ce) (ce_daemon ce) canonical d in
                ((case r of
                    Inl e \<Rightarrow> fails (CliDaemon e)
                  | Inr pid \<Rightarrow> ([''watching: '' @ to_string_lossy canonical @ '' (id: '' @ pid @ '')''], Inr ())),
                 close_server d' h1))))"

definition cmd_unwatch :: "cli_env \<Rightarrow> string \<Rightarrow> host \<Rightarrow> cmd_out \<times> host" where
  "cmd_unwatch ce pid h =
     (case open_server ce h of
        (Inl e, h1) \<Rightarrow> (fails e, h1)
      | (Inr d, h1) \<Rightarrow>
          (let (r, d') = daemon_unwatch_project (ce_env ce) pid d in
           ((case r of
               Inl e \<Rightarrow> fails (CliDaemon e)
             | Inr _ \<Rightarrow> ([''unwatched project: '' @ pid], Inr ())),
            close_server d' h1)))"

definition event_line :: "cli_env \<Rightarrow> file_event \<Rightarrow> string" where
  "event_line ce e = ce_stamp ce (ev_timestamp e) @ '' '' @ source_as_str (ev_source e) @ '' '' @
     event_type_as_str (ev_type e) @ '' '' @ ev_file_path e"

text \<open>A panic of chrono in the query's task reaches the command as an error.\<close>

definition cmd_events ::
  "cli_env \<Rightarrow> string option \<Rightarrow> string option \<Rightarrow> string option \<Rightarrow> nat option \<Rightarrow> host \<Rightarrow> cmd_out \<times> host" where
  "cmd_events ce since src project lim h =
     (case open_server ce h of
        (Inl e, h1) \<Rightarrow> (fails e, h1)
      | (Inr d, h1) \<Rightarrow>
          (case (case since of None \<Rightarrow> Some None | Some s \<Rightarrow> parse_duration s) of
             None \<Rightarrow> (fails CliPanic, h1)
           | Some dur \<Rightarrow>
               (let (r, d') = daemon_query_events (ce_env ce) project dur
                      (Option.bind src (\<lambda>s. ok_of (source_from_str s))) lim d in
                ((case r of
                    None \<Rightarrow> fails CliJoin
                  | Some (Inl e) \<Rightarrow> fails (CliStore e)
                  | Some (Inr es) \<Rightarrow>
                      ((if es = [] then [''no events found''] else map (event_line ce) es), Inr ())),
                 close_server d' h1))))"

definition cmd_awareness :: "cli_env \<Rightarrow> string \<Rightarrow> string \<Rightarrow> host \<Rightarrow> cmd_out \<times> host" where
  "cmd_awareness ce project path h =
     (let intro = [''querying awareness for project: '' @ project, ''  path: '' @ to_string_lossy path] in
      case open_server ce h of
        (Inl e, h1) \<Rightarrow> ((intro, Inl e), h1)
      | (Inr d, h1) \<Rightarrow>
          (let (r, d') = daemon_query_events (ce_env ce) (Some project) None None (Some 1) d in
           ((case r of
               None \<Rightarrow> (intro, Inl CliJoin)
             | Some (Inl e) \<Rightarrow> (intro, Inl (CliStore e))
             | Some (Inr es) \<Rightarrow>
                 (intro @ (case es of
                    [] \<Rightarrow> [''  no events found'']
                  | e # _ \<Rightarrow> [''  last modified: '' @ ce_stamp ce (ev_timestamp e),
                      ''  modified by: '' @ source_as_str (ev_source e)]), Inr ())),
            close_server d' h1)))"

text \<open>The default path, whatever the configuration says; the prune cycle is that of the daemon.\<close>

definition cmd_prune :: "cli_env \<Rightarrow> int \<Rightarrow> host \<Rightarrow> cmd_out \<times> host" where
  "cmd_prune ce days h =
     (let path = cf_db_path (server_config_default (ce_var ce));
          intro = ''pruning events older than '' @ show_int days @ '' days...'' in
      if cutoff_timestamp (en_now (ce_env ce)) \<lparr>retention_days = days\<rparr> = None then (([intro], Inl CliJoin), h)
      else if \<not> en_store_opens (ce_env ce) then (([intro], Inl (CliSchema (DB CannotOpen))), h)
      else (let (r, db) = prune_cycle (en_fmt (ce_env ce)) (en_now (ce_env ce)) \<lparr>retention_days = days\<rparr> (ho_dbs h path) in
        ((case r of
            Inl e \<Rightarrow> ([intro], Inl (CliSchema e))
          | Inr (n, k) \<Rightarrow>
              ([intro, ''pruned '' @ show_nat n @ '' events, '' @ show_nat k @ '' analysis records''], Inr ())),
         h\<lparr>ho_dbs := (ho_dbs h)(path := db)\<rparr>)))"

subsection \<open>Commands on the process\<close>

definition cmd_stop :: "cli_env \<Rightarrow> host \<Rightarrow> cmd_out \<times> int list" where
  "cmd_stop ce h =
     (let (r, sent) = process_stop (ce_os ce) process_new (ho_files h) in
      ((case r of
          Inr _ \<Rightarrow> ([''daemon stopped''], Inr ())
        | Inl NotRunning \<Rightarrow> ([''daemon not running''], Inr ())
        | Inl (PidFileRead _) \<Rightarrow> ([''daemon not running''], Inr ())
        | Inl e \<Rightarrow> fails (CliFault e)), sent))"

definition cmd_status :: "cli_env \<Rightarrow> host \<Rightarrow> cmd_out" where
  "cmd_status ce h =
     (case process_status (ce_os ce) process_new (ho_files h) of
        Inr (Some pid) \<Rightarrow> ([''daemon running (PID '' @ show_nat pid @ '')''], Inr ())
      | Inr None \<Rightarrow> ([''daemon not running''], Inr ())
      | Inl (PidFileRead _) \<Rightarrow> ([''daemon not running''], Inr ())
      | Inl e \<Rightarrow> fails (CliFault e))"

text \<open>\<open>prepare_start\<close>: the process exits with a status, fails, or goes on to serve.\<close>

datatype prepared = Exits nat | PrepareFails cli_error | Prepared process server_config

definition prepare_start :: "cli_env \<Rightarrow> bool \<Rightarrow> host \<Rightarrow> prepared \<times> host" where
  "prepare_start ce foreground h =
     (let (r, fs) = config_load ce (ho_files h); h1 = h\<lparr>ho_files := fs\<rparr> in
      case r of
        Inl e \<Rightarrow> (PrepareFails (CliConfig e), h1)
      | Inr c \<Rightarrow>
          (let p = with_foreground foreground process_new; st = process_status (ce_os ce) p fs in
           case st of
             Inr (Some _) \<Rightarrow> (Exits 0, h1)
           | _ \<Rightarrow>
               (case (case st of Inl (PidFileRead _) \<Rightarrow> None | Inl e \<Rightarrow> Some e | _ \<Rightarrow> None) of
                  Some e \<Rightarrow> (PrepareFails (CliFault e), h1)
                | None \<Rightarrow>
                    (case process_start (ce_os ce) p fs of
                       (ParentExits, _, fs1) \<Rightarrow> (Exits 0, h1\<lparr>ho_files := fs1\<rparr>)
                     | (Started (Inl e), _, fs1) \<Rightarrow> (PrepareFails (CliFault e), h1\<lparr>ho_files := fs1\<rparr>)
                     | (Started (Inr _), p', fs1) \<Rightarrow> (Prepared p' (to_server_config c), h1\<lparr>ho_files := fs1\<rparr>)))))"

text \<open>The command Start up to the event loop: opening the server and \<open>run\<close>'s preparations.\<close>

datatype serving = NotServing nat | ServeFails cli_error | Serving process daemon

definition cmd_start :: "cli_env \<Rightarrow> bool \<Rightarrow> host \<Rightarrow> serving \<times> host" where
  "cmd_start ce foreground h =
     (case prepare_start ce foreground h of
        (Exits n, h1) \<Rightarrow> (NotServing n, h1)
      | (PrepareFails e, h1) \<Rightarrow> (ServeFails e, h1)
      | (Prepared p cf, h1) \<Rightarrow>
          (case daemon_new (ce_env ce) (ce_daemon ce) cf (ho_dbs h1 (cf_db_path cf))
              (ho_dbs h1 (with_file_name (cf_db_path cf) ''analysis.db'')) of
             Inl e \<Rightarrow> (ServeFails (CliDaemon e), h1)
           | Inr d \<Rightarrow>
               (case daemon_start (ce_env ce) (ce_daemon ce) d of
                  (Inl e, d') \<Rightarrow> (ServeFails (CliDaemon e), close_server d' h1)
                | (Inr _, d') \<Rightarrow> (Serving p d', close_server d' h1))))"

text \<open>The end of the command after \<open>run\<close> returned; an error of removing the PID file is ignored.\<close>

definition finish_serving :: "cli_env \<Rightarrow> process \<Rightarrow> host \<Rightarrow> host" where
  "finish_serving ce p h =
     (case pid_remove (ce_os ce) (pr_pid_file p) (ho_files h) of Inl _ \<Rightarrow> h | Inr fs \<Rightarrow> h\<lparr>ho_files := fs\<rparr>)"

text \<open>A server that a command opened watches nothing, and its store file has the tables of a store.\<close>

lemma opened_server:
  assumes "open_server ce h = (Inr d, h1)"
  shows "fw_watched (dm_watcher d) = Map.empty"
    and "\<exists>c fs. config_load ce (ho_files h) = (Inr c, fs) \<and> dm_config d = to_server_config c \<and> ho_files h1 = fs \<and>
      ss_db (dm_state d) = event_store_new (ho_dbs h (dc_db_path c)) \<and> ss_projects (dm_state d) = Map.empty"
  using assms
  by (auto simp: open_server_def daemon_new_def fs_watcher_new_def server_state_new_def with_machine_id_def close_server_def
      Let_def to_server_config_def split: prod.splits sum.splits option.splits if_splits)

subsection \<open>Reading durations\<close>

lemma takeWhile_digits:
  assumes "rest = [] \<or> \<not> is_digit (hd rest)"
  shows "takeWhile is_digit (show_nat n @ rest) = show_nat n" and "dropWhile is_digit (show_nat n @ rest) = rest"
proof -
  have d: "\<forall>c \<in> set (show_nat n). is_digit c" using show_nat_digits[of n] by (simp add: list_all_iff)
  show "takeWhile is_digit (show_nat n @ rest) = show_nat n" "dropWhile is_digit (show_nat n @ rest) = rest"
    using d assms by (cases rest; simp)+
qed

text \<open>The seconds of a unit.\<close>

definition unit_seconds :: "string \<Rightarrow> int option" where
  "unit_seconds u =
     map_of [(''s'', 1), (''sec'', 1), (''m'', 60), (''min'', 60), (''h'', 3600), (''hour'', 3600), (''d'', 86400), (''day'', 86400)] u"

lemma parse_duration_number:
  assumes "n < 2 ^ 63" and "u = [] \<or> \<not> is_digit (hd u)"
  shows "parse_duration (show_nat n @ u) =
    (case unit_seconds u of None \<Rightarrow> Some None | Some k \<Rightarrow> map_option Some (checked_seconds (int n * k)))"
  unfolding parse_duration_def takeWhile_digits[OF assms(2)] parse_unsigned_show[OF assms(1)]
  by (simp add: unit_seconds_def Let_def)

lemma parse_duration_unit:
  assumes "u = [] \<or> \<not> is_digit (hd u)" and "unit_seconds u = None"
  shows "parse_duration (show_nat n @ u) = Some None"
  using assms(2) unfolding parse_duration_def takeWhile_digits[OF assms(1)]
  by (auto simp: unit_seconds_def Let_def split: option.split if_splits)

subsection \<open>Properties\<close>

text \<open>A command line environment in which a configuration's text is its machine id.\<close>

definition demo_cli :: "string \<Rightarrow> cli_env" where
  "demo_cli uuid = \<lparr>ce_var = Map.empty, ce_data_dir = None, ce_config_dir = None, ce_uuid = uuid,
     ce_to_toml = (\<lambda>c. Inr (dc_machine_id c)),
     ce_from_toml = (\<lambda>t. Inr \<lparr>dc_machine_id = t, dc_db_path = ''/tmp/ambient-fs/events.db'',
       dc_socket_path = ''/tmp/ambient-fs.sock'', dc_debounce_ms = 100, dc_max_file_size_bytes = 10 * 1024 * 1024,
       dc_log_level = ''info''\<rparr>),
     ce_stamp = show_int, ce_os = demo_os, ce_env = demo_env, ce_daemon = demo_daemon_env\<rparr>"

definition demo_host :: host where
  "demo_host = \<lparr>ho_files = Map.empty, ho_dbs = (\<lambda>_. database_empty\<lparr>db_projects :=
     Some (StoreProjects [\<lparr>pr_project_id = ''v'', pr_path = ''/v'', pr_created_at = ''t''\<rparr>])\<rparr>)\<rparr>"

lemma demo_default_db: "default_db_path (demo_cli uuid) = ''/tmp/ambient-fs/events.db''"
  unfolding default_db_path_def demo_cli_def cli_env.select_convs base_dir_def by code_simp

lemma demo_config_path: "config_path (demo_cli uuid) = ''/tmp/ambient-fs/config.toml''"
  unfolding config_path_def demo_cli_def cli_env.select_convs base_dir_def by code_simp

lemma demo_first_load:
  "config_load (demo_cli uuid) Map.empty = (Inr (daemon_config_default (demo_cli uuid)), [''/tmp/ambient-fs/config.toml'' \<mapsto> uuid])"
proof -
  have "os_mkdir_error (ce_os (demo_cli uuid)) d = None" for d by (simp add: demo_cli_def demo_os_def)
  then have "Option.bind (parent_dir (config_path (demo_cli uuid))) (os_mkdir_error (ce_os (demo_cli uuid))) = None"
    by (cases "parent_dir (config_path (demo_cli uuid))") simp_all
  then show ?thesis
    by (simp add: config_load_def config_save_def Let_def demo_config_path) (simp add: demo_cli_def daemon_config_default_def)
qed

lemma demo_open_server:
  "\<exists>d h1. open_server (demo_cli uuid) demo_host = (Inr d, h1) \<and>
     rows_of d = Some (StoreProjects [\<lparr>pr_project_id = ''v'', pr_path = ''/v'', pr_created_at = ''t''\<rparr>])"
proof -
  have "de_mkdir_error (ce_daemon (demo_cli uuid)) = None" "en_store_opens (ce_env (demo_cli uuid))"
    by (simp_all add: demo_cli_def demo_daemon_env_def demo_env_def)
  then show ?thesis
    by (simp add: open_server_def demo_host_def demo_first_load daemon_new_def server_state_new_def with_machine_id_def
        event_store_new_def Let_def)
qed

text \<open>
  The option \<open>since\<close> of the command \<open>events\<close> reads a number of seconds, minutes, hours or days, and
  panics when the number of seconds is outside of chrono's range; a text that starts with a number and goes on with
  anything else, as a date does, is dropped without an error, so the command prints what it prints
  without the option.
\<close>

theorem since_reads_durations_only:
  assumes "u = [] \<or> \<not> is_digit (hd u)"
  shows "(n < 2 ^ 63 \<longrightarrow> parse_duration (show_nat n @ u) =
      (case unit_seconds u of None \<Rightarrow> Some None | Some k \<Rightarrow> map_option Some (checked_seconds (int n * k)))) \<and>
    (unit_seconds u = None \<longrightarrow> cmd_events ce (Some (show_nat n @ u)) src project lim h = cmd_events ce None src project lim h)"
proof -
  have "cmd_events ce (Some (show_nat n @ u)) src project lim h = cmd_events ce None src project lim h"
    if "unit_seconds u = None"
    unfolding cmd_events_def option.case parse_duration_unit[OF assms that] ..
  then show ?thesis using parse_duration_number[OF _ assms] by simp
qed

theorem since_reads_durations_only_witness:
  "parse_duration (show_nat 30 @ ''m'') = Some (Some (dur_minutes 30)) \<and>
   cmd_events ce (Some (show_nat 2024 @ ''-01-01'')) None None None h = cmd_events ce None None None None h"
proof -
  have "\<not> is_digit (hd ''m'')" "\<not> is_digit (hd ''-01-01'')" "unit_seconds ''m'' = Some 60" "unit_seconds ''-01-01'' = None"
    by (code_simp | simp add: unit_seconds_def)+
  then show ?thesis
    using since_reads_durations_only[of "''m''" 30] since_reads_durations_only[of "''-01-01''" 2024 ce None None None h]
    by (simp add: checked_seconds_def max_dur_millis_def dur_defs)
qed

text \<open>
  The configuration is chosen once: if the toml text of the default configuration reads back, the
  first load without a file creates it, and every later load, whatever identifier, directories or
  environment it would have chosen itself, gives the same configuration and changes no file.
\<close>

theorem config_is_stable:
  assumes "config_load ce fs = (Inr c, fs')" and "fs (config_path ce) = None"
    and "ce_to_toml ce c = Inr txt" and "ce_from_toml later txt = Inr c" and "utf8_valid txt"
    and "config_path later = config_path ce" and "os_read_error (ce_os later) (config_path ce) = None"
  shows "c = daemon_config_default ce \<and> fs' = fs(config_path ce \<mapsto> txt) \<and> config_load later fs' = (Inr c, fs')"
proof -
  have "c = daemon_config_default ce" "fs' = fs(config_path ce \<mapsto> txt)"
    using assms(1-3) by (auto simp: config_load_def config_save_def bind_res_Inr Let_def split: sum.splits option.splits)
  moreover from this(2) have "config_load later fs' = (Inr c, fs')"
    using assms(4-7) by (simp add: config_load_def read_text_def Let_def)
  ultimately show ?thesis by blast
qed

theorem config_is_stable_witness:
  "config_load (demo_cli ''m1'') Map.empty = (Inr (daemon_config_default (demo_cli ''m1'')), [''/tmp/ambient-fs/config.toml'' \<mapsto> ''m1'']) \<and>
   config_load (demo_cli ''m2'') [''/tmp/ambient-fs/config.toml'' \<mapsto> ''m1'']
     = (Inr (daemon_config_default (demo_cli ''m1'')), [''/tmp/ambient-fs/config.toml'' \<mapsto> ''m1''])"
proof -
  let ?c = "daemon_config_default (demo_cli ''m1'')"
  have h: "ce_to_toml (demo_cli ''m1'') ?c = Inr ''m1''" "ce_from_toml (demo_cli ''m2'') ''m1'' = Inr ?c"
    using demo_default_db[of "''m1''"] by (simp_all add: demo_cli_def daemon_config_default_def)
  have u: "utf8_valid ''m1''" by code_simp
  have "ce_os (demo_cli ''m2'') = demo_os" by (simp add: demo_cli_def)
  then have "config_path (demo_cli ''m2'') = config_path (demo_cli ''m1'')"
    "os_read_error (ce_os (demo_cli ''m2'')) (config_path (demo_cli ''m1'')) = None"
    by (simp_all add: demo_config_path)
  from config_is_stable[OF demo_first_load _ h u this] show ?thesis
    using demo_first_load[of "''m1''"] unfolding demo_config_path by simp
qed

text \<open>
  The command \<open>unwatch\<close> never reports success for a registered project: it removes the project from
  the registry and then fails, because the watcher that it asks is its own and watches nothing; for a
  project that is not registered it reports success and removes nothing.
\<close>

theorem cli_unwatch_fails_after_removing:
  assumes "open_server ce h = (Inr d, h1)" and "en_store_opens (ce_env ce)" and "rows_of d = Some (StoreProjects rs)"
  shows "(case List.find (\<lambda>r. pr_project_id r = pid) rs of
      Some r \<Rightarrow> fst (cmd_unwatch ce pid h) = ([], Inl (CliDaemon (DmWatch (NotWatching (pr_path r)))))
    | None \<Rightarrow> fst (cmd_unwatch ce pid h) = ([''unwatched project: '' @ pid], Inr ())) \<and>
    db_projects (ho_dbs (snd (cmd_unwatch ce pid h)) (cf_db_path (dm_config d)))
      = Some (StoreProjects (filter (\<lambda>r. pr_project_id r \<noteq> pid) rs))"
proof -
  note rows = event_store_new_projects[OF assms(3)]
  let ?st = "(dm_state d)\<lparr>ss_db := set_projects (event_store_new (ss_db (dm_state d))) (filter (\<lambda>r. pr_project_id r \<noteq> pid) rs)\<rparr>"
  have stored: "on_store (ce_env ce) (\<lambda>db. bind_res (store_get_project_path pid db) (\<lambda>path.
      bind_res (store_remove_project pid db) (\<lambda>db'. Inr (path, db')))) (dm_state d)
    = (Inr (map_option pr_path (List.find (\<lambda>r. pr_project_id r = pid) rs)), ?st)"
    using rows by (simp add: on_store_def assms(2) store_get_project_path_def store_remove_project_def with_projects_def Let_def)
  have free: "fw_watched (dm_watcher d) = Map.empty" using opened_server(1)[OF assms(1)] .
  have "daemon_unwatch_project (ce_env ce) pid d = (case List.find (\<lambda>r. pr_project_id r = pid) rs of
      Some r \<Rightarrow> (Inl (DmWatch (NotWatching (pr_path r))), d\<lparr>dm_state := ?st\<rparr>)
    | None \<Rightarrow> (Inr (), d\<lparr>dm_state := snd (remove_project pid (snd (remove_tree pid ?st)))\<rparr>))"
    unfolding daemon_unwatch_project_def stored by (simp add: free fw_unwatch_def split: option.split)
  then show ?thesis
    by (simp add: cmd_unwatch_def assms(1) close_server_def fails_def set_projects_def remove_project_def remove_tree_def
        split: option.split)
qed

theorem cli_unwatch_fails_after_removing_witness:
  "fst (cmd_unwatch (demo_cli ''m'') ''v'' demo_host) = ([], Inl (CliDaemon (DmWatch (NotWatching ''/v'')))) \<and>
   fst (cmd_unwatch (demo_cli ''m'') ''u'' demo_host) = ([''unwatched project: u''], Inr ())"
proof -
  obtain d h1 where d: "open_server (demo_cli ''m'') demo_host = (Inr d, h1)"
    "rows_of d = Some (StoreProjects [\<lparr>pr_project_id = ''v'', pr_path = ''/v'', pr_created_at = ''t''\<rparr>])"
    using demo_open_server by blast
  have o: "en_store_opens (ce_env (demo_cli ''m''))" by (simp add: demo_cli_def demo_env_def)
  from cli_unwatch_fails_after_removing[OF d(1) o d(2), of "''v''"] cli_unwatch_fails_after_removing[OF d(1) o d(2), of "''u''"]
  show ?thesis by simp
qed

text \<open>The projects of a store that may not have its table yet.\<close>

definition registered :: "database \<Rightarrow> project_row list" where
  "registered db = (case db_projects db of Some (StoreProjects rs) \<Rightarrow> rs | _ \<Rightarrow> [])"

text \<open>What watching through the command leaves in the store.\<close>

lemma cmd_watch_registers:
  assumes "cmd_watch ce path h = ((out, Inr ()), h')" and "en_canonicalize (ce_env ce) path = Some root"
    and "config_load ce (ho_files h) = (Inr c, fs)"
    and "generate_project_id root \<notin> pr_project_id ` set (registered (ho_dbs h (dc_db_path c)))"
  shows "is_absolute root \<and> db_projects (ho_dbs h' (dc_db_path c)) = Some (StoreProjects (registered (ho_dbs h (dc_db_path c)) @
    [\<lparr>pr_project_id = generate_project_id root, pr_path = root, pr_created_at = en_fmt (ce_env ce) (en_now (ce_env ce))\<rparr>]))"
proof -
  let ?db = "ho_dbs h (dc_db_path c)"
  obtain d h1 where d: "open_server ce h = (Inr d, h1)"
    using assms(1,2) by (auto simp: cmd_watch_def fails_def split: prod.splits sum.splits)
  have cf: "dm_config d = to_server_config c" "ss_db (dm_state d) = event_store_new ?db"
    using opened_server(2)[OF d] assms(3) by auto
  obtain pid d' where w: "daemon_watch_project (ce_env ce) (ce_daemon ce) root d = (Inr pid, d')" "h' = close_server d' h1"
    using assms(1,2) d by (auto simp: cmd_watch_def fails_def split: prod.splits sum.splits)
  have new: "\<not> list_ex (\<lambda>r. pr_project_id r = generate_project_id root) (registered ?db)"
    using assms(4) by (force simp: list_ex_iff)
  have table: "db_projects (event_store_new (event_store_new ?db)) = Some (StoreProjects (registered ?db)) \<or>
      db_projects (event_store_new (event_store_new ?db)) = Some MigratedProjects"
    by (auto simp: registered_def event_store_new_def split: option.split projects_table.split)
  from w(1) have "is_absolute root \<and> dm_config d' = dm_config d \<and> db_projects (ss_db (dm_state d')) =
    Some (StoreProjects (registered ?db @
      [\<lparr>pr_project_id = generate_project_id root, pr_path = root, pr_created_at = en_fmt (ce_env ce) (en_now (ce_env ce))\<rparr>]))"
    using table new
    by (auto simp: daemon_watch_project_def fw_watch_def on_store_def store_add_project_def with_projects_def set_projects_def
        to_str_def add_project_def add_tree_def Let_def cf(2) split: sum.splits prod.splits option.splits if_splits)
  then show ?thesis by (simp add: w(2) close_server_def cf(1) to_server_config_def)
qed

text \<open>A start that succeeds has restored the projects with a watcher that runs, and changed neither the mapping nor the
  trees since.\<close>

lemma daemon_start_restores:
  assumes "daemon_start en de d = (Inr (), d')" and "\<not> dm_running d"
  obtains w d1 where "fw_start (en_start_error en) (dm_watcher d) = (Inr (fw_channel (dm_watcher d) + 1), w)"
    and "restore_projects en de (d\<lparr>dm_running := True, dm_watcher := w\<rparr>) = (Inr (), d1)"
    and "ss_projects (dm_state d') = ss_projects (dm_state d1)" and "ss_trees (dm_state d') = ss_trees (dm_state d1)"
proof -
  obtain ch w d1 where w: "fw_start (en_start_error en) (dm_watcher d) = (Inr ch, w)"
    and res: "restore_projects en de (d\<lparr>dm_running := True, dm_watcher := w\<rparr>) = (Inr (), d1)"
    using assms by (auto simp: daemon_start_def Let_def split: prod.splits sum.splits)
  have "dm_state d' = dm_state (prune_at_start en d1)"
    using assms w res by (auto simp: daemon_start_def Let_def split: option.splits if_splits)
  then have "ss_projects (dm_state d') = ss_projects (dm_state d1)" "ss_trees (dm_state d') = ss_trees (dm_state d1)"
    by (simp_all add: prune_at_start_def)
  moreover have "ch = fw_channel (dm_watcher d) + 1" using w by (auto simp: fw_start_def Let_def split: option.splits)
  ultimately show thesis using w res that by blast
qed

text \<open>
  C27. Watching through the command takes effect when the daemon starts again.  Let the command \<open>watch\<close>
  have reported success for a directory whose project id the store of its configuration, fresh or not, did not
  hold, nor its path; let the ids and the paths of the registry be different.  A daemon that is created on that store
  and starts, listing the registry in any order, maps the project to the directory, with the tree of a scan for it, exactly if the directory exists
  and its watch succeeds at that start; otherwise it neither maps the project nor has a tree for it.
\<close>

theorem cli_watch_takes_effect_at_restart:
  assumes "cmd_watch ce path h = ((out, Inr ()), h')" and "en_canonicalize (ce_env ce) path = Some root"
    and "config_load ce (ho_files h) = (Inr c, fs)" and "registered (ho_dbs h (dc_db_path c)) = rs"
    and "generate_project_id root \<notin> pr_project_id ` set rs" and "components root \<notin> (components \<circ> pr_path) ` set rs"
    and "distinct (map pr_project_id rs)" and "distinct (map (components \<circ> pr_path) rs)"
    and "daemon_new en de (to_server_config c) (ho_dbs h' (dc_db_path c)) adb = Inr d"
    and "daemon_start en de d = (Inr (), d')" and "\<forall>qs. mset (de_order_projects de qs) = mset qs"
  shows "let pid = generate_project_id root; taken = dk_exists (en_disk en) root \<and> en_watch_error en root = None in
    ss_projects (dm_state d') pid = (if taken then Some root else None) \<and>
    ss_trees (dm_state d') pid =
      (if taken then Some (from_directory (de_lower de) (de_files de) root path_filter_default) else None)"
proof -
  let ?row = "\<lparr>pr_project_id = generate_project_id root, pr_path = root, pr_created_at = en_fmt (ce_env ce) (en_now (ce_env ce))\<rparr>"
  note reg = cmd_watch_registers[OF assms(1-3), unfolded assms(4), OF assms(5)]
  have d: "en_store_opens en" "dm_watcher d = fs_watcher_new ''default'' (cf_machine_id (to_server_config c))"
    "ss_db (dm_state d) = event_store_new (ho_dbs h' (dc_db_path c))" "ss_projects (dm_state d) = Map.empty"
    "ss_trees (dm_state d) = Map.empty" "\<not> dm_running d"
    using assms(9) by (auto simp: daemon_new_def server_state_new_def with_machine_id_def split: option.splits if_splits)
  obtain w d1 where w: "fw_start (en_start_error en) (dm_watcher d) = (Inr (fw_channel (dm_watcher d) + 1), w)"
    and res: "restore_projects en de (d\<lparr>dm_running := True, dm_watcher := w\<rparr>) = (Inr (), d1)"
    and after: "ss_projects (dm_state d') = ss_projects (dm_state d1)" "ss_trees (dm_state d') = ss_trees (dm_state d1)"
    using daemon_start_restores[OF assms(10) d(6)] .
  let ?d = "d\<lparr>dm_running := True, dm_watcher := w\<rparr>"
  have rows: "rows_of ?d = Some (StoreProjects (rs @ [?row]))"
    using event_store_new_projects[of "ho_dbs h' (dc_db_path c)"] reg by (simp add: d(3))
  have ok: "distinct (map pr_project_id (rs @ [?row]))" "distinct (map (components \<circ> pr_path) (rs @ [?row]))"
    "mset (de_order_projects de (rs @ [?row])) = mset (rs @ [?row])"
    using assms(5-8,11) by simp_all
  have taken: "restorable en (dm_watcher ?d) root \<longleftrightarrow> dk_exists (en_disk en) root \<and> en_watch_error en root = None"
    using w reg by (auto simp: restorable_def d(2) fs_watcher_new_def fw_start_def Let_def split: option.splits)
  have "?row \<in> set (rs @ [?row])" by simp
  from restored_project[OF d(1) rows ok(3,1,2) res this] show ?thesis
    unfolding Let_def after taken[symmetric] by (auto simp: d(4,5) split: if_splits)
qed

theorem cli_watch_takes_effect_at_restart_witness:
  "\<exists>out h' d d'. cmd_watch (demo_cli ''m'') ''/w'' demo_host = ((out, Inr ()), h') \<and>
     daemon_new demo_env demo_daemon_env (to_server_config (daemon_config_default (demo_cli ''m'')))
       (ho_dbs h' ''/tmp/ambient-fs/events.db'') database_empty = Inr d \<and>
     daemon_start demo_env demo_daemon_env d = (Inr (), d') \<and> ss_projects (dm_state d') ''w'' = Some ''/w''"
proof -
  let ?ce = "demo_cli ''m''" and ?row = "\<lparr>pr_project_id = ''v'', pr_path = ''/v'', pr_created_at = ''t''\<rparr>"
  let ?c = "daemon_config_default ?ce"
  have ce: "ce_env ?ce = demo_env" "ce_daemon ?ce = demo_daemon_env" by (simp_all add: demo_cli_def)
  have id: "generate_project_id ''/w'' = ''w''" "components ''/w'' \<noteq> components ''/v''" "is_absolute ''/v''" "is_absolute ''/w''"
    "to_str ''/w'' = Some ''/w''" by code_simp+
  have c: "en_canonicalize (ce_env ?ce) ''/w'' = Some ''/w''" "dc_db_path ?c = ''/tmp/ambient-fs/events.db''"
    "config_load ?ce (ho_files demo_host) = (Inr ?c, [''/tmp/ambient-fs/config.toml'' \<mapsto> ''m''])"
    using demo_default_db[of "''m''"] by (simp_all add: ce demo_env_def daemon_config_default_def demo_host_def demo_first_load)
  have db: "registered (ho_dbs demo_host (dc_db_path ?c)) = [?row]" by (simp add: demo_host_def registered_def)
  obtain d1 h1 where d1: "open_server ?ce demo_host = (Inr d1, h1)" "rows_of d1 = Some (StoreProjects [?row])"
    using demo_open_server by blast
  have "\<exists>d2. daemon_watch_project demo_env demo_daemon_env ''/w'' d1 = (Inr ''w'', d2)"
    using event_store_new_projects[OF d1(2)] opened_server(1)[OF d1(1)]
    by (simp add: daemon_watch_project_def id fw_watch_def demo_env_def demo_disk_def on_store_def store_add_project_def
        with_projects_def Let_def split: option.split)
  then obtain out h' where w: "cmd_watch ?ce ''/w'' demo_host = ((out, Inr ()), h')"
    using c(1) by (auto simp: cmd_watch_def d1(1) ce Let_def)
  have rs: "generate_project_id ''/w'' \<notin> pr_project_id ` set [?row]" "components ''/w'' \<notin> (components \<circ> pr_path) ` set [?row]"
    "distinct (map pr_project_id [?row])" "distinct (map (components \<circ> pr_path) [?row])"
    using id by simp_all
  have "registered (ho_dbs demo_host (dc_db_path ?c)) = [?row]" "generate_project_id ''/w'' \<notin> pr_project_id ` set [?row]"
    by (fact db, fact rs(1))
  then obtain qs where "db_projects (ho_dbs h' (dc_db_path ?c)) = Some (StoreProjects qs)"
    using cmd_watch_registers[OF w c(1,3)] by simp
  note qs = event_store_new_projects[OF event_store_new_projects[OF this]]
  obtain d where d: "daemon_new demo_env demo_daemon_env (to_server_config ?c) (ho_dbs h' (dc_db_path ?c)) database_empty = Inr d"
    "ss_db (dm_state d) = event_store_new (ho_dbs h' (dc_db_path ?c))" "\<not> dm_running d" "\<not> dm_bound d"
    by (simp add: daemon_new_def demo_daemon_env_def demo_env_def server_state_new_def with_machine_id_def)
  obtain d' where s: "daemon_start demo_env demo_daemon_env d = (Inr (), d')"
    using qs d(2-4)
    by (simp add: daemon_start_def fw_start_def restore_projects_def read_store_def on_store_def store_list_projects_def
        with_projects_def Let_def prune_at_start_def restored_bound demo_env_def demo_daemon_env_def split_beta)
  have en: "\<forall>qs. mset (de_order_projects demo_daemon_env qs) = mset qs"
    "en_watch_error demo_env ''/w'' = None" "dk_exists (en_disk demo_env) ''/w''"
    by (simp_all add: demo_env_def demo_disk_def demo_daemon_env_def)
  have "ss_projects (dm_state d') ''w'' = Some ''/w''"
    using cli_watch_takes_effect_at_restart[OF w c(1,3) db rs d(1) s en(1)] en(2,3) by (simp add: id(1) Let_def)
  with w d(1) s show ?thesis unfolding c(2) by blast
qed

end
