(* ===== verification/Commands.thy ===== *)
theory Commands
  imports Cli
begin

text \<open>
  The program's entry point and its service files, \<open>crates/ambient-fsd/src/main.rs\<close> on Linux: the
  commands, what each one runs, the exit status, and \<open>install-service\<close> and \<open>uninstall-service\<close> with the
  template \<open>deploy/ambient-fsd.service\<close>.  clap's parsing of the arguments is outside: a command is a value
  of \<open>cli_command\<close>.
\<close>

datatype cli_command =
  CmdStart bool | CmdStop | CmdStatus | CmdWatch string | CmdUnwatch string
| CmdEvents "string option" "string option" "string option" "nat option"
| CmdAwareness string string | CmdPrune int | CmdInstallService | CmdUninstallService

subsection \<open>The service file\<close>

text \<open>\<open>str::replace\<close> of a pattern that is not empty.\<close>

fun str_replace :: "string \<Rightarrow> string \<Rightarrow> string \<Rightarrow> string" where
  "str_replace p r [] = []"
| "str_replace p r (c # cs) =
     (if prefix p (c # cs) then r @ str_replace p r (drop (length p - 1) cs) else c # str_replace p r cs)"

definition text_lines :: "string list \<Rightarrow> string" where
  "text_lines ls = concat (map (\<lambda>l. l @ [CHR 0x0A]) ls)"

definition SYSTEMD_SERVICE_TEMPLATE :: string where
  "SYSTEMD_SERVICE_TEMPLATE = text_lines
     [''[Unit]'', ''Description=Ambient Filesystem Awareness Daemon'', ''After=default.target'', [],
      ''[Service]'', ''Type=simple'', ''ExecStart={BINARY} start --foreground'', ''Restart=on-failure'', ''RestartSec=5'',
      ''Environment=RUST_LOG=info'', [], ''[Install]'', ''WantedBy=default.target'']"

text \<open>What the commands ask besides: \<open>current_exe\<close>, and \<open>fs::exists\<close> where it cannot tell.\<close>

record service_env =
  sv_exe :: "string + string"
  sv_stat_error :: "string \<Rightarrow> string option"

definition home_dir :: "cli_env \<Rightarrow> cli_error + string" where
  "home_dir ce = (case ce_var ce ''HOME'' of None \<Rightarrow> Inl (CliIo ''environment variable not found'') | Some home \<Rightarrow> Inr home)"

definition service_dir :: "string \<Rightarrow> string" where
  "service_dir home = home @ ''/.config/systemd/user''"

definition service_path :: "string \<Rightarrow> string" where
  "service_path home = service_dir home @ ''/ambient-fsd.service''"

definition service_content :: "string \<Rightarrow> string" where
  "service_content binary = str_replace ''{BINARY}'' (to_string_lossy binary) SYSTEMD_SERVICE_TEMPLATE"

definition install_notes :: "string \<Rightarrow> string list" where
  "install_notes path =
     [''service file installed to: '' @ path, [], ''to enable and start the service, run:'',
      ''  systemctl --user daemon-reload'', ''  systemctl --user enable ambient-fsd'',
      ''  systemctl --user start ambient-fsd'', [], ''to check status:'', ''  systemctl --user status ambient-fsd'', [],
      ''to stop and disable:'', ''  systemctl --user stop ambient-fsd'', ''  systemctl --user disable ambient-fsd'']"

definition cmd_install_service :: "cli_env \<Rightarrow> service_env \<Rightarrow> host \<Rightarrow> cmd_out \<times> host" where
  "cmd_install_service ce sv h =
     (case map_err CliIo (sv_exe sv) of
        Inl e \<Rightarrow> (fails e, h)
      | Inr binary \<Rightarrow>
          (case home_dir ce of
             Inl e \<Rightarrow> (fails e, h)
           | Inr home \<Rightarrow>
               (let path = service_path home in
                case os_mkdir_error (ce_os ce) (service_dir home) of
                  Some e \<Rightarrow> (fails (CliIo e), h)
                | None \<Rightarrow>
                    (case os_write_error (ce_os ce) path of
                       Some e \<Rightarrow> (fails (CliIo e), h)
                     | None \<Rightarrow>
                         ((install_notes path, Inr ()),
                          h\<lparr>ho_files := (ho_files h)(path \<mapsto> service_content binary)\<rparr>)))))"

definition uninstall_notes :: "string \<Rightarrow> string list" where
  "uninstall_notes path =
     [''service file removed: '' @ path, [], ''if the service was enabled, disable it with:'',
      ''  systemctl --user stop ambient-fsd'', ''  systemctl --user disable ambient-fsd'',
      ''  systemctl --user daemon-reload'']"

definition cmd_uninstall_service :: "cli_env \<Rightarrow> service_env \<Rightarrow> host \<Rightarrow> cmd_out \<times> host" where
  "cmd_uninstall_service ce sv h =
     (case home_dir ce of
        Inl e \<Rightarrow> (fails e, h)
      | Inr home \<Rightarrow>
          (let path = service_path home in
           case sv_stat_error sv path of
             Some e \<Rightarrow> (fails (CliIo e), h)
           | None \<Rightarrow>
               if ho_files h path = None then (([''service file not found: '' @ path], Inr ()), h)
               else (case os_remove_error (ce_os ce) path of
                       Some e \<Rightarrow> (fails (CliIo e), h)
                     | None \<Rightarrow> ((uninstall_notes path, Inr ()), h\<lparr>ho_files := (ho_files h)(path := None)\<rparr>))))"

subsection \<open>Running a command\<close>

text \<open>
  \<open>main\<close> with \<open>run\<close>: the process ends with what it printed and its status, after sending signals, or it serves.  An
  error is printed on the standard error output, which is not part of the lines; a panic ends the process with 101.
\<close>

datatype main_outcome = MainExits "string list" nat "int list" | MainServes process daemon

definition exit_with :: "int list \<Rightarrow> cmd_out \<Rightarrow> main_outcome" where
  "exit_with sent out =
     MainExits (fst out) (case snd out of Inl CliPanic \<Rightarrow> 101 | Inl _ \<Rightarrow> 1 | Inr _ \<Rightarrow> 0) sent"

definition run_command :: "cli_env \<Rightarrow> service_env \<Rightarrow> cli_command \<Rightarrow> host \<Rightarrow> main_outcome \<times> host" where
  "run_command ce sv cmd h =
     (case cmd of
        CmdStart foreground \<Rightarrow>
          (case cmd_start ce foreground h of
             (NotServing n, h') \<Rightarrow>
               (MainExits (case process_status (ce_os ce) (with_foreground foreground process_new) (ho_files h') of
                  Inr (Some pid) \<Rightarrow> [''daemon already running (PID '' @ show_nat pid @ '')''] | _ \<Rightarrow> []) n [], h')
           | (ServeFails e, h') \<Rightarrow> (exit_with [] (fails e), h')
           | (Serving p d, h') \<Rightarrow> (MainServes p d, h'))
      | CmdStop \<Rightarrow> (let (out, sent) = cmd_stop ce h in (exit_with sent out, h))
      | CmdStatus \<Rightarrow> (exit_with [] (cmd_status ce h), h)
      | CmdWatch path \<Rightarrow> (let (out, h') = cmd_watch ce path h in (exit_with [] out, h'))
      | CmdUnwatch pid \<Rightarrow> (let (out, h') = cmd_unwatch ce pid h in (exit_with [] out, h'))
      | CmdEvents since src project lim \<Rightarrow>
          (let (out, h') = cmd_events ce since src project lim h in (exit_with [] out, h'))
      | CmdAwareness project path \<Rightarrow> (let (out, h') = cmd_awareness ce project path h in (exit_with [] out, h'))
      | CmdPrune days \<Rightarrow> (let (out, h') = cmd_prune ce days h in (exit_with [] out, h'))
      | CmdInstallService \<Rightarrow> (let (out, h') = cmd_install_service ce sv h in (exit_with [] out, h'))
      | CmdUninstallService \<Rightarrow> (let (out, h') = cmd_uninstall_service ce sv h in (exit_with [] out, h')))"

subsection \<open>Properties\<close>

lemma service_content_lines:
  "service_content binary = text_lines
     [''[Unit]'', ''Description=Ambient Filesystem Awareness Daemon'', ''After=default.target'', [],
      ''[Service]'', ''Type=simple'', ''ExecStart='' @ to_string_lossy binary @ '' start --foreground'', ''Restart=on-failure'',
      ''RestartSec=5'', ''Environment=RUST_LOG=info'', [], ''[Install]'', ''WantedBy=default.target'']"
  unfolding service_content_def SYSTEMD_SERVICE_TEMPLATE_def text_lines_def by simp

text \<open>
  Installing writes a service file that starts the running binary in the foreground, and uninstalling
  afterwards removes it: the other files are as they were, and a second time there is nothing to remove.
\<close>

theorem uninstall_undoes_install:
  assumes "run_command ce sv CmdInstallService h = (MainExits out 0 sent, h1)"
    and "ce_var ce ''HOME'' = Some home" and "sv_exe sv = Inr binary"
    and "sv_stat_error sv (service_path home) = None" and "os_remove_error (ce_os ce) (service_path home) = None"
  shows "ho_files h1 (service_path home) = Some (service_content binary) \<and>
    run_command ce sv CmdUninstallService h1 =
      (MainExits (uninstall_notes (service_path home)) 0 [], h\<lparr>ho_files := (ho_files h)(service_path home := None)\<rparr>) \<and>
    run_command ce sv CmdUninstallService (h\<lparr>ho_files := (ho_files h)(service_path home := None)\<rparr>) =
      (MainExits [''service file not found: '' @ service_path home] 0 [], h\<lparr>ho_files := (ho_files h)(service_path home := None)\<rparr>)"
proof -
  have "h1 = h\<lparr>ho_files := (ho_files h)(service_path home \<mapsto> service_content binary)\<rparr>"
    using assms(1-3)
    by (auto simp: run_command_def cmd_install_service_def home_dir_def exit_with_def fails_def Let_def
        split: option.splits)
  then show ?thesis
    using assms(2,4,5) by (simp add: run_command_def cmd_uninstall_service_def home_dir_def exit_with_def Let_def)
qed

theorem uninstall_undoes_install_witness:
  "ho_files (snd (run_command ((demo_cli ''m'')\<lparr>ce_var := [''HOME'' \<mapsto> ''/h'']\<rparr>)
     \<lparr>sv_exe = Inr ''/bin/fsd'', sv_stat_error = Map.empty\<rparr> CmdInstallService demo_host))
     ''/h/.config/systemd/user/ambient-fsd.service'' = Some (service_content ''/bin/fsd'')"
proof -
  let ?ce = "(demo_cli ''m'')\<lparr>ce_var := [''HOME'' \<mapsto> ''/h'']\<rparr>"
  let ?sv = "\<lparr>sv_exe = Inr ''/bin/fsd'', sv_stat_error = Map.empty\<rparr>"
  have p: "service_path ''/h'' = ''/h/.config/systemd/user/ambient-fsd.service''" by (simp add: service_path_def service_dir_def)
  have r: "run_command ?ce ?sv CmdInstallService demo_host = (MainExits (install_notes (service_path ''/h'')) 0 [],
    snd (run_command ?ce ?sv CmdInstallService demo_host))"
    by (simp add: run_command_def cmd_install_service_def home_dir_def exit_with_def demo_cli_def demo_os_def Let_def)
  have "os_remove_error (ce_os ?ce) (service_path ''/h'') = None" by (simp add: demo_cli_def demo_os_def)
  from uninstall_undoes_install[OF r _ _ _ this] show ?thesis by (simp add: p)
qed

end
