(* ===== verification/Lifecycle.thy ===== *)
theory Lifecycle
  imports Prelude
begin

text \<open>
  The socket server as an object, \<open>SocketServer\<close> of \<open>crates/ambient-fs-server/src/socket.rs\<close> (binding,
  the accept loop, the shutdown channel), and how the daemon runs it and shuts down:
  the tasks of \<open>run\<close> after its preparations and of \<open>shutdown\<close> in \<open>crates/ambient-fsd/src/server.rs\<close>,
  interleaved, with the mutex around the socket server that the socket task holds while it serves.
\<close>

datatype socket_error = SoIo string | SoAlreadyBound | SoNotBound

record socket_server =
  so_path :: string
  so_std_listener :: bool
  so_tokio_listener :: bool
  so_has_channel :: bool
  so_has_state :: bool

definition socket_server_new :: "string \<Rightarrow> socket_server" where
  "socket_server_new path = \<lparr>so_path = path, so_std_listener = False, so_tokio_listener = False,
     so_has_channel = False, so_has_state = False\<rparr>"

definition so_set_state :: "socket_server \<Rightarrow> socket_server" where
  "so_set_state so = so\<lparr>so_has_state := True\<rparr>"

definition so_is_bound :: "socket_server \<Rightarrow> bool" where
  "so_is_bound so = (so_std_listener so \<or> so_tokio_listener so)"

text \<open>\<open>exists\<close>: whether a file has the path; then the errors of removing it and of binding.\<close>

definition so_bind :: "bool \<Rightarrow> string option \<Rightarrow> string option \<Rightarrow> socket_server \<Rightarrow> socket_error + socket_server" where
  "so_bind exists remove_error bind_error so =
     (if so_is_bound so then Inl SoAlreadyBound
      else (case (if exists then remove_error else None) of
        Some e \<Rightarrow> Inl (SoIo e)
      | None \<Rightarrow> (case bind_error of Some e \<Rightarrow> Inl (SoIo e) | None \<Rightarrow> Inr (so\<lparr>so_std_listener := True\<rparr>))))"

text \<open>\<open>run\<close> up to its loop; \<open>convert_error\<close> is the error of making the listener asynchronous, which loses
  the listener.\<close>

definition so_enter :: "string option \<Rightarrow> socket_server \<Rightarrow> (socket_error + unit) \<times> socket_server" where
  "so_enter convert_error so =
     (let (r, so1) =
        (if so_tokio_listener so then (Inr (), so)
         else if \<not> so_std_listener so then (Inl SoNotBound, so)
         else (case convert_error of
           Some e \<Rightarrow> (Inl (SoIo e), so\<lparr>so_std_listener := False\<rparr>)
         | None \<Rightarrow> (Inr (), so\<lparr>so_std_listener := False, so_tokio_listener := True\<rparr>))) in
      case r of
        Inl e \<Rightarrow> (Inl e, so1)
      | Inr _ \<Rightarrow>
          (let so2 = so1\<lparr>so_has_channel := True\<rparr> in
           if so_has_state so2 then (Inr (), so2) else (Inl SoNotBound, so2)))"

text \<open>The accept loop: how many connections got a task, and whether the loop returned.\<close>

datatype sock_event = Accepted | AcceptFailed | ShutdownReceived

fun so_serve :: "sock_event list \<Rightarrow> nat \<times> bool" where
  "so_serve [] = (0, False)"
| "so_serve (ShutdownReceived # evs) = (0, True)"
| "so_serve (AcceptFailed # evs) = so_serve evs"
| "so_serve (Accepted # evs) = (let (n, done) = so_serve evs in (n + 1, done))"

text \<open>Whether \<open>shutdown\<close> sends: without a channel it succeeds and does nothing.\<close>

definition so_shutdown :: "socket_server \<Rightarrow> bool" where
  "so_shutdown so = so_has_channel so"

definition shutdown_sender :: "socket_server \<Rightarrow> bool" where
  "shutdown_sender so = so_has_channel so"

subsection \<open>The daemon's tasks\<close>

text \<open>The socket task waits for the mutex, serves while it holds it, and ends or fails; then
  \<open>run\<close> returns its error without cleaning up.  The main task is in
  \<open>run\<close> before it spawns the socket task, in its select loop, or has returned.\<close>

datatype task = Unspawned | Queued | Serving | Ended | Failed

datatype main_phase = Preparing | Looping | Returned

text \<open>\<open>lf_sender\<close>: the loop holds a sender; \<open>lf_signal\<close>: the channel has a message; \<open>lf_callers\<close> and
  \<open>lf_completed\<close>: calls of \<open>shutdown\<close> that wait for the mutex, and that returned.\<close>

record lifecycle =
  lf_socket :: socket_server
  lf_task :: task
  lf_sender :: bool
  lf_signal :: bool
  lf_running :: bool
  lf_watching :: bool
  lf_main :: main_phase
  lf_connections :: nat
  lf_callers :: nat
  lf_completed :: nat

text \<open>The daemon when \<open>run\<close> has bound the socket server and given it the state.\<close>

definition lifecycle_bound :: "socket_server \<Rightarrow> lifecycle" where
  "lifecycle_bound so = \<lparr>lf_socket = so, lf_task = Unspawned, lf_sender = False, lf_signal = False,
     lf_running = True, lf_watching = True, lf_main = Preparing, lf_connections = 0, lf_callers = 0, lf_completed = 0\<rparr>"

definition clean_up :: "lifecycle \<Rightarrow> lifecycle" where
  "clean_up s = s\<lparr>lf_running := False, lf_watching := False, lf_main := Returned\<rparr>"

text \<open>A call of \<open>DaemonServer::shutdown\<close>: before it asks for the mutex of the socket server, and once it has it.\<close>

definition shutdown_called :: "lifecycle \<Rightarrow> lifecycle" where
  "shutdown_called s = s\<lparr>lf_running := False, lf_callers := lf_callers s + 1\<rparr>"

definition shutdown_locked :: "lifecycle \<Rightarrow> lifecycle" where
  "shutdown_locked s =
     s\<lparr>lf_signal := lf_signal s \<or> so_shutdown (lf_socket s), lf_watching := False,
       lf_callers := lf_callers s - 1, lf_completed := lf_completed s + 1\<rparr>"

text \<open>The steps of the tasks, interleaved.  The socket task may go on after \<open>run\<close> has returned, as long as the
  process lives; in \<open>main\<close> it ends soon after.\<close>

inductive life_step :: "lifecycle \<Rightarrow> lifecycle \<Rightarrow> bool" where
  spawn: "lf_main s = Preparing \<Longrightarrow> life_step s
    (s\<lparr>lf_sender := shutdown_sender (lf_socket s), lf_task := Queued, lf_main := Looping\<rparr>)"
| enter: "lf_task s = Queued \<Longrightarrow> so_enter None (lf_socket s) = (Inr (), so) \<Longrightarrow>
    life_step s (s\<lparr>lf_socket := so, lf_task := Serving\<rparr>)"
| enter_fails: "lf_task s = Queued \<Longrightarrow> so_enter err (lf_socket s) = (Inl e, so) \<Longrightarrow>
    life_step s (s\<lparr>lf_socket := so, lf_task := Failed\<rparr>)"
| connect: "lf_task s = Serving \<Longrightarrow> life_step s (s\<lparr>lf_connections := lf_connections s + 1\<rparr>)"
| receive: "lf_task s = Serving \<Longrightarrow> lf_signal s \<Longrightarrow> life_step s (s\<lparr>lf_task := Ended\<rparr>)"
| terminate: "lf_main s = Looping \<Longrightarrow>
    life_step s (clean_up (s\<lparr>lf_signal := lf_signal s \<or> lf_sender s\<rparr>))"
| joined: "lf_main s = Looping \<Longrightarrow> lf_task s = Ended \<Longrightarrow> life_step s (clean_up s)"
| joined_error: "lf_main s = Looping \<Longrightarrow> lf_task s = Failed \<Longrightarrow> life_step s (s\<lparr>lf_main := Returned\<rparr>)"
| call: "life_step s (shutdown_called s)"
| locked: "0 < lf_callers s \<Longrightarrow> lf_task s \<noteq> Serving \<Longrightarrow> life_step s (shutdown_locked s)"

declare life_step.intros [intro]

inductive life_reach :: "lifecycle \<Rightarrow> lifecycle \<Rightarrow> bool" where
  refl: "life_reach s s"
| step: "life_reach s t \<Longrightarrow> life_step t u \<Longrightarrow> life_reach s u"

inductive_cases life_stepE: "life_step s t"

lemma life_reach_trans: "life_reach t u \<Longrightarrow> life_reach s t \<Longrightarrow> life_reach s u"
  by (induction rule: life_reach.induct) (auto intro: life_reach.step)

text \<open>The state of a server that was bound once, and entered without an error.\<close>

definition fresh_bound :: "socket_server \<Rightarrow> bool" where
  "fresh_bound so \<longleftrightarrow> so_std_listener so \<and> \<not> so_tokio_listener so \<and> \<not> so_has_channel so \<and> so_has_state so"

text \<open>No sender, no message, and a channel only once the socket task holds the mutex.  A conversion
  that fails ends the task, and creates no channel either.\<close>

definition unsignalled :: "lifecycle \<Rightarrow> bool" where
  "unsignalled s \<longleftrightarrow> \<not> lf_sender s \<and> \<not> lf_signal s \<and> so_has_state (lf_socket s) \<and>
     (lf_main s = Preparing \<longrightarrow> lf_task s = Unspawned) \<and> lf_task s \<noteq> Ended \<and>
     (lf_main s = Returned \<longrightarrow> lf_task s = Failed \<or> \<not> lf_running s \<and> \<not> lf_watching s) \<and> (so_has_channel (lf_socket s) \<longrightarrow> lf_task s = Serving)"

lemma so_enter_state: "so_enter err so = (r, so') \<Longrightarrow> so_has_state so' = so_has_state so"
  by (auto simp: so_enter_def Let_def split: if_splits option.splits)

lemma so_enter_channel: "so_enter err so = (Inl e, so') \<Longrightarrow> so_has_state so \<Longrightarrow> so_has_channel so' = so_has_channel so"
  by (auto simp: so_enter_def Let_def split: if_splits option.splits)

lemma unsignalled_step: "life_step s t \<Longrightarrow> unsignalled s \<Longrightarrow> unsignalled t"
  by (induction rule: life_step.induct)
    (auto simp: unsignalled_def shutdown_sender_def so_shutdown_def clean_up_def shutdown_called_def shutdown_locked_def so_enter_state dest: so_enter_channel)

lemma unsignalled_reach: "life_reach s t \<Longrightarrow> unsignalled s \<Longrightarrow> unsignalled t"
  by (induction rule: life_reach.induct) (auto intro: unsignalled_step)

text \<open>A socket task that serves goes on, and no call of \<open>shutdown\<close> returns meanwhile.\<close>

lemma serving_step:
  "life_step s t \<Longrightarrow> unsignalled s \<Longrightarrow> lf_task s = Serving \<Longrightarrow>
     lf_task t = Serving \<and> lf_completed t = lf_completed s \<and> lf_callers s \<le> lf_callers t \<and>
     lf_connections s \<le> lf_connections t"
  by (erule life_stepE) (auto simp: unsignalled_def clean_up_def shutdown_called_def)

lemma serving_reach:
  "life_reach s t \<Longrightarrow> unsignalled s \<Longrightarrow> lf_task s = Serving \<Longrightarrow>
     lf_task t = Serving \<and> lf_completed t = lf_completed s \<and> lf_callers s \<le> lf_callers t"
proof (induction rule: life_reach.induct)
  case (step s t u)
  then show ?case using serving_step[OF step.hyps(2)] unsignalled_reach[OF step.hyps(1)] by fastforce
qed simp

subsection \<open>Properties\<close>

text \<open>
  C30. The shutdown signal never reaches the socket task: the loop takes its copy of the sender before
  the socket task creates the channel, so in every interleaving a signal to the daemon stops the
  watcher and the event loop but is never sent to the socket task, which, once it serves, serves for
  ever and keeps the mutex; so every call of \<open>shutdown\<close> that comes after that waits for ever.
\<close>

theorem shutdown_never_reaches_the_socket:
  assumes "fresh_bound so" and "life_reach (lifecycle_bound so) s"
  shows "\<not> lf_signal s \<and> lf_task s \<noteq> Ended \<and>
    (lf_main s = Returned \<longrightarrow> lf_task s = Failed \<or> \<not> lf_running s \<and> \<not> lf_watching s) \<and>
    (lf_task s = Serving \<longrightarrow> (\<forall>t. life_reach s t \<longrightarrow>
       lf_task t = Serving \<and> lf_completed t = lf_completed s \<and> lf_callers s \<le> lf_callers t))"
proof -
  have "unsignalled (lifecycle_bound so)"
    using assms(1) by (simp add: unsignalled_def lifecycle_bound_def fresh_bound_def)
  with assms(2) have "unsignalled s" by (rule unsignalled_reach)
  then show ?thesis using serving_reach by (auto simp: unsignalled_def)
qed

theorem shutdown_never_reaches_the_socket_witness:
  "\<exists>so s. so_bind False None None (socket_server_new ''/s'') = Inr so \<and>
     life_reach (lifecycle_bound (so_set_state so)) s \<and> lf_main s = Returned \<and> lf_task s = Serving \<and> \<not> lf_signal s"
proof -
  let ?so = "so_set_state ((socket_server_new ''/s'')\<lparr>so_std_listener := True\<rparr>)"
  have b: "so_bind False None None (socket_server_new ''/s'') = Inr ((socket_server_new ''/s'')\<lparr>so_std_listener := True\<rparr>)"
    by (simp add: so_bind_def so_is_bound_def socket_server_new_def)
  have fresh: "fresh_bound ?so" by (simp add: fresh_bound_def so_set_state_def socket_server_new_def)
  let ?s1 = "(lifecycle_bound ?so)\<lparr>lf_sender := shutdown_sender ?so, lf_task := Queued, lf_main := Looping\<rparr>"
  let ?s2 = "?s1\<lparr>lf_socket := snd (so_enter None ?so), lf_task := Serving\<rparr>"
  have e: "so_enter None ?so = (Inr (), snd (so_enter None ?so))"
    by (simp add: so_enter_def so_set_state_def socket_server_new_def)
  have "life_reach (lifecycle_bound ?so) ?s1"
    using spawn[of "lifecycle_bound ?so"] by (intro life_reach.step[OF life_reach.refl]) (simp add: lifecycle_bound_def)
  moreover have "life_step ?s1 ?s2" using e by (intro enter) (simp_all add: lifecycle_bound_def)
  moreover have "life_step ?s2 (clean_up (?s2\<lparr>lf_signal := lf_signal ?s2 \<or> lf_sender ?s2\<rparr>))" by (rule terminate) simp
  ultimately have r: "life_reach (lifecycle_bound ?so) (clean_up (?s2\<lparr>lf_signal := lf_signal ?s2 \<or> lf_sender ?s2\<rparr>))"
    by (blast intro: life_reach.step)
  from b r shutdown_never_reaches_the_socket[OF fresh r] show ?thesis
    by (intro exI conjI) (assumption | simp add: clean_up_def)+
qed

end
