(* ===== verification/Llm_Client.thy ===== *)
theory Llm_Client
  imports Llm_Analyzer
begin

text \<open>
  The client of the language model, \<open>crates/ambient-fs-server/src/llm.rs\<close>: the choice of the provider
  from the environment, the URL, the request and the reading of the answer of an OpenAI-compatible
  endpoint.  The crate genai and the HTTP exchange are arguments.
\<close>

datatype llm_call_error = LcHttp string | LcApi nat string | LcJson string | LcProvider string

datatype provider = Genai | CustomEndpoint (endpoint_url: string) (endpoint_key: "string option")

record llm_client =
  lm_provider :: provider
  lm_model :: string

definition llm_from_env :: "(string \<Rightarrow> string option) \<Rightarrow> llm_client option" where
  "llm_from_env var =
     map_option (\<lambda>model.
       \<lparr>lm_provider = (case var ''AMBIENT_FS_LLM_BASE_URL'' of
            Some url \<Rightarrow> CustomEndpoint url
              (case var ''OPENAI_API_KEY'' of Some k \<Rightarrow> Some k | None \<Rightarrow> var ''ANTHROPIC_API_KEY'')
          | None \<Rightarrow> Genai),
        lm_model = model\<rparr>) (var ''AMBIENT_FS_LLM_MODEL'')"

definition is_custom_endpoint :: "llm_client \<Rightarrow> bool" where
  "is_custom_endpoint c = (lm_provider c \<noteq> Genai)"

definition chat_path :: string where
  "chat_path = ''/chat/completions''"

definition chat_url :: "string \<Rightarrow> string" where
  "chat_url base = (if ends_with base chat_path then base else trim_end_char slash base @ chat_path)"

definition chat_body :: "string \<Rightarrow> string \<Rightarrow> string \<Rightarrow> json" where
  "chat_body model system user = JObj
     [(''model'', JStr model), (''max_tokens'', JInt 16096),
      (''messages'', JArr
        [JObj [(''role'', JStr ''system''), (''content'', JStr system)],
         JObj [(''role'', JStr ''user''), (''content'', JStr user)]])]"

text \<open>Indexing a value with a key or a position; what is not there is null.\<close>

definition index_key :: "string \<Rightarrow> json \<Rightarrow> json" where
  "index_key k j = (case j of JObj fs \<Rightarrow> (case obj_get k fs of Some v \<Rightarrow> v | None \<Rightarrow> JNull) | _ \<Rightarrow> JNull)"

definition index_pos :: "nat \<Rightarrow> json \<Rightarrow> json" where
  "index_pos n j = (case j of JArr vs \<Rightarrow> if n < length vs then vs ! n else JNull | _ \<Rightarrow> JNull)"

definition answer_text :: "json \<Rightarrow> string" where
  "answer_text j =
     (case as_string (index_key ''content'' (index_key ''message'' (index_pos 0 (index_key ''choices'' j)))) of
        Some s \<Rightarrow> s | None \<Rightarrow> [])"

text \<open>\<open>chat\<close> is genai: the first text of its answer, if there is one; \<open>post\<close> sends a body to a URL with an
  optional Authorization header and gives the status and the text, or an error of receiving it.\<close>

definition llm_call ::
  "(string \<Rightarrow> string \<Rightarrow> string \<Rightarrow> string + string option)
    \<Rightarrow> (string \<Rightarrow> json \<Rightarrow> string option \<Rightarrow> string + nat \<times> (string + string))
    \<Rightarrow> (string \<Rightarrow> string + json) \<Rightarrow> llm_client \<Rightarrow> string \<Rightarrow> string \<Rightarrow> llm_call_error + string" where
  "llm_call chat post pj c system user =
     (case lm_provider c of
        Genai \<Rightarrow>
          (case chat (lm_model c) system user of
             Inl e \<Rightarrow> Inl (LcProvider e)
           | Inr t \<Rightarrow> Inr (case t of None \<Rightarrow> [] | Some s \<Rightarrow> s))
      | CustomEndpoint base key \<Rightarrow>
          (case post (chat_url base) (chat_body (lm_model c) system user) (map_option (\<lambda>k. ''Bearer '' @ k) key) of
             Inl e \<Rightarrow> Inl (LcHttp e)
           | Inr (status, body) \<Rightarrow>
               (case body of
                  Inl e \<Rightarrow> Inl (LcHttp e)
                | Inr t \<Rightarrow>
                    if \<not> (200 \<le> status \<and> status \<le> 299) then Inl (LcApi status t)
                    else (case pj t of Inl e \<Rightarrow> Inl (LcJson e) | Inr j \<Rightarrow> Inr (answer_text j)))))"

text \<open>The URL does not depend on slashes at the end of the base, and giving the full URL is the same as
  giving its base.\<close>

lemma chat_url_idem: "chat_url (chat_url base) = chat_url base"
  by (auto simp: chat_url_def ends_with_def suffix_def)

lemma chat_url_slash:
  assumes "\<not> ends_with base chat_path"
  shows "chat_url (base @ [slash]) = chat_url base"
proof -
  have "\<not> ends_with (base @ [slash]) chat_path"
    by (auto simp: ends_with_def chat_path_def slash_def suffix_def)
  with assms show ?thesis by (simp add: chat_url_def trim_end_char_append)
qed

text \<open>A successful answer whose shape is not the expected one gives the empty text, which the analyzer
  refuses, so the analysis of the first tier stays.\<close>

lemma other_shape_is_refused:
  "answer_text j = [] \<Longrightarrow> enhance_with_llm_response pj a (answer_text j) = Inl EmptyResponse"
  by (simp add: enhance_with_llm_response_def parse_response_def str_trim_def chars_def)

end
