(* ===== verification/Plugin_State.thy ===== *)
theory Plugin_State
  imports Client
begin

text \<open>
  The Tauri plugin, \<open>integrations/tauri-plugin-ambient-fs/src\<close>: the connection loop and the notification
  loop of \<open>state.rs\<close>, interleaved with the commands of \<open>commands.rs\<close>, and the events of \<open>events.rs\<close>.  The
  loop and the commands share the mutex around the client.  Tauri itself is not modelled: a command is
  called at any time, and an emitted event is an entry of a list.  With the feature \<open>auto-launch\<close> the loop also
  spawns a process after a failed attempt, \<open>try_launch_daemon\<close>, which changes nothing of this state.
\<close>

subsection \<open>Configuration, commands and events\<close>

record plugin_config =
  pc_socket_path :: "string option"
  pc_auto_launch :: bool
  pc_connect_timeout_secs :: nat

definition plugin_config_default :: plugin_config where
  "plugin_config_default = \<lparr>pc_socket_path = None, pc_auto_launch = True, pc_connect_timeout_secs = 5\<rparr>"

definition plugin_socket_path :: "(string \<Rightarrow> string option) \<Rightarrow> string" where
  "plugin_socket_path var = (case var ''AMBIENT_FS_SOCKET'' of Some p \<Rightarrow> p | None \<Rightarrow> ''/tmp/ambient-fs.sock'')"

text \<open>
  The program and the arguments that are spawned after a failed attempt to connect, on Linux.  \<open>resource_dir\<close>
  is Tauri's answer, \<open>ex\<close> says which paths exist.
\<close>

definition try_launch_daemon :: "bool \<Rightarrow> string option \<Rightarrow> (string \<Rightarrow> bool) \<Rightarrow> (string \<times> string list) option" where
  "try_launch_daemon auto_launch resource_dir ex =
     (if \<not> auto_launch then None
      else (case resource_dir of
        None \<Rightarrow> None
      | Some dir \<Rightarrow>
          (let binary_path = join_path (join_path dir ''binaries'') ''ambient-fsd-x86_64-unknown-linux-gnu'' in
           if \<not> ex binary_path then None else Some (binary_path, [''daemon'']))))"

datatype plugin_command =
  PcWatch string | PcUnwatch string
| PcQueryEvents "string option" "int option" "string option" "nat option"
| PcQueryAwareness string string | PcAttribute string string string "string option" | PcQueryAgents
| PcSubscribe string | PcUnsubscribe string

text \<open>The client's call behind a command that needs the client.\<close>

fun command_call :: "plugin_command \<Rightarrow> client_call" where
  "command_call (PcWatch path) = CallWatchProject path"
| "command_call (PcUnwatch pid) = CallUnwatchProject pid"
| "command_call (PcQueryEvents pid since src lim) =
     CallQueryEvents \<lparr>cf_project_id = pid, cf_since = since, cf_source = src, cf_limit = lim\<rparr>"
| "command_call (PcQueryAwareness pid path) = CallQueryAwareness pid path"
| "command_call (PcAttribute pid path src sid) = CallAttribute pid path src sid"
| "command_call PcQueryAgents = CallQueryAgents"
| "command_call (PcSubscribe pid) = CallSubscribe pid"
| "command_call (PcUnsubscribe pid) = CallUnsubscribe pid"

text \<open>\<open>query_tree\<close> is a placeholder.\<close>

definition plugin_query_tree :: "string \<Rightarrow> string + tree_node" where
  "plugin_query_tree pid = Inl ''query_tree not yet implemented in daemon''"

type_synonym emitted = "string \<times> json"

definition emit_connected :: "bool \<Rightarrow> emitted" where
  "emit_connected b = (''ambient-fs://connected'', JObj [(''connected'', JBool b)])"

definition handle_notification :: "(timestamp \<Rightarrow> string) \<Rightarrow> typed_notification \<Rightarrow> emitted" where
  "handle_notification tfmt n =
     (case n of
        TEvent e \<Rightarrow> (''ambient-fs://event'', json_event tfmt e)
      | TAwarenessChanged pid path a \<Rightarrow>
          (''ambient-fs://awareness-changed'',
           JObj [(''project_id'', JStr pid), (''file_path'', JStr path), (''awareness'', json_awareness tfmt a)])
      | TAnalysisComplete pid path lines todos \<Rightarrow>
          (''ambient-fs://analysis-complete'',
           JObj [(''project_id'', JStr pid), (''file_path'', JStr path), (''line_count'', json_u32 lines),
             (''todo_count'', json_u32 todos)])
      | TTreePatch pid patch \<Rightarrow>
          (''ambient-fs://tree-patch'', JObj ((''project_id'', JStr pid) # (case patch of JObj fs \<Rightarrow> fs | _ \<Rightarrow> []))))"

subsection \<open>The state\<close>

text \<open>Where the connection loop is.  \<open>LpReceiving\<close> waits for a notification and holds the mutex;
  \<open>LpOwnLock\<close> has learned there that the connection is gone and waits for the mutex.\<close>

datatype loop_phase =
  LpConnect | LpConnected | LpResubscribe | LpNotify | LpReceiving | LpOwnLock | LpHandle typed_notification
| LpLost | LpSleep

datatype holder = Free | ByLoop | ByCommand nat

datatype command_state = Idle | Waiting plugin_command | Holding plugin_command | Completed

text \<open>\<open>pg_alive\<close>: the reader of the current client runs; \<open>pg_subs\<close>: the server has a subscription of this
  connection; \<open>pg_queue\<close>: the notifications in the client's channel, \<open>Inl\<close> one that cannot be read.\<close>

record plugin =
  pg_client :: bool
  pg_connected :: bool
  pg_projects :: "string list"
  pg_loop :: loop_phase
  pg_lock :: holder
  pg_commands :: "nat \<Rightarrow> command_state"
  pg_alive :: bool
  pg_subs :: bool
  pg_queue :: "(string + typed_notification) list"
  pg_emitted :: "emitted list"

definition plugin_new :: plugin where
  "plugin_new = \<lparr>pg_client = False, pg_connected = False, pg_projects = [], pg_loop = LpConnect, pg_lock = Free,
     pg_commands = (\<lambda>_. Idle), pg_alive = False, pg_subs = False, pg_queue = [], pg_emitted = []\<rparr>"

definition track :: "plugin_command \<Rightarrow> string list \<Rightarrow> string list" where
  "track c ps =
     (case c of PcSubscribe pid \<Rightarrow> ps @ [pid] | PcUnsubscribe pid \<Rightarrow> filter (\<lambda>p. p \<noteq> pid) ps | _ \<Rightarrow> ps)"

definition set_connected :: "bool \<Rightarrow> plugin \<Rightarrow> plugin" where
  "set_connected b s = s\<lparr>pg_connected := b, pg_emitted := pg_emitted s @ [emit_connected b]\<rparr>"

definition plugin_is_connected :: "plugin \<Rightarrow> bool" where
  "plugin_is_connected s = pg_connected s"

definition plugin_get_status :: "plugin \<Rightarrow> string + bool" where
  "plugin_get_status s = Inr (plugin_is_connected s)"

subsection \<open>Steps\<close>

text \<open>\<open>connection_loop\<close> with \<open>try_connect\<close> and \<open>resubscribe_all\<close>.\<close>

inductive connection_step :: "(timestamp \<Rightarrow> string) \<Rightarrow> plugin \<Rightarrow> plugin \<Rightarrow> bool" for tfmt where
  connect: "pg_loop s = LpConnect \<Longrightarrow> pg_lock s = Free \<Longrightarrow> connection_step tfmt s
    (s\<lparr>pg_client := True, pg_alive := True, pg_subs := False, pg_queue := [], pg_loop := LpConnected\<rparr>)"
| refused: "pg_loop s = LpConnect \<Longrightarrow> connection_step tfmt s (s\<lparr>pg_connected := False, pg_loop := LpSleep\<rparr>)"
| connected: "pg_loop s = LpConnected \<Longrightarrow>
    connection_step tfmt s ((set_connected True s)\<lparr>pg_loop := (if pg_projects s = [] then LpNotify else LpResubscribe)\<rparr>)"
| resubscribe: "pg_loop s = LpResubscribe \<Longrightarrow> pg_lock s = Free \<Longrightarrow>
    connection_step tfmt s (s\<lparr>pg_subs := pg_subs s \<or> pg_alive s, pg_loop := LpNotify\<rparr>)"
| lost: "pg_loop s = LpLost \<Longrightarrow> connection_step tfmt s ((set_connected False s)\<lparr>pg_loop := LpSleep\<rparr>)"
| wake: "pg_loop s = LpSleep \<Longrightarrow> connection_step tfmt s (s\<lparr>pg_loop := LpConnect\<rparr>)"

text \<open>\<open>run_notification_loop\<close>; the guard of the mutex lives until the end of the round.\<close>

inductive notification_step :: "(timestamp \<Rightarrow> string) \<Rightarrow> plugin \<Rightarrow> plugin \<Rightarrow> bool" for tfmt where
  enter: "pg_loop s = LpNotify \<Longrightarrow> pg_lock s = Free \<Longrightarrow> pg_client s \<Longrightarrow>
    notification_step tfmt s (s\<lparr>pg_lock := ByLoop, pg_loop := LpReceiving\<rparr>)"
| no_client: "pg_loop s = LpNotify \<Longrightarrow> pg_lock s = Free \<Longrightarrow> \<not> pg_client s \<Longrightarrow>
    notification_step tfmt s (s\<lparr>pg_loop := LpLost\<rparr>)"
| received: "pg_loop s = LpReceiving \<Longrightarrow> pg_queue s = Inr n # q \<Longrightarrow>
    notification_step tfmt s (s\<lparr>pg_queue := q, pg_lock := Free, pg_loop := LpHandle n\<rparr>)"
| unreadable: "pg_loop s = LpReceiving \<Longrightarrow> pg_queue s = Inl e # q \<Longrightarrow>
    notification_step tfmt s (if pg_alive s then s\<lparr>pg_queue := q, pg_lock := Free, pg_loop := LpNotify\<rparr>
      else s\<lparr>pg_queue := q, pg_loop := LpOwnLock\<rparr>)"
| closed: "pg_loop s = LpReceiving \<Longrightarrow> pg_queue s = [] \<Longrightarrow> \<not> pg_alive s \<Longrightarrow>
    notification_step tfmt s (s\<lparr>pg_loop := LpOwnLock\<rparr>)"
| own_lock: "pg_loop s = LpOwnLock \<Longrightarrow> pg_lock s = Free \<Longrightarrow>
    notification_step tfmt s (s\<lparr>pg_client := False, pg_loop := LpLost\<rparr>)"
| handle: "pg_loop s = LpHandle n \<Longrightarrow>
    notification_step tfmt s (s\<lparr>pg_emitted := pg_emitted s @ [handle_notification tfmt n], pg_loop := LpNotify\<rparr>)"

text \<open>All tasks: a command is called, takes the mutex, and finishes with what the server did; the server notifies a
  subscribed connection, and may close it.  The list of projects changes at the call, also while another
  \<open>unsubscribe\<close> still holds that list's own mutex, for which the code would wait first.\<close>

inductive plugin_step :: "(timestamp \<Rightarrow> string) \<Rightarrow> plugin \<Rightarrow> plugin \<Rightarrow> bool" for tfmt where
  connecting: "connection_step tfmt s t \<Longrightarrow> plugin_step tfmt s t"
| notifying: "notification_step tfmt s t \<Longrightarrow> plugin_step tfmt s t"
| call: "pg_commands s k = Idle \<Longrightarrow> plugin_step tfmt s
    (s\<lparr>pg_projects := track c (pg_projects s), pg_commands := (pg_commands s)(k := Waiting c)\<rparr>)"
| take: "pg_commands s k = Waiting c \<Longrightarrow> pg_lock s = Free \<Longrightarrow>
    plugin_step tfmt s (s\<lparr>pg_lock := ByCommand k, pg_commands := (pg_commands s)(k := Holding c)\<rparr>)"
| finish: "pg_commands s k = Holding c \<Longrightarrow> (case c of PcSubscribe _ \<Rightarrow> b = (pg_subs s \<or> pg_client s \<and> pg_alive s)
      | PcUnsubscribe _ \<Rightarrow> b \<longrightarrow> pg_subs s | _ \<Rightarrow> b = pg_subs s) \<Longrightarrow>
    plugin_step tfmt s (s\<lparr>pg_subs := b, pg_lock := Free, pg_commands := (pg_commands s)(k := Completed)\<rparr>)"
| notify: "pg_alive s \<Longrightarrow> pg_subs s \<Longrightarrow> plugin_step tfmt s (s\<lparr>pg_queue := pg_queue s @ [r]\<rparr>)"
| server_closes: "plugin_step tfmt s (s\<lparr>pg_alive := False\<rparr>)"

inductive plugin_reach :: "(timestamp \<Rightarrow> string) \<Rightarrow> plugin \<Rightarrow> plugin \<Rightarrow> bool" for tfmt where
  plugin_refl: "plugin_reach tfmt s s"
| plugin_trans: "plugin_reach tfmt s t \<Longrightarrow> plugin_step tfmt t u \<Longrightarrow> plugin_reach tfmt s u"

inductive_cases plugin_stepE: "plugin_step tfmt s t"
inductive_cases connection_stepE: "connection_step tfmt s t"
inductive_cases notification_stepE: "notification_step tfmt s t"

text \<open>The mutex is held by at most one task, and that task knows it.\<close>

definition lock_ok :: "plugin \<Rightarrow> bool" where
  "lock_ok s \<longleftrightarrow>
     (pg_loop s \<in> {LpReceiving, LpOwnLock} \<longleftrightarrow> pg_lock s = ByLoop) \<and>
     (\<forall>k c. pg_commands s k = Holding c \<longrightarrow> pg_lock s = ByCommand k)"

lemma loops_lock_ok:
  "connection_step tfmt s t \<Longrightarrow> lock_ok s \<Longrightarrow> lock_ok t"
  "notification_step tfmt s t \<Longrightarrow> lock_ok s \<Longrightarrow> lock_ok t"
  by (erule connection_stepE; auto simp: lock_ok_def set_connected_def)
    (erule notification_stepE; auto simp: lock_ok_def split: if_splits)

lemma lock_ok_step: "plugin_step tfmt s t \<Longrightarrow> lock_ok s \<Longrightarrow> lock_ok t"
proof (induction rule: plugin_step.induct)
  case (finish s k c b)
  note ok = finish.prems[unfolded lock_ok_def]
  have lock: "pg_lock s = ByCommand k" using ok finish.hyps(1) by blast
  have "j = k" if "pg_commands s j = Holding d" for j d
    using that ok lock by (metis holder.inject)
  with ok lock show ?case unfolding lock_ok_def by auto
next
  case (connecting s t)
  then show ?case by (rule loops_lock_ok(1))
next
  case (notifying s t)
  then show ?case by (rule loops_lock_ok(2))
qed (auto simp: lock_ok_def)

lemma lock_ok_reach: "plugin_reach tfmt s t \<Longrightarrow> lock_ok s \<Longrightarrow> lock_ok t"
  by (induction rule: plugin_reach.induct) (auto intro: lock_ok_step)

text \<open>The loop holds the mutex for good: it waits for the mutex itself, or for a notification that no
  subscription can produce.\<close>

definition starved :: "plugin \<Rightarrow> bool" where
  "starved s \<longleftrightarrow> pg_loop s = LpOwnLock \<or> pg_loop s = LpReceiving \<and> pg_queue s = [] \<and> \<not> pg_subs s"

lemma starved_step:
  "plugin_step tfmt s t \<Longrightarrow> lock_ok s \<Longrightarrow> starved s \<Longrightarrow>
     starved t \<and> pg_connected t = pg_connected s \<and> (\<forall>k. pg_commands t k = Completed \<longleftrightarrow> pg_commands s k = Completed)"
  by (erule plugin_stepE) (auto simp: lock_ok_def starved_def elim!: connection_stepE notification_stepE)

lemma starved_reach:
  "plugin_reach tfmt s t \<Longrightarrow> lock_ok s \<Longrightarrow> starved s \<Longrightarrow>
     starved t \<and> pg_connected t = pg_connected s \<and> (\<forall>k. pg_commands t k = Completed \<longleftrightarrow> pg_commands s k = Completed)"
proof (induction rule: plugin_reach.induct)
  case (plugin_trans s t u)
  then show ?case
    using starved_step[OF plugin_trans.hyps(2) lock_ok_reach[OF plugin_trans.hyps(1)]] by auto
qed simp

subsection \<open>Properties\<close>

text \<open>
  C36. The plugin's loop can hold the client for ever: when it waits for a notification on a connection
  for which the server has no subscription, or has learned that the connection is closed and waits for the mutex
  that it holds itself, then in every continuation no command that needs the client completes, and
  the plugin goes on to report the connection state it reported, whatever the server does.
\<close>

theorem plugin_loop_starves_commands:
  assumes "plugin_reach tfmt plugin_new s"
    and "pg_loop s = LpOwnLock \<or> pg_loop s = LpReceiving \<and> pg_queue s = [] \<and> \<not> pg_subs s"
    and "plugin_reach tfmt s t"
  shows "pg_lock t = ByLoop \<and> pg_connected t = pg_connected s \<and>
    (\<forall>k. pg_commands t k = Completed \<longleftrightarrow> pg_commands s k = Completed)"
proof -
  have "lock_ok plugin_new" by (simp add: lock_ok_def plugin_new_def)
  then have "lock_ok s" by (rule lock_ok_reach[OF assms(1)])
  then have "lock_ok t" "starved t \<and> pg_connected t = pg_connected s \<and> (\<forall>k. pg_commands t k = Completed \<longleftrightarrow> pg_commands s k = Completed)"
    using lock_ok_reach[OF assms(3)] starved_reach[OF assms(3)] assms(2) by (auto simp: starved_def)
  then show ?thesis by (auto simp: lock_ok_def starved_def)
qed

theorem plugin_loop_starves_commands_witness:
  "\<exists>s t. plugin_reach byte_fmt plugin_new s \<and> plugin_reach byte_fmt s t \<and> pg_commands t 0 = Waiting (PcSubscribe ''p'') \<and>
     pg_connected t \<and> pg_lock t = ByLoop"
proof -
  let ?s1 = "plugin_new\<lparr>pg_client := True, pg_alive := True, pg_subs := False, pg_queue := [], pg_loop := LpConnected\<rparr>"
  let ?s2 = "(set_connected True ?s1)\<lparr>pg_loop := LpNotify\<rparr>"
  let ?s = "?s2\<lparr>pg_lock := ByLoop, pg_loop := LpReceiving\<rparr>"
  let ?t = "?s\<lparr>pg_projects := track (PcSubscribe ''p'') (pg_projects ?s), pg_commands := (pg_commands ?s)(0 := Waiting (PcSubscribe ''p''))\<rparr>"
  have 1: "plugin_step byte_fmt plugin_new ?s1" by (rule connecting, rule connect) (simp_all add: plugin_new_def)
  have 2: "plugin_step byte_fmt ?s1 ?s2" using connecting[OF connected[of ?s1 byte_fmt]] by (simp add: plugin_new_def)
  have 3: "plugin_step byte_fmt ?s2 ?s" by (rule notifying, rule enter) (simp_all add: plugin_new_def set_connected_def)
  have 4: "plugin_step byte_fmt ?s ?t" by (rule call) (simp add: plugin_new_def set_connected_def)
  note reach = plugin_trans[OF plugin_trans[OF plugin_trans[OF plugin_refl 1] 2] 3] plugin_trans[OF plugin_refl 4]
  have "pg_loop ?s = LpReceiving \<and> pg_queue ?s = [] \<and> \<not> pg_subs ?s" by (simp add: set_connected_def)
  from plugin_loop_starves_commands[OF reach(1) disjI2[OF this] reach(2)] reach show ?thesis
    by (intro exI conjI) (assumption | simp add: set_connected_def)+
qed

end
