(* ===== verification/System.thy ===== *)
theory System
  imports Daemon
begin

text \<open>
  The daemon with its clients: the steps of the daemon (\<open>crates/ambient-fsd/src/server.rs\<close>) interleaved with
  those of any number of connections to its socket (\<open>handle_connection\<close> of
  \<open>crates/ambient-fs-server/src/socket.rs\<close>) and the turns of its pruning task, which share one state.  A connection ends when its client hangs up or
  when chrono panics in its task; its receivers are dropped with it.
\<close>

record system =
  sy_daemon :: daemon
  sy_conns :: "nat \<Rightarrow> conn_state option"

datatype system_op = SysDaemon daemon_op | SysAccept nat | SysLine nat string | SysTick nat | SysHangUp nat
  | SysPrune

definition set_state :: "server_state \<Rightarrow> conn_state option \<Rightarrow> nat \<Rightarrow> system \<Rightarrow> system" where
  "set_state st c i s = s\<lparr>sy_daemon := (sy_daemon s)\<lparr>dm_state := st\<rparr>, sy_conns := (sy_conns s)(i := c)\<rparr>"

definition drop_connection :: "conn_state \<Rightarrow> server_state \<Rightarrow> server_state" where
  "drop_connection c st = st\<lparr>ss_subscriptions := fold (\<lambda>(_, r). drop_receiver r) c (ss_subscriptions st)\<rparr>"

text \<open>A line, after a round over the subscriptions; what is written, and the connection if it goes on.\<close>

definition connection_line ::
  "(string \<Rightarrow> string + json) \<Rightarrow> env \<Rightarrow> string \<Rightarrow> server_state \<times> conn_state \<Rightarrow> wire list \<times> server_state \<times> conn_state option" where
  "connection_line pj en l s =
     (let (ns, s1) = poll_round s; (a, st2, c2) = handle_line pj en l s1; ws = map WNotification ns in
      case a of
        None \<Rightarrow> (ws, st2, Some c2)
      | Some (Some r) \<Rightarrow> (ws @ [WResponse r], st2, Some c2)
      | Some None \<Rightarrow> (ws, drop_connection c2 st2, None))"

text \<open>The event that a request asks to attribute, and a line.\<close>

definition attributed_in :: "env \<Rightarrow> string \<Rightarrow> request \<Rightarrow> file_event list" where
  "attributed_in en mid rq =
     (case object_params rq of
        None \<Rightarrow> []
      | Some fs \<Rightarrow>
          (case (get_str ''file_path'' fs, get_str ''project_id'' fs,
              Option.bind (get_str ''source'' fs) (\<lambda>src. ok_of (source_from_str src))) of
             (Some path, Some pid, Some src) \<Rightarrow> [attribution_event en mid path pid src (get_str ''source_id'' fs)]
           | _ \<Rightarrow> []))"

definition attributed_by :: "(string \<Rightarrow> string + json) \<Rightarrow> env \<Rightarrow> string \<Rightarrow> string \<Rightarrow> file_event list" where
  "attributed_by pj en mid l =
     (case (if str_trim l = [] then None else line_request pj l) of
        None \<Rightarrow> []
      | Some rq \<Rightarrow> if rq_method rq = ''attribute'' then attributed_in en mid rq else [])"

text \<open>A step: the events that the watcher sent, those that the loop recorded, those that clients
  attributed, the cutoff of a prune, what is written to a connection, and the system.\<close>

record step_out =
  sp_sent :: "file_event list"
  sp_recorded :: "file_event list"
  sp_attributed :: "file_event list"
  sp_pruned :: "timestamp option"
  sp_wire :: "wire list"

definition quiet :: step_out where
  "quiet = \<lparr>sp_sent = [], sp_recorded = [], sp_attributed = [], sp_pruned = None, sp_wire = []\<rparr>"

fun system_step ::
  "(string \<Rightarrow> string + json) \<Rightarrow> daemon_env \<Rightarrow> env \<times> system_op \<Rightarrow> system \<Rightarrow> step_out \<times> system" where
  "system_step pj de (en, SysDaemon op) s =
     (let (sent, rec, d) = daemon_step de (en, op) (sy_daemon s) in
      (quiet\<lparr>sp_sent := sent, sp_recorded := rec\<rparr>, s\<lparr>sy_daemon := d\<rparr>))"
| "system_step pj de (en, SysAccept i) s =
     (case sy_conns s i of
        Some _ \<Rightarrow> (quiet, s)
      | None \<Rightarrow> (quiet, s\<lparr>sy_conns := (sy_conns s)(i := Some [])\<rparr>))"
| "system_step pj de (en, SysLine i l) s =
     (case sy_conns s i of
        None \<Rightarrow> (quiet, s)
      | Some c \<Rightarrow>
          (let st = dm_state (sy_daemon s); (ws, st', c') = connection_line pj en l (st, c) in
           (quiet\<lparr>sp_attributed := attributed_by pj en (ss_machine_id st) l, sp_wire := ws\<rparr>, set_state st' c' i s)))"
| "system_step pj de (en, SysTick i) s =
     (case sy_conns s i of
        None \<Rightarrow> (quiet, s)
      | Some c \<Rightarrow>
          (let (ns, st', c') = poll_round (dm_state (sy_daemon s), c) in
           (quiet\<lparr>sp_wire := map WNotification ns\<rparr>, set_state st' (Some c') i s)))"
| "system_step pj de (en, SysHangUp i) s =
     (case sy_conns s i of
        None \<Rightarrow> (quiet, s)
      | Some c \<Rightarrow> (quiet, set_state (drop_connection c (dm_state (sy_daemon s))) None i s))"
| "system_step pj de (en, SysPrune) s =
     (let (c, d) = scheduler_tick en (sy_daemon s) in (quiet\<lparr>sp_pruned := c\<rparr>, s\<lparr>sy_daemon := d\<rparr>))"

fun system_run ::
  "(string \<Rightarrow> string + json) \<Rightarrow> daemon_env \<Rightarrow> (env \<times> system_op) list \<Rightarrow> system \<Rightarrow> step_out list \<times> system" where
  "system_run pj de [] s = ([], s)"
| "system_run pj de (op # ops) s =
     (let (r, s1) = system_step pj de op s; (rs, s2) = system_run pj de ops s1 in (r # rs, s2))"

text \<open>What the steps do to the log, in their order, with the number of the last event.\<close>

definition written :: "step_out list \<Rightarrow> file_event list" where
  "written rs = concat (map (\<lambda>r. sp_recorded r @ sp_attributed r) rs)"

definition kept_by :: "timestamp option \<Rightarrow> file_event \<Rightarrow> bool" where
  "kept_by c e \<longleftrightarrow> (case c of None \<Rightarrow> True | Some t \<Rightarrow> t \<le> ev_timestamp e)"

fun log_after :: "step_out list \<Rightarrow> int \<Rightarrow> (int \<times> file_event) list \<Rightarrow> (int \<times> file_event) list" where
  "log_after [] n L = L"
| "log_after (r # rs) n L =
     log_after rs (n + int (length (written [r])))
       (filter (\<lambda>(_, e). kept_by (sp_pruned r) e) L @ keyed_from n (written [r]))"

lemma ok_of_iff: "ok_of r = None \<longleftrightarrow> (\<forall>a. r \<noteq> Inr a)" "ok_of r = Some a \<longleftrightarrow> r = Inr a"
  by (cases r; simp)+

subsection \<open>Requests and the log\<close>

text \<open>Only the subscriptions change in a round, and no handler but the one of \<open>attribute\<close> touches the log.\<close>

definition same_log :: "server_state \<Rightarrow> server_state \<Rightarrow> bool" where
  "same_log st st' \<longleftrightarrow> db_events (ss_db st') = db_events (ss_db st) \<and> migrations_of st' = migrations_of st \<and>
     ss_machine_id st' = ss_machine_id st"

lemma same_log_refl [simp]: "same_log st st" by (simp add: same_log_def)

lemma same_log_trans: "same_log a b \<Longrightarrow> same_log b c \<Longrightarrow> same_log a c" by (simp add: same_log_def)

lemma poll_round_log: "poll_round (st, c) = (ns, st', c') \<Longrightarrow> same_log st st'"
  by (auto simp: poll_round_def same_log_def split: prod.splits option.splits)

lemma on_store_same:
  assumes "holds_log fmt T (ss_db st) L" and "\<And>db a db'. f db = Inr (a, db') \<Longrightarrow> db_events db' = db_events db \<and> db_migrations db' = db_migrations db"
  shows "same_log st (snd (on_store en f st))"
  using event_store_new_holds[OF assms(1)] assms(2)
  by (auto simp: same_log_def on_store_def Let_def split: sum.split prod.split)

lemma read_store_same: "holds_log fmt T (ss_db st) L \<Longrightarrow> same_log st (snd (read_store en f st))"
  unfolding read_store_def by (erule on_store_same) (auto simp: bind_res_Inr)

lemma build_awareness_same:
  assumes "holds_log fmt T (ss_db st) L"
  shows "same_log st (snd (build_awareness en pid path st))"
proof -
  obtain r st1 where 1: "read_store en (store_get_latest (en_order en) (en_parse en) pid path) st = (r, st1)" by force
  have "same_log st st1" using read_store_same[OF assms, of en "store_get_latest (en_order en) (en_parse en) pid path"] by (simp add: 1)
  moreover have "same_log st1 (snd (read_cache en f st1))" for f :: "database \<Rightarrow> sqlite_error + file_analysis option"
    by (simp add: read_cache_def same_log_def Let_def)
  ultimately show ?thesis
    by (auto simp: build_awareness_def 1 split: sum.split option.split prod.split) (metis same_log_trans snd_conv)+
qed

lemma handlers_same:
  assumes "holds_log fmt T (ss_db st) L"
  shows "same_log st (snd (handle_query_events en rq st))" and "same_log st (snd (handle_query_awareness en rq st))"
    and "same_log st (snd (handle_watch_project en rq st))" and "same_log st (snd (handle_unwatch_project en rq st))"
    and "same_log st (snd (handle_watch_agents en rq st))" and "same_log st (snd (handle_unwatch_agents rq st))"
    and "same_log st (snd (handle_query_agents en rq st))" and "same_log st (snd (handle_query_tree rq st))"
    and "same_log st (snd (handle_report_agent_activity en rq st))"
    and "same_log st (fst (snd (handle_subscribe rq (st, c))))" and "same_log st (fst (snd (handle_unsubscribe rq (st, c))))"
proof -
  note defs = reply_def refuse_def with_str_def with_project_id_def Let_def
  have query: "same_log st st'" if "read_store en (store_query od f p flt) st = (r, st')" for od f p flt r st'
    using read_store_same[OF assms, of en "store_query od f p flt"] that by simp
  show "same_log st (snd (handle_query_events en rq st))"
    by (auto simp: handle_query_events_def defs dest: query split: option.split params.split sum.split prod.split)
  have awareness: "same_log st st'" if "build_awareness en pid path st = (r, st')" for pid path r st'
    using build_awareness_same[OF assms, of en pid path] that by simp
  show "same_log st (snd (handle_query_awareness en rq st))"
    by (auto simp: handle_query_awareness_def defs dest: awareness split: option.split prod.split)
  have store: "same_log st (snd (on_store en (\<lambda>db. bind_res (f db) (\<lambda>db'. Inr ((), db'))) st'))"
    if "\<And>db db'. f db = Inr db' \<Longrightarrow> db_events db' = db_events db \<and> db_migrations db' = db_migrations db" "ss_db st' = ss_db st" "ss_machine_id st' = ss_machine_id st" for f st'
    using on_store_same[of fmt T st' L "\<lambda>db. bind_res (f db) (\<lambda>db'. Inr ((), db'))" en] assms that
    by (auto simp: bind_res_Inr same_log_def)
  show "same_log st (snd (handle_watch_project en rq st))"
    by (auto simp: handle_watch_project_def defs add_watcher_def add_project_def project_ops_events
        split: option.split sum.split prod.split intro!: store)
  show "same_log st (snd (handle_unwatch_project en rq st))"
    by (auto simp: handle_unwatch_project_def defs remove_watcher_def remove_project_def project_ops_events
        split: option.split intro!: store)
  show "same_log st (snd (handle_watch_agents en rq st))"
    by (auto simp: handle_watch_agents_def defs add_project_def same_log_def split: option.split)
  show "same_log st (snd (handle_unwatch_agents rq st))"
    by (auto simp: handle_unwatch_agents_def defs remove_project_def same_log_def split: option.split)
  show "same_log st (snd (handle_query_agents en rq st))" by (simp add: handle_query_agents_def defs)
  show "same_log st (snd (handle_query_tree rq st))" by (auto simp: handle_query_tree_def defs split: option.split)
  show "same_log st (snd (handle_report_agent_activity en rq st))"
    by (auto simp: handle_report_agent_activity_def defs same_log_def split: option.split sum.split)
  show "same_log st (fst (snd (handle_subscribe rq (st, c))))"
    by (auto simp: handle_subscribe_def defs same_log_def split: option.split prod.split)
  show "same_log st (fst (snd (handle_unsubscribe rq (st, c))))"
    by (auto simp: handle_unsubscribe_def defs same_log_def split: option.split prod.split)
qed

text \<open>The log after some events were appended.\<close>

definition appended ::
  "(timestamp \<Rightarrow> string) \<Rightarrow> timestamp set \<Rightarrow> (int \<times> file_event) list \<Rightarrow> server_state \<Rightarrow> file_event list \<Rightarrow> server_state \<Rightarrow> bool" where
  "appended fmt T L st es st' \<longleftrightarrow>
     holds_log fmt T (ss_db st') (L @ keyed_from (key_seq (ss_db st)) es) \<and>
     key_seq (ss_db st') = key_seq (ss_db st) + int (length es) \<and> migrations_of st' = migrations_of st"

lemma appended_same: "holds_log fmt T (ss_db st) L \<Longrightarrow> same_log st st' \<Longrightarrow> appended fmt T L st [] st'"
  using holds_log_events(1)[of "ss_db st'" "ss_db st" fmt T L] holds_log_events(2)[of "ss_db st'" "ss_db st"]
  by (simp add: appended_def same_log_def)

lemma appended_trans:
  "appended fmt T L a es b \<Longrightarrow> appended fmt T (L @ keyed_from (key_seq (ss_db a)) es) b fs c \<Longrightarrow> appended fmt T L a (es @ fs) c"
  by (simp add: appended_def keyed_from_append)

lemma appended_after:
  assumes "same_log a b" and "holds_log fmt T (ss_db a) L" and "appended fmt T L b es c"
  shows "appended fmt T L a es c"
  using assms holds_log_events(2)[of "ss_db b" "ss_db a"] by (simp add: appended_def same_log_def)

text \<open>An attribution stores and publishes the event that it names, if it names one.\<close>

lemma attribution_cases:
  obtains "attributed_in en (ss_machine_id st) rq = []" and "snd (handle_attribute en rq st) = st"
  | e where "attributed_in en (ss_machine_id st) rq = [e]" and "ev_timestamp e = en_now en"
      and "\<And>i st'. store_event en e st = (Inr i, st') \<Longrightarrow> snd (handle_attribute en rq st) = publish (NEvent e) st'"
proof (cases "attributed_in en (ss_machine_id st) rq = []")
  case True
  then have "snd (handle_attribute en rq st) = st"
    by (auto simp: attributed_in_def handle_attribute_def with_str_def refuse_def ok_of_iff split: option.splits sum.splits)
  with True show ?thesis using that(1) by blast
next
  case False
  then obtain fs path pid name src where f: "object_params rq = Some fs" "get_str ''file_path'' fs = Some path"
    "get_str ''project_id'' fs = Some pid" "get_str ''source'' fs = Some name" "source_from_str name = Inr src"
    by (auto simp: attributed_in_def ok_of_iff bind_eq_Some_conv split: option.splits)
  let ?e = "attribution_event en (ss_machine_id st) path pid src (get_str ''source_id'' fs)"
  have "attributed_in en (ss_machine_id st) rq = [?e]" using f by (simp add: attributed_in_def)
  moreover have "ev_timestamp ?e = en_now en"
    by (auto simp: attribution_event_def event_builder_defs Let_def split: option.split)
  moreover have "snd (handle_attribute en rq st) = publish (NEvent ?e) st'" if "store_event en ?e st = (Inr i, st')" for i st'
    using f that by (simp add: handle_attribute_def with_str_def reply_def Let_def)
  ultimately show ?thesis using that(2) by blast
qed

lemma store_event_appends:
  assumes "holds_log (en_fmt en) T (ss_db st) L" and "en_store_opens en" and "ev_timestamp e \<in> T"
    and "key_seq (ss_db st) < max_i64"
  obtains i st' where "store_event en e st = (Inr i, st')" and "ss_subscriptions st' = ss_subscriptions st"
    and "ss_trees st' = ss_trees st" and "appended (en_fmt en) T L st [e] (publish n st')"
proof -
  have k: "key_seq (event_store_new (ss_db st)) = key_seq (ss_db st)"
    using event_store_new_holds[OF assms(1)] by (simp add: key_seq_def)
  obtain db' where db': "store_insert (en_fmt en) e (event_store_new (ss_db st)) = Inr (key_seq (ss_db st) + 1, db')"
    "key_seq db' = key_seq (ss_db st) + 1" "holds_log (en_fmt en) T db' (L @ [(key_seq (ss_db st) + 1, e)])"
    using store_insert_holds[OF event_store_new_log[OF assms(1)] assms(3)] assms(4) by (auto simp: k)
  have "store_event en e st = (Inr (key_seq (ss_db st) + 1), st\<lparr>ss_db := db'\<rparr>)"
    using assms(2) db'(1) by (simp add: store_event_def on_store_def Let_def)
  moreover have "appended (en_fmt en) T L st [e] (publish n (st\<lparr>ss_db := db'\<rparr>))"
    using db' store_insert_migrations[OF db'(1)] by (simp add: appended_def)
  ultimately show ?thesis using that by simp
qed

lemma attribute_appends:
  assumes "holds_log (en_fmt en) T (ss_db st) L" and "en_store_opens en" and "en_now en \<in> T"
    and "key_seq (ss_db st) + int (length (attributed_in en (ss_machine_id st) rq)) \<le> max_i64"
  shows "appended (en_fmt en) T L st (attributed_in en (ss_machine_id st) rq) (snd (handle_attribute en rq st))"
proof (cases rule: attribution_cases[of en st rq])
  case 1
  then show ?thesis using appended_same[OF assms(1), of st] by simp
next
  case (2 e)
  then have "ev_timestamp e \<in> T" "key_seq (ss_db st) < max_i64" using assms(3,4) by simp_all
  from store_event_appends[OF assms(1,2) this] show ?thesis using 2 by metis
qed

lemma handle_line_appends:
  assumes "holds_log (en_fmt en) T (ss_db st) L" and "en_store_opens en" and "en_now en \<in> T"
    and "key_seq (ss_db st) + int (length (attributed_by pj en (ss_machine_id st) l)) \<le> max_i64"
    and "handle_line pj en l (st, c) = (a, st', c')"
  shows "appended (en_fmt en) T L st (attributed_by pj en (ss_machine_id st) l) st'"
proof -
  have none: "appended (en_fmt en) T L st [] t" if "same_log st t" for t by (rule appended_same[OF assms(1) that])
  show ?thesis
  proof (cases "str_trim l = [] \<or> line_request pj l = None")
    case True
    then have "st' = st" using assms(5)
      by (auto simp: handle_line_def line_request_def ok_of_iff Let_def split: if_splits sum.splits prod.splits)
    then show ?thesis using True none[of st] by (auto simp: attributed_by_def)
  next
    case False
    then obtain rq where t: "str_trim l \<noteq> []" and rq: "bind_res (pj (str_trim l)) dec_request = Inr rq" "line_request pj l = Some rq"
      by (auto simp: line_request_def ok_of_iff)
    have st': "st' = fst (snd (handle_request en rq (st, c)))"
      using assms(5) t rq(1) by (auto simp: handle_line_def Let_def split: prod.splits)
    show ?thesis
    proof (cases "method_from_str (rq_method rq)")
      case (Inl e)
      then have "rq_method rq \<noteq> ''attribute''" by (auto simp: method_from_str_def)
      then show ?thesis using Inl none[of st] t rq(2) by (simp add: st' attributed_by_def handle_request_def refuse_def)
    next
      case (Inr m)
      then have attr: "rq_method rq = ''attribute'' \<longleftrightarrow> m = Attribute" by (auto simp: method_from_str_def split: if_splits)
      show ?thesis
      proof (cases "m = Attribute")
        case True
        then have by_line: "attributed_by pj en (ss_machine_id st) l = attributed_in en (ss_machine_id st) rq"
          using t rq(2) attr by (simp add: attributed_by_def)
        with True show ?thesis using attribute_appends[OF assms(1-3), of rq] assms(4) Inr
          by (simp add: st' handle_request_def lift_handled_def)
      next
        case False
        then have "same_log st (fst (snd (handle_request en rq (st, c))))"
          using handlers_same[OF assms(1)] by (cases m) (simp_all add: handle_request_def Inr lift_handled_def)
        then show ?thesis using none False attr t rq(2) by (simp add: st' attributed_by_def)
      qed
    qed
  qed
qed

lemma connection_line_appends:
  assumes "holds_log (en_fmt en) T (ss_db st) L" and "en_store_opens en" and "en_now en \<in> T"
    and "key_seq (ss_db st) + int (length (attributed_by pj en (ss_machine_id st) l)) \<le> max_i64"
    and "connection_line pj en l (st, c) = (ws, st', c')"
  shows "appended (en_fmt en) T L st (attributed_by pj en (ss_machine_id st) l) st'"
proof -
  obtain ns st1 c1 where 1: "poll_round (st, c) = (ns, st1, c1)" by (metis prod_cases3)
  obtain a st2 c2 where 2: "handle_line pj en l (st1, c1) = (a, st2, c2)" by (metis prod_cases3)
  note same = poll_round_log[OF 1]
  then have k: "holds_log (en_fmt en) T (ss_db st1) L" "key_seq (ss_db st1) = key_seq (ss_db st)" "ss_machine_id st1 = ss_machine_id st"
    using assms(1) holds_log_events[of "ss_db st1" "ss_db st"] by (auto simp: same_log_def)
  have "appended (en_fmt en) T L st1 (attributed_by pj en (ss_machine_id st) l) st2"
    using handle_line_appends[OF k(1) assms(2,3) _ 2] assms(4) by (simp add: k)
  then have "appended (en_fmt en) T L st (attributed_by pj en (ss_machine_id st) l) st2" by (rule appended_after[OF same assms(1)])
  moreover have "ss_db st' = ss_db st2"
    using assms(5) by (auto simp: connection_line_def 1 2 drop_connection_def Let_def split: option.splits)
  ultimately show ?thesis by (simp add: appended_def)
qed

subsection \<open>The log of the whole system\<close>

definition step_kept ::
  "(timestamp \<Rightarrow> string) \<Rightarrow> timestamp set \<Rightarrow> (int \<times> file_event) list \<Rightarrow> system \<Rightarrow> step_out list \<Rightarrow> system \<Rightarrow> bool" where
  "step_kept fmt T L s rs s' \<longleftrightarrow>
     dm_running (sy_daemon s') \<and> versions_ok (ss_db (dm_state (sy_daemon s'))) \<and>
     holds_log fmt T (ss_db (dm_state (sy_daemon s'))) (log_after rs (key_seq (ss_db (dm_state (sy_daemon s)))) L) \<and>
     key_seq (ss_db (dm_state (sy_daemon s'))) = key_seq (ss_db (dm_state (sy_daemon s))) + int (length (written rs)) \<and>
     map untouched (concat (map sp_recorded rs) @ dm_queue (sy_daemon s'))
       = map untouched (dm_queue (sy_daemon s) @ concat (map sp_sent rs))"

lemma filter_kept_None [simp]: "filter (\<lambda>(_, e). kept_by None e) L = L"
  by (induction L) (auto simp: kept_by_def)

lemma versions_migrations: "db_migrations db' = db_migrations db \<Longrightarrow> versions_ok db' = versions_ok db"
  by (simp add: versions_ok_def)

text \<open>A step that is not a prune appends what it wrote.\<close>

lemma step_kept_appended:
  assumes "appended fmt T L (dm_state (sy_daemon s)) (written [r]) (dm_state (sy_daemon s'))" and "sp_pruned r = None"
    and "dm_running (sy_daemon s')" and "versions_ok (ss_db (dm_state (sy_daemon s)))"
    and "map untouched (sp_recorded r @ dm_queue (sy_daemon s')) = map untouched (dm_queue (sy_daemon s) @ sp_sent r)"
  shows "step_kept fmt T L s [r] s'"
  using assms versions_migrations[of "ss_db (dm_state (sy_daemon s'))" "ss_db (dm_state (sy_daemon s))"]
  by (simp add: step_kept_def appended_def)

lemma quiet_sel [simp]:
  "sp_sent quiet = []" "sp_recorded quiet = []" "sp_attributed quiet = []" "sp_pruned quiet = None" "sp_wire quiet = []"
  by (simp_all add: quiet_def)

lemma set_state_sel [simp]:
  "dm_state (sy_daemon (set_state st c i s)) = st" "dm_running (sy_daemon (set_state st c i s)) = dm_running (sy_daemon s)"
  "dm_queue (sy_daemon (set_state st c i s)) = dm_queue (sy_daemon s)" "sy_conns (set_state st c i s) = (sy_conns s)(i := c)"
  by (simp_all add: set_state_def)

lemma prune_step_kept:
  assumes "time_text_ok (en_fmt en) parse T" and "dm_running (sy_daemon s)"
    and "holds_log (en_fmt en) T (ss_db (dm_state (sy_daemon s))) L" and "versions_ok (ss_db (dm_state (sy_daemon s)))"
    and "en_store_opens en" and "system_step pj de (en, SysPrune) s = (r, s')" and "set_option (sp_pruned r) \<subseteq> T"
  shows "step_kept (en_fmt en) T L s [r] s'"
proof (cases "cutoff_timestamp (en_now en) \<lparr>retention_days = 90\<rparr>")
  case None
  with assms(2-6) show ?thesis
    by (auto simp: step_kept_def written_def scheduler_tick_def prune_at_start_def prune_cycle_def)
next
  case (Some c)
  then have "c \<in> T" using assms(5-7) by (auto simp: scheduler_tick_def)
  from prune_cycle_log[OF assms(1,3,4) Some this] obtain k db' where
    db': "prune_cycle (en_fmt en) (en_now en) \<lparr>retention_days = 90\<rparr> (ss_db (dm_state (sy_daemon s))) = (k, db')"
      "holds_log (en_fmt en) T db' (filter (\<lambda>(_, e). kept_by (Some c) e) L)"
      "key_seq db' = key_seq (ss_db (dm_state (sy_daemon s)))" "versions_ok db'"
    by (auto simp: kept_by_def)
  have "r = quiet\<lparr>sp_pruned := Some c\<rparr>" "s' = s\<lparr>sy_daemon := prune_at_start en (sy_daemon s)\<rparr>"
    using assms(5,6) Some by (simp_all add: scheduler_tick_def)
  then show ?thesis
    using assms(2,5) db' by (simp add: step_kept_def written_def prune_at_start_def)
qed

lemma system_step_kept:
  assumes "time_text_ok (en_fmt en) parse T" and "dm_running (sy_daemon s)"
    and "holds_log (en_fmt en) T (ss_db (dm_state (sy_daemon s))) L" and "versions_ok (ss_db (dm_state (sy_daemon s)))"
    and "en_store_opens en" and "op = SysPrune \<or> en_now en \<in> T" and "ev_timestamp ` set (dm_queue (sy_daemon s)) \<subseteq> T"
    and "system_step pj de (en, op) s = (r, s')" and "set_option (sp_pruned r) \<subseteq> T"
    and "key_seq (ss_db (dm_state (sy_daemon s))) + int (length (written [r])) \<le> max_i64"
  shows "step_kept (en_fmt en) T L s [r] s'"
proof (cases "op = SysPrune")
  case True
  with assms(8,9) show ?thesis by (intro prune_step_kept[OF assms(1-5)]) auto
next
  case False
  have none: "appended (en_fmt en) T L (dm_state (sy_daemon s)) [] t" if "same_log (dm_state (sy_daemon s)) t" for t
    by (rule appended_same[OF assms(3) that])
  have "appended (en_fmt en) T L (dm_state (sy_daemon s)) (written [r]) (dm_state (sy_daemon s')) \<and> sp_pruned r = None \<and>
    dm_running (sy_daemon s') \<and>
    map untouched (sp_recorded r @ dm_queue (sy_daemon s')) = map untouched (dm_queue (sy_daemon s) @ sp_sent r)"
  proof (cases op)
    case (SysDaemon dop)
    obtain sent rec d where d: "daemon_step de (en, dop) (sy_daemon s) = (sent, rec, d)" by (metis prod_cases3)
    then have rs: "r = quiet\<lparr>sp_sent := sent, sp_recorded := rec\<rparr>" "s' = s\<lparr>sy_daemon := d\<rparr>"
      using assms(8) by (simp_all add: SysDaemon)
    have "recorded_in_order (en_fmt en) T L (sy_daemon s) sent rec d"
      using daemon_step_recorded[OF assms(2,3,5,7) d] assms(10) by (simp add: rs written_def)
    then show ?thesis using daemon_step_migrations[OF d] by (simp add: recorded_in_order_def appended_def rs written_def)
  next
    case (SysLine i l)
    show ?thesis
    proof (cases "sy_conns s i")
      case None
      with SysLine assms(2,8) none[OF same_log_refl] show ?thesis by (auto simp: written_def)
    next
      case (Some c)
      obtain ws st' c' where line: "connection_line pj en l (dm_state (sy_daemon s), c) = (ws, st', c')" by (metis prod_cases3)
      let ?es = "attributed_by pj en (ss_machine_id (dm_state (sy_daemon s))) l"
      have rs: "r = quiet\<lparr>sp_attributed := ?es, sp_wire := ws\<rparr>" "s' = set_state st' c' i s"
        using assms(8) by (simp_all add: SysLine Some line Let_def)
      have "appended (en_fmt en) T L (dm_state (sy_daemon s)) ?es st'"
        using connection_line_appends[OF assms(3,5) _ _ line] assms(6,10) SysLine by (simp add: rs written_def)
      then show ?thesis using assms(2) by (simp add: rs written_def)
    qed
  next
    case (SysTick i)
    then show ?thesis using assms(2,8) none poll_round_log
      by (auto simp: written_def Let_def split: option.splits prod.splits)
  next
    case (SysHangUp i)
    then show ?thesis using assms(2,8) none
      by (auto simp: written_def drop_connection_def same_log_def split: option.splits)
  next
    case (SysAccept i)
    then show ?thesis using assms(2,8) none[OF same_log_refl] by (auto simp: written_def split: option.splits)
  qed (use False in simp)
  then show ?thesis using assms(4) by (intro step_kept_appended) auto
qed

lemma log_after_append:
  "log_after (rs @ rs') n L = log_after rs' (n + int (length (written rs))) (log_after rs n L)"
  by (induction rs arbitrary: n L) (simp_all add: written_def algebra_simps)

lemma step_kept_trans:
  assumes "step_kept fmt T L a rs b"
    and "step_kept fmt T (log_after rs (key_seq (ss_db (dm_state (sy_daemon a)))) L) b rs' c"
  shows "step_kept fmt T L a (rs @ rs') c"
proof -
  note 1 = assms(1)[unfolded step_kept_def] and 2 = assms(2)[unfolded step_kept_def]
  have "map untouched (concat (map sp_recorded rs) @ concat (map sp_recorded rs') @ dm_queue (sy_daemon c))
      = map untouched (concat (map sp_recorded rs) @ dm_queue (sy_daemon b) @ concat (map sp_sent rs'))" using 2 by simp
  also have "\<dots> = map untouched (dm_queue (sy_daemon a) @ concat (map sp_sent rs) @ concat (map sp_sent rs'))" using 1 by simp
  moreover have "written (rs @ rs') = written rs @ written rs'" by (simp add: written_def)
  ultimately show ?thesis using 1 2 by (simp add: step_kept_def log_after_append)
qed

lemma step_kept_times:
  assumes "step_kept fmt T L s [r] s'" and "ev_timestamp ` set (dm_queue (sy_daemon s) @ sp_sent r @ es) \<subseteq> T'"
  shows "ev_timestamp ` set (dm_queue (sy_daemon s') @ es) \<subseteq> T'"
proof -
  have "ev_timestamp ` set (sp_recorded r @ dm_queue (sy_daemon s')) = ev_timestamp ` set (dm_queue (sy_daemon s) @ sp_sent r)"
    using assms(1) by (intro untouched_times) (simp add: step_kept_def)
  then have "ev_timestamp ` set (dm_queue (sy_daemon s')) \<subseteq> ev_timestamp ` set (dm_queue (sy_daemon s) @ sp_sent r)"
    by (metis Un_upper2 image_Un set_append)
  then show ?thesis using assms(2) unfolding set_append image_Un by blast
qed

lemma system_run_kept:
  assumes "time_text_ok fmt parse T" and "dm_running (sy_daemon s)"
    and "holds_log fmt T (ss_db (dm_state (sy_daemon s))) L" and "versions_ok (ss_db (dm_state (sy_daemon s)))"
    and "\<forall>(en, op) \<in> set ops. en_fmt en = fmt \<and> en_store_opens en \<and> (op = SysPrune \<or> en_now en \<in> T)"
    and "system_run pj de ops s = (rs, s')"
    and "ev_timestamp ` set (dm_queue (sy_daemon s) @ concat (map sp_sent rs)) \<subseteq> T"
    and "\<Union> (set_option ` sp_pruned ` set rs) \<subseteq> T"
    and "key_seq (ss_db (dm_state (sy_daemon s))) + int (length (written rs)) \<le> max_i64"
  shows "step_kept fmt T L s rs s'"
  using assms(2-)
proof (induction ops arbitrary: s L rs)
  case Nil
  then show ?case by (simp add: step_kept_def written_def)
next
  case (Cons op ops)
  obtain en o1 where op: "op = (en, o1)" by force
  obtain r1 s1 where 1: "system_step pj de (en, o1) s = (r1, s1)" by force
  obtain rs2 s2 where 2: "system_run pj de ops s1 = (rs2, s2)" by force
  have eq: "rs = [r1] @ rs2" "s' = s2" using Cons.prems(5) 1 2 by (simp_all add: op)
  have len: "length (written rs) = length (written [r1]) + length (written rs2)" by (simp add: eq written_def)
  have en: "en_fmt en = fmt" "en_store_opens en" "o1 = SysPrune \<or> en_now en \<in> T" using Cons.prems(4) by (auto simp: op)
  have pre: "ev_timestamp ` set (dm_queue (sy_daemon s)) \<subseteq> T" "set_option (sp_pruned r1) \<subseteq> T"
    "key_seq (ss_db (dm_state (sy_daemon s))) + int (length (written [r1])) \<le> max_i64"
    using Cons.prems(6-8) len by (auto simp: eq)
  have "step_kept (en_fmt en) T L s [r1] s1"
    using assms(1) Cons.prems(1-3) en 1 pre by (intro system_step_kept) simp_all
  then have step: "step_kept fmt T L s [r1] s1" by (simp add: en)
  note k = step[unfolded step_kept_def]
  have "ev_timestamp ` set (dm_queue (sy_daemon s1) @ concat (map sp_sent rs2)) \<subseteq> T"
    using step_kept_times[OF step, of "concat (map sp_sent rs2)"] Cons.prems(6) by (simp add: eq)
  then have "step_kept fmt T (log_after [r1] (key_seq (ss_db (dm_state (sy_daemon s)))) L) s1 rs2 s'"
    using k Cons.prems(4,7,8) 2 len by (intro Cons.IH) (auto simp: eq)
  from step_kept_trans[OF step this] show ?case by (simp add: eq)
qed

subsection \<open>Properties\<close>

text \<open>
  C5. The log of the whole system: under any interleaving of the daemon's steps and of the periodic prunes with the
  lines, ticks, openings and ends of any number of connections, the log gains exactly the events that the loop
  recorded and those that well-formed \<open>attribute\<close> lines named, in the order of the steps, with consecutive
  numbers that a prune never gives again; it loses exactly the events older than a prune's cutoff; no other
  request changes it; and no event that the watcher sent is lost or recorded twice.
\<close>

theorem log_grows_by_observation_and_attribution:
  assumes "time_text_ok fmt parse T" and "dm_running (sy_daemon s)"
    and "holds_log fmt T (ss_db (dm_state (sy_daemon s))) L" and "versions_ok (ss_db (dm_state (sy_daemon s)))"
    and "\<forall>(en, op) \<in> set ops. en_fmt en = fmt \<and> en_store_opens en \<and> (op = SysPrune \<or> en_now en \<in> T)"
    and "system_run pj de ops s = (rs, s')"
    and "ev_timestamp ` set (dm_queue (sy_daemon s) @ concat (map sp_sent rs)) \<subseteq> T"
    and "\<Union> (set_option ` sp_pruned ` set rs) \<subseteq> T"
    and "key_seq (ss_db (dm_state (sy_daemon s))) + int (length (written rs)) \<le> max_i64"
  shows "holds_log fmt T (ss_db (dm_state (sy_daemon s')))
      (log_after rs (key_seq (ss_db (dm_state (sy_daemon s)))) L) \<and>
    key_seq (ss_db (dm_state (sy_daemon s'))) = key_seq (ss_db (dm_state (sy_daemon s))) + int (length (written rs)) \<and>
    map untouched (concat (map sp_recorded rs) @ dm_queue (sy_daemon s'))
      = map untouched (dm_queue (sy_daemon s) @ concat (map sp_sent rs))"
  using system_run_kept[OF assms] by (simp add: step_kept_def)

text \<open>A parser for which the text \<open>a\<close> is a request to attribute a file.\<close>

definition demo_attribution :: request where
  "demo_attribution = request_new ''attribute'' (Some (ParamsObject [(''file_path'', JStr ''b''), (''project_id'', JStr ''w''),
     (''source'', JStr ''git'')])) (IdNumber 1)"

definition demo_line :: "string \<Rightarrow> string + json" where
  "demo_line l = (if l = ''a'' then Inr (json_request demo_attribution) else Inl ''syntax'')"

lemma demo_line_attributes:
  "attributed_by demo_line demo_env mid ''a'' = [attribution_event demo_env mid ''b'' ''w'' Git None]"
proof -
  have "str_trim ''a'' = ''a''" by code_simp
  moreover have "dec_request (json_request demo_attribution) = Inr demo_attribution"
    by (rule dec_request_json) (simp add: demo_attribution_def request_new_def)
  ultimately have "line_request demo_line ''a'' = Some demo_attribution" "str_trim ''a'' \<noteq> []"
    by (simp_all add: line_request_def demo_line_def)
  then show ?thesis
    by (simp add: attributed_by_def attributed_in_def demo_attribution_def request_new_def object_params_def get_str_def
        obj_get_def source_from_str_def)
qed

theorem log_grows_by_observation_and_attribution_witness:
  "\<exists>rs s' e. system_run demo_line demo_daemon_env [(demo_env, SysDaemon OpHandle), (demo_env, SysLine 0 ''a''),
       (demo_env\<lparr>en_now := 6 + 90 * 86400 * 1000000000\<rparr>, SysPrune)]
       \<lparr>sy_daemon = demo_daemon, sy_conns = [0 \<mapsto> []]\<rparr> = (rs, s') \<and>
     holds_log byte_fmt {0..<256} (ss_db (dm_state (sy_daemon s'))) [(2, log_event 9 ''b''), (3, log_event 7 ''a''), (5, e)] \<and>
     key_seq (ss_db (dm_state (sy_daemon s'))) = 5 \<and>
     ev_file_path e = ''b'' \<and> ev_source e = Git \<and> map untouched (dm_queue (sy_daemon s')) = [untouched (log_event 6 ''/x'')]"
proof -
  let ?s = "\<lparr>sy_daemon = demo_daemon, sy_conns = [0 \<mapsto> []]\<rparr>"
  let ?late = "demo_env\<lparr>en_now := 6 + 90 * 86400 * 1000000000\<rparr>"
  let ?ops = "[(demo_env, SysDaemon OpHandle), (demo_env, SysLine 0 ''a''), (?late, SysPrune)]"
  let ?e1 = "(log_event 4 ''/w/a'')\<lparr>ev_project_id := ''w''\<rparr>"
  obtain d where "daemon_run demo_daemon_env [(demo_env, OpHandle)] demo_daemon = ([], [?e1], d)" using demo_daemon_run by blast
  then have d: "daemon_step demo_daemon_env (demo_env, OpHandle) demo_daemon = ([], [?e1], d)"
    by (simp del: daemon_step.simps split: prod.splits)
  let ?e2 = "attribution_event demo_env (ss_machine_id (dm_state d)) ''b'' ''w'' Git None"
  obtain ws st' c' where "connection_line demo_line demo_env ''a'' (dm_state d, []) = (ws, st', c')" by (metis prod_cases3)
  moreover have "fst (scheduler_tick ?late d') = Some 6" for d'
    using ninety_days_before by (simp add: scheduler_tick_def demo_env_def prune_config_default_def)
  ultimately obtain s' where run: "system_run demo_line demo_daemon_env ?ops ?s
      = ([quiet\<lparr>sp_sent := [], sp_recorded := [?e1]\<rparr>, quiet\<lparr>sp_attributed := [?e2], sp_wire := ws\<rparr>, quiet\<lparr>sp_pruned := Some 6\<rparr>], s')"
    using d by (simp add: demo_line_attributes Let_def split_beta del: daemon_step.simps)
  have env: "\<forall>(en, op) \<in> set ?ops. en_fmt en = byte_fmt \<and> en_store_opens en \<and> (op = SysPrune \<or> en_now en \<in> {0..<256})"
    by (simp add: demo_env_def)
  have s: "sy_daemon ?s = demo_daemon" by simp
  have e2: "ev_file_path ?e2 = ''b''" "ev_source ?e2 = Git" "ev_timestamp ?e2 = 100"
    by (simp_all add: attribution_event_def event_builder_defs demo_env_def)
  have "versions_ok (ss_db (dm_state demo_daemon))"
    by (simp add: versions_ok_def demo_daemon_def demo_state_def with_machine_id_def add_project_def log_db_new)
  from log_grows_by_observation_and_attribution[OF byte_time_text_ok _ _ _ env run, unfolded s, OF demo_daemon_facts(1,3) this]
  show ?thesis using run e2
    by (auto simp: demo_daemon_facts written_def quiet_def max_i64_def log_event_def file_event_new_def kept_by_def)
qed

end
