(* ===== verification/Isolation.thy ===== *)
theory Isolation
  imports System
begin

text \<open>
  What a connection is told: invariants of the subscriptions under every interleaving of the daemon and its
  connections, \<open>crates/ambient-fs-server/src/subscriptions.rs\<close> with the loop of a connection in \<open>socket.rs\<close>.  A
  channel carries the notifications of one project only, and every receiver of a connection belongs to the
  channel of the project that it was made for.
\<close>

subsection \<open>Channels carry one project\<close>

text \<open>The channel carries the notifications of one project, and no other project sends into it.\<close>

definition channel_pure :: "sub_manager \<Rightarrow> nat \<Rightarrow> string \<Rightarrow> bool" where
  "channel_pure m i p \<longleftrightarrow> i < length (sm_channels m) \<and>
     (\<forall>n \<in> set (ch_sent (channel_of m i)). notif_project n = p) \<and> (\<forall>q. sm_projects m q = Some i \<longrightarrow> q = p)"

definition subs_ok :: "sub_manager \<Rightarrow> bool" where
  "subs_ok m \<longleftrightarrow> manager_ok m \<and> (\<forall>p i. sm_projects m p = Some i \<longrightarrow> channel_pure m i p)"

text \<open>What every operation of the manager keeps, for the invariant and for the receivers that exist.\<close>

definition evolves :: "sub_manager \<Rightarrow> sub_manager \<Rightarrow> bool" where
  "evolves m m' \<longleftrightarrow> subs_ok m' \<and>
     (\<forall>i p. channel_pure m i p \<longrightarrow> channel_pure m' i p \<and> length (ch_sent (channel_of m i)) \<le> length (ch_sent (channel_of m' i)))"

lemma evolves_refl: "subs_ok m \<Longrightarrow> evolves m m" by (simp add: evolves_def)

lemma evolves_trans: "evolves a b \<Longrightarrow> evolves b c \<Longrightarrow> evolves a c"
  unfolding evolves_def by (meson order_trans)

lemma subs_ok_new: "subs_ok sub_manager_new"
  by (simp add: subs_ok_def manager_new_ok) (simp add: sub_manager_new_def)

text \<open>An operation that leaves the projects alone and changes one channel without its messages, or adds one of its project.\<close>

lemma set_channel_evolves:
  assumes "subs_ok m" and "manager_ok (set_channel i ch m)"
    and "\<forall>p. channel_pure m i p \<longrightarrow> (\<forall>n \<in> set (ch_sent ch). notif_project n = p)"
    and "length (ch_sent (channel_of m i)) \<le> length (ch_sent ch)"
  shows "evolves m (set_channel i ch m)"
proof (cases "i < length (sm_channels m)")
  case True
  have pure: "channel_pure (set_channel i ch m) j p" and
    len: "length (ch_sent (channel_of m j)) \<le> length (ch_sent (channel_of (set_channel i ch m) j))" if "channel_pure m j p" for j p
  proof -
    have "ch_sent (channel_of (set_channel i ch m) j) = (if i = j then ch_sent ch else ch_sent (channel_of m j))"
      using True by simp
    moreover have "\<forall>n \<in> set (ch_sent ch). notif_project n = p" if "i = j" using assms(3) \<open>channel_pure m j p\<close> that by blast
    ultimately show "channel_pure (set_channel i ch m) j p"
      "length (ch_sent (channel_of m j)) \<le> length (ch_sent (channel_of (set_channel i ch m) j))"
      using \<open>channel_pure m j p\<close> assms(4) unfolding channel_pure_def channel_of_set(2,4) by (cases "i = j"; simp del: channel_of_set(1))+
  qed
  have "subs_ok (set_channel i ch m)"
    unfolding subs_ok_def using assms(1,2) pure by (simp add: subs_ok_def)
  with pure len show ?thesis unfolding evolves_def by blast
next
  case False
  then have "set_channel i ch m = m" by (simp add: set_channel_def list_update_beyond)
  then show ?thesis using assms(1) by (simp add: evolves_refl)
qed

lemma broadcast_evolves: "subs_ok m \<Longrightarrow> evolves m (snd (broadcast n m))"
proof -
  assume ok: "subs_ok m"
  show ?thesis
  proof (cases "sm_projects m (notif_project n)")
    case None
    then show ?thesis using ok by (simp add: broadcast_def evolves_refl)
  next
    case (Some i)
    then have pure: "channel_pure m i (notif_project n)" using ok by (simp add: subs_ok_def)
    have "manager_ok (set_channel i (channel_send n (channel_of m i)) m)"
      using broadcast_ok[of m n] ok by (simp add: subs_ok_def broadcast_def Some)
    then show ?thesis
      using ok pure by (auto simp: broadcast_def Some channel_send_def channel_pure_def intro!: set_channel_evolves)
  qed
qed

lemma publish_all_evolves: "subs_ok m \<Longrightarrow> evolves m (publish_all ns m)"
proof (induction ns arbitrary: m)
  case Nil
  then show ?case by (simp add: publish_all_def evolves_refl)
next
  case (Cons n ns)
  note 1 = broadcast_evolves[OF Cons.prems, of n]
  then have "evolves (snd (broadcast n m)) (publish_all ns (snd (broadcast n m)))" by (intro Cons.IH) (simp add: evolves_def)
  with 1 show ?case using evolves_trans by (simp add: publish_all_def)
qed

lemma subscribe_evolves:
  assumes "subs_ok m" and "subscribe pid m = ((i, pos), m')"
  shows "evolves m m' \<and> channel_pure m' i pid \<and> pos \<le> length (ch_sent (channel_of m' i))"
proof -
  obtain j m1 where e: "ensure_channel pid m = (j, m1)" by force
  note e' = ensure_channel_ok[OF _ e]
  have ok: "manager_ok m" using assms(1) by (simp add: subs_ok_def)
  have pure1: "channel_pure m1 j pid"
  proof (cases "sm_projects m pid")
    case None
    then show ?thesis using e ok
      by (fastforce simp: ensure_channel_def Let_def channel_pure_def channel_of_def manager_ok_def split: if_splits)
  next
    case (Some k)
    then show ?thesis using e assms(1) by (simp add: ensure_channel_def subs_ok_def)
  qed
  have keeps: "channel_pure m1 k p \<and> channel_of m1 k = channel_of m k" if "channel_pure m k p" for k p
    using e that by (auto simp: ensure_channel_def Let_def channel_pure_def channel_of_def nth_append split: option.splits if_splits)
  have "channel_pure m1 k p" if "sm_projects m1 p = Some k" for k p
    using that pure1 keeps assms(1) e
    by (cases "p = pid") (auto simp: ensure_channel_def Let_def subs_ok_def split: option.splits)
  then have one: "evolves m m1" using e' ok keeps by (auto simp: evolves_def subs_ok_def)
  let ?m2 = "m1\<lparr>sm_counts := (sm_counts m1)(pid \<mapsto> (case sm_counts m1 pid of None \<Rightarrow> 0 | Some n \<Rightarrow> n) + 1)\<rparr>"
  have same: "channel_pure (m1\<lparr>sm_counts := n\<rparr>) k p = channel_pure m1 k p" "channel_of (m1\<lparr>sm_counts := n\<rparr>) k = channel_of m1 k"
    "manager_ok (m1\<lparr>sm_counts := n\<rparr>) = manager_ok m1" for k p n
    by (simp_all add: channel_pure_def channel_of_def manager_ok_def)
  have two: "evolves m ?m2" using one by (auto simp: evolves_def subs_ok_def same)
  have m': "i = j" "pos = length (ch_sent (channel_of m1 j))"
    "m' = set_channel j ((channel_of m1 j)\<lparr>ch_receivers := ch_receivers (channel_of m1 j) + 1\<rparr>) ?m2"
    using assms(2) by (auto simp: subscribe_def e same Let_def)
  have three: "evolves ?m2 m'"
    unfolding m'(3)
  proof (rule set_channel_evolves)
    show "subs_ok ?m2" using two by (simp add: evolves_def)
    show "manager_ok (set_channel j ((channel_of m1 j)\<lparr>ch_receivers := ch_receivers (channel_of m1 j) + 1\<rparr>) ?m2)"
      using e' ok same(3) by (intro manager_ok_set) simp_all
  qed (simp_all add: same, simp add: channel_pure_def)
  have "channel_pure ?m2 j pid" using pure1 by (simp add: same)
  with three have "channel_pure m' j pid \<and> length (ch_sent (channel_of ?m2 j)) \<le> length (ch_sent (channel_of m' j))"
    by (simp add: evolves_def)
  then show ?thesis using evolves_trans[OF two three] m'(1,2) by (simp add: same)
qed

lemma unsubscribe_evolves: "subs_ok m \<Longrightarrow> evolves m (unsubscribe pid m)"
proof -
  assume ok: "subs_ok m"
  have len: "ch_sent (channel_of (unsubscribe pid m) i) = ch_sent (channel_of m i)"
    "length (sm_channels (unsubscribe pid m)) = length (sm_channels m)" for i
    by (auto simp: unsubscribe_def close_channel_def set_channel_def channel_of_def Let_def nth_list_update split: option.split)
  have proj: "sm_projects (unsubscribe pid m) q = Some i \<Longrightarrow> sm_projects m q = Some i" for q i
    by (auto simp: unsubscribe_def close_channel_def set_channel_def Let_def split: option.splits if_splits)
  have "channel_pure m i p \<Longrightarrow> channel_pure (unsubscribe pid m) i p" for i p
    using proj by (auto simp: channel_pure_def len)
  then show ?thesis
    using ok unsubscribe_ok[of m pid] proj by (auto simp: evolves_def subs_ok_def len)
qed

lemma drop_receiver_evolves: "subs_ok m \<Longrightarrow> evolves m (drop_receiver r m)"
proof -
  assume ok: "subs_ok m"
  let ?ch = "(channel_of m (fst r))\<lparr>ch_receivers := ch_receivers (channel_of m (fst r)) - 1\<rparr>"
  have "manager_ok (set_channel (fst r) ?ch m)"
    using ok by (auto simp: subs_ok_def manager_ok_def set_channel_def channel_of_def nth_list_update list_update_beyond)
  then show ?thesis unfolding drop_receiver_def Let_def
    using ok by (intro set_channel_evolves) (auto simp: channel_pure_def)
qed

lemma drop_all_evolves:
  "subs_ok m \<Longrightarrow> evolves m (drop_project_receivers pid c m)"
  "subs_ok m \<Longrightarrow> evolves m (fold (\<lambda>(_, r). drop_receiver r) c m)"
proof -
  show "subs_ok m \<Longrightarrow> evolves m (drop_project_receivers pid c m)"
    unfolding drop_project_receivers_def
  proof (induction c arbitrary: m)
    case (Cons x c)
    obtain p r where x: "x = (p, r)" by (cases x)
    have "evolves m (if p = pid then drop_receiver r m else m)" using Cons.prems by (simp add: drop_receiver_evolves evolves_refl)
    moreover from this have "subs_ok (if p = pid then drop_receiver r m else m)" by (simp add: evolves_def)
    ultimately show ?case using evolves_trans[OF _ Cons.IH] by (simp add: x)
  qed (simp add: evolves_refl)
  show "subs_ok m \<Longrightarrow> evolves m (fold (\<lambda>(_, r). drop_receiver r) c m)"
  proof (induction c arbitrary: m)
    case (Cons x c)
    obtain p r where x: "x = (p, r)" by (cases x)
    have "evolves m (drop_receiver r m)" using Cons.prems by (rule drop_receiver_evolves)
    moreover from this have "subs_ok (drop_receiver r m)" by (simp add: evolves_def)
    ultimately show ?case using evolves_trans[OF _ Cons.IH] by (simp add: x)
  qed (simp add: evolves_refl)
qed

subsection \<open>Receivers of connections\<close>

definition links_ok :: "sub_manager \<Rightarrow> conn_state \<Rightarrow> bool" where
  "links_ok m c \<longleftrightarrow> (\<forall>(p, (i, pos)) \<in> set c. channel_pure m i p \<and> pos \<le> length (ch_sent (channel_of m i)))"

lemma links_ok_evolves: "evolves m m' \<Longrightarrow> links_ok m c \<Longrightarrow> links_ok m' c"
  unfolding evolves_def links_ok_def by (fastforce intro: order_trans)

lemma links_ok_subset: "links_ok m c \<Longrightarrow> set c' \<subseteq> set c \<Longrightarrow> links_ok m c'"
  by (auto simp: links_ok_def)

lemma try_recv_got: "try_recv ch pos = (Got n, pos') \<Longrightarrow> n \<in> set (ch_sent ch)"
  by (auto simp: try_recv_def Let_def split: if_splits)

lemma receive_link:
  assumes "links_ok m [(p, r)]" and "receive r m = (res, r')"
  shows "links_ok m [(p, r')]" and "res = Got n \<Longrightarrow> notif_project n = p"
proof -
  obtain i pos where r: "r = (i, pos)" by force
  obtain pos' where t: "try_recv (channel_of m i) pos = (res, pos')" "r' = (i, pos')"
    using assms(2) by (auto simp: receive_def r split: prod.splits)
  have ok: "channel_pure m i p" "pos \<le> length (ch_sent (channel_of m i))" using assms(1) by (auto simp: links_ok_def r)
  have "pos' \<le> length (ch_sent (channel_of m i))"
    using try_recv_backlog[OF ok(2)] ok(2) t(1) by (cases res) auto
  then show "links_ok m [(p, r')]" using ok(1) by (simp add: links_ok_def t(2))
  show "res = Got n \<Longrightarrow> notif_project n = p"
    using try_recv_got[of "channel_of m i" pos n pos'] t(1) ok(1) by (auto simp: channel_pure_def)
qed

lemma poll_subs_links:
  assumes "links_ok m c" and "poll_subs m c = (ns, c', closed)"
  shows "links_ok m c' \<and> map fst c' = map fst c \<and> notif_project ` set ns \<subseteq> fst ` set c"
  using assms
proof (induction c arbitrary: ns c' closed)
  case (Cons x c)
  obtain p r where x: "x = (p, r)" by (cases x)
  have ok: "links_ok m [(p, r)]" "links_ok m c" using Cons.prems(1) by (auto simp: links_ok_def x)
  obtain res r' where rec: "receive r m = (res, r')" by (cases "receive r m")
  obtain ns1 c1 closed1 where rest: "poll_subs m c = (ns1, c1, closed1)" by (metis prod_cases3)
  note one = receive_link[OF ok(1) rec] and more = Cons.IH[OF ok(2) rest]
  show ?case
  proof (cases "res = Closed")
    case True
    then show ?thesis using Cons.prems by (auto simp: x rec)
  next
    case False
    then have "c' = (p, r') # c1" "ns = (case res of Got n \<Rightarrow> n # ns1 | _ \<Rightarrow> ns1)"
      using Cons.prems(2) by (auto simp: x rec rest split: recv_result.splits)
    then show ?thesis using one more by (auto simp: x links_ok_def split: recv_result.splits)
  qed
qed simp

lemma poll_round_links:
  assumes "subs_ok (ss_subscriptions st)" and "links_ok (ss_subscriptions st) c" and "poll_round (st, c) = (ns, st', c')"
  shows "evolves (ss_subscriptions st) (ss_subscriptions st') \<and> links_ok (ss_subscriptions st') c' \<and>
    notif_project ` set ns \<subseteq> fst ` set c"
proof -
  obtain ns1 c1 closed where p: "poll_subs (ss_subscriptions st) c = (ns1, c1, closed)" by (metis prod_cases3)
  note l = poll_subs_links[OF assms(2) p]
  show ?thesis
  proof (cases closed)
    case None
    then show ?thesis using assms(1,3) l p by (auto simp: poll_round_def evolves_refl)
  next
    case (Some pid)
    then have eq: "ns = ns1" "ss_subscriptions st' = drop_project_receivers pid c1 (ss_subscriptions st)"
      "c' = snd (remove_subscription pid c1)"
      using assms(3) p by (auto simp: poll_round_def)
    have "evolves (ss_subscriptions st) (ss_subscriptions st')" unfolding eq(2) by (rule drop_all_evolves(1)[OF assms(1)])
    then show ?thesis using l links_ok_subset[OF links_ok_evolves, of _ _ c1 c'] by (auto simp: eq remove_subscription_def)
  qed
qed

subsection \<open>Requests and the subscriptions\<close>

lemma build_awareness_subs: "ss_subscriptions (snd (build_awareness en pid path st)) = ss_subscriptions st"
proof -
  obtain r st1 where 1: "read_store en (store_get_latest (en_order en) (en_parse en) pid path) st = (r, st1)" by force
  have "ss_subscriptions st1 = ss_subscriptions st"
    using read_store_fields(1)[of en "store_get_latest (en_order en) (en_parse en) pid path" st] by (simp add: 1)
  then show ?thesis
    by (auto simp: build_awareness_def 1 read_cache_def Let_def split: sum.split option.split if_splits)
qed

lemma handlers_subs:
  "ss_subscriptions (snd (handle_query_events en rq st)) = ss_subscriptions st"
  "ss_subscriptions (snd (handle_query_awareness en rq st)) = ss_subscriptions st"
  "ss_subscriptions (snd (handle_watch_project en rq st)) = ss_subscriptions st"
  "ss_subscriptions (snd (handle_unwatch_project en rq st)) = ss_subscriptions st"
  "ss_subscriptions (snd (handle_watch_agents en rq st)) = ss_subscriptions st"
  "ss_subscriptions (snd (handle_unwatch_agents rq st)) = ss_subscriptions st"
  "ss_subscriptions (snd (handle_query_agents en rq st)) = ss_subscriptions st"
  "ss_subscriptions (snd (handle_query_tree rq st)) = ss_subscriptions st"
  "ss_subscriptions (snd (handle_report_agent_activity en rq st)) = ss_subscriptions st"
proof -
  note defs = reply_def refuse_def with_str_def with_project_id_def Let_def
  have query: "ss_subscriptions st' = ss_subscriptions st" if "read_store en (store_query od f p flt) st = (r, st')" for od f p flt r st'
    using read_store_fields(1)[of en "store_query od f p flt" st] that by simp
  show "ss_subscriptions (snd (handle_query_events en rq st)) = ss_subscriptions st"
    by (auto simp: handle_query_events_def defs dest: query split: option.split params.split sum.split prod.split)
  show "ss_subscriptions (snd (handle_query_awareness en rq st)) = ss_subscriptions st"
    using build_awareness_subs[of en _ _ st]
    by (auto simp: handle_query_awareness_def defs split_beta split: option.split)
  show "ss_subscriptions (snd (handle_watch_project en rq st)) = ss_subscriptions st"
    by (auto simp: handle_watch_project_def defs add_watcher_def add_project_def split: option.split sum.split prod.split)
  show "ss_subscriptions (snd (handle_unwatch_project en rq st)) = ss_subscriptions st"
    by (auto simp: handle_unwatch_project_def defs remove_watcher_def remove_project_def split: option.split)
  show "ss_subscriptions (snd (handle_watch_agents en rq st)) = ss_subscriptions st"
    by (auto simp: handle_watch_agents_def defs add_project_def split: option.split)
  show "ss_subscriptions (snd (handle_unwatch_agents rq st)) = ss_subscriptions st"
    by (auto simp: handle_unwatch_agents_def defs remove_project_def split: option.split)
  show "ss_subscriptions (snd (handle_query_agents en rq st)) = ss_subscriptions st" by (simp add: handle_query_agents_def defs)
  show "ss_subscriptions (snd (handle_query_tree rq st)) = ss_subscriptions st"
    by (auto simp: handle_query_tree_def defs split: option.split)
  show "ss_subscriptions (snd (handle_report_agent_activity en rq st)) = ss_subscriptions st"
    by (auto simp: handle_report_agent_activity_def defs split: option.split sum.split)
qed

lemma attribute_evolves:
  assumes "subs_ok (ss_subscriptions st)"
  shows "evolves (ss_subscriptions st) (ss_subscriptions (snd (handle_attribute en rq st)))"
proof -
  have "ss_subscriptions (snd (store_event en e st)) = ss_subscriptions st" for e by (simp add: store_event_def)
  then have "ss_subscriptions st' = ss_subscriptions st" if "store_event en e st = (r, st')" for e r st'
    using that by (metis snd_conv)
  then show ?thesis
    using assms broadcast_evolves[OF assms]
    by (auto simp: handle_attribute_def with_str_def reply_def refuse_def publish_def evolves_refl Let_def
        split: option.split sum.split prod.split)
qed

text \<open>What a step of a connection keeps.\<close>

definition connection_kept :: "sub_manager \<Rightarrow> sub_manager \<Rightarrow> conn_state \<Rightarrow> bool" where
  "connection_kept m m' c' \<longleftrightarrow> evolves m m' \<and> links_ok m' c'"

lemma upsert_set: "set (upsert fst x c) \<subseteq> insert x (set c)"
  by (induction c) auto

lemma handle_request_links:
  assumes "subs_ok (ss_subscriptions st)" and "links_ok (ss_subscriptions st) c"
    and "handle_request en rq (st, c) = (a, st', c')"
  shows "connection_kept (ss_subscriptions st) (ss_subscriptions st') c'"
proof -
  have same: "connection_kept (ss_subscriptions st) (ss_subscriptions st') c'"
    if "evolves (ss_subscriptions st) (ss_subscriptions st')" "c' = c"
    using that assms(2) by (auto simp: connection_kept_def intro: links_ok_evolves)
  have none: "evolves (ss_subscriptions st) (ss_subscriptions st)" by (rule evolves_refl[OF assms(1)])
  show ?thesis
  proof (cases "method_from_str (rq_method rq)")
    case (Inl e)
    then show ?thesis using assms(3) none same by (simp add: handle_request_def refuse_def)
  next
    case (Inr m)
    consider "m = Subscribe" | "m = Unsubscribe" | "m = Attribute" | "m \<notin> {Subscribe, Unsubscribe, Attribute}" by blast
    then show ?thesis
    proof cases
      case 1
      show ?thesis
      proof (cases "\<exists>fs pid. object_params rq = Some fs \<and> get_str ''project_id'' fs = Some pid")
        case False
        then show ?thesis using assms(3) none same 1 Inr
          by (auto simp: handle_request_def handle_subscribe_def with_project_id_def refuse_def split: option.splits)
      next
        case True
        then obtain fs pid where ps: "object_params rq = Some fs" "get_str ''project_id'' fs = Some pid" by blast
        obtain i pos m1 where sub: "subscribe pid (ss_subscriptions st) = ((i, pos), m1)" by (metis surj_pair)
        note e = subscribe_evolves[OF assms(1) sub]
        have eq: "ss_subscriptions st' = drop_project_receivers pid c m1" "c' = add_subscription pid (i, pos) c"
          using assms(3) 1 Inr ps sub
          by (auto simp: handle_request_def handle_subscribe_def with_project_id_def reply_def Let_def)
        have "evolves m1 (ss_subscriptions st')"
          unfolding eq(1) using e by (intro drop_all_evolves) (simp add: evolves_def)
        moreover have "links_ok m1 ((pid, (i, pos)) # c)"
          using e links_ok_evolves[OF _ assms(2)] by (auto simp: links_ok_def)
        ultimately have "links_ok (ss_subscriptions st') ((pid, (i, pos)) # c)" "evolves (ss_subscriptions st) (ss_subscriptions st')"
          using e evolves_trans links_ok_evolves by blast+
        then show ?thesis unfolding connection_kept_def eq(2) add_subscription_def
          using links_ok_subset[of _ "(pid, (i, pos)) # c"] upsert_set[of "(pid, (i, pos))" c] by simp
      qed
    next
      case 2
      show ?thesis
      proof (cases "\<exists>fs pid. object_params rq = Some fs \<and> get_str ''project_id'' fs = Some pid")
        case False
        then show ?thesis using assms(3) none same 2 Inr
          by (auto simp: handle_request_def handle_unsubscribe_def with_project_id_def refuse_def split: option.splits)
      next
        case True
        then obtain fs pid where ps: "object_params rq = Some fs" "get_str ''project_id'' fs = Some pid" by blast
        have eq: "ss_subscriptions st' = unsubscribe pid (drop_project_receivers pid c (ss_subscriptions st))"
          "c' = snd (remove_subscription pid c)"
          using assms(3) 2 Inr ps by (auto simp: handle_request_def handle_unsubscribe_def with_project_id_def reply_def Let_def)
        have d: "evolves (ss_subscriptions st) (drop_project_receivers pid c (ss_subscriptions st))"
          by (rule drop_all_evolves(1)[OF assms(1)])
        then have e: "evolves (ss_subscriptions st) (ss_subscriptions st')"
          unfolding eq(1) using evolves_trans[OF d unsubscribe_evolves] by (simp add: evolves_def)
        moreover have "set c' \<subseteq> set c" by (auto simp: eq(2) remove_subscription_def)
        ultimately show ?thesis using assms(2) by (auto simp: connection_kept_def intro: links_ok_subset links_ok_evolves)
      qed
    next
      case 3
      then have "ss_subscriptions st' = ss_subscriptions (snd (handle_attribute en rq st))" "c' = c"
        using assms(3) Inr by (auto simp: handle_request_def lift_handled_def)
      then show ?thesis using attribute_evolves[OF assms(1)] same by simp
    next
      case 4
      then have "ss_subscriptions st' = ss_subscriptions st \<and> c' = c"
        using assms(3) Inr handlers_subs by (cases m) (auto simp: handle_request_def lift_handled_def)
      then show ?thesis using none same by simp
    qed
  qed
qed

lemma handle_line_links:
  assumes "subs_ok (ss_subscriptions st)" and "links_ok (ss_subscriptions st) c" and "handle_line pj en l (st, c) = (a, st', c')"
  shows "connection_kept (ss_subscriptions st) (ss_subscriptions st') c'"
proof -
  have none: "connection_kept (ss_subscriptions st) (ss_subscriptions st) c"
    using assms(1,2) by (simp add: connection_kept_def evolves_refl)
  show ?thesis
  proof (cases "str_trim l = []")
    case True
    then show ?thesis using assms(3) none by (simp add: handle_line_def)
  next
    case False
    then show ?thesis using assms(3) none handle_request_links[OF assms(1,2)]
      by (auto simp: handle_line_def Let_def split: sum.splits prod.splits)
  qed
qed

lemma connection_line_links:
  assumes "subs_ok (ss_subscriptions st)" and "links_ok (ss_subscriptions st) c"
    and "connection_line pj en l (st, c) = (ws, st', c')"
  shows "evolves (ss_subscriptions st) (ss_subscriptions st') \<and> (\<forall>d. c' = Some d \<longrightarrow> links_ok (ss_subscriptions st') d) \<and>
    (\<forall>n. WNotification n \<in> set ws \<longrightarrow> notif_project n \<in> fst ` set c)"
proof -
  obtain ns st1 c1 where 1: "poll_round (st, c) = (ns, st1, c1)" by (metis prod_cases3)
  obtain a st2 c2 where 2: "handle_line pj en l (st1, c1) = (a, st2, c2)" by (metis prod_cases3)
  note r = poll_round_links[OF assms(1,2) 1]
  then have "subs_ok (ss_subscriptions st1)" by (simp add: evolves_def)
  then have k: "connection_kept (ss_subscriptions st1) (ss_subscriptions st2) c2" using r 2 by (intro handle_line_links) auto
  then have e: "evolves (ss_subscriptions st) (ss_subscriptions st2)" using r evolves_trans by (auto simp: connection_kept_def)
  then have "subs_ok (ss_subscriptions st2)" by (simp add: evolves_def)
  then have d: "evolves (ss_subscriptions st) (ss_subscriptions (drop_connection c2 st2))"
    using evolves_trans[OF e drop_all_evolves(2)] by (simp add: drop_connection_def)
  have ns: "\<forall>n. WNotification n \<in> set (map WNotification ns) \<longrightarrow> notif_project n \<in> fst ` set c" using r by auto
  show ?thesis
    using assms(3) e d k ns by (auto simp: connection_line_def 1 2 connection_kept_def Let_def split: option.splits)
qed

subsection \<open>The whole system\<close>

definition system_links_ok :: "system \<Rightarrow> bool" where
  "system_links_ok s \<longleftrightarrow> subs_ok (ss_subscriptions (dm_state (sy_daemon s))) \<and>
     (\<forall>i c. sy_conns s i = Some c \<longrightarrow> links_ok (ss_subscriptions (dm_state (sy_daemon s))) c)"

lemma daemon_step_publishes:
  assumes "daemon_step de (en, op) d = (sent, rec, d')"
  shows "\<exists>ns. ss_subscriptions (dm_state d') = publish_all ns (ss_subscriptions (dm_state d))"
proof -
  have none: "?thesis" if "ss_subscriptions (dm_state d') = ss_subscriptions (dm_state d)"
    using that by (intro exI[of _ "[]"]) (simp add: publish_all_def)
  show ?thesis
  proof (cases op)
    case (OpNotify res)
    then show ?thesis using assms none by (auto simp: Let_def split: prod.splits)
  next
    case OpHandle
    let ?st = "dm_state d"
    have "announced ?st (update_tree de r (publish (NEvent r) (persist en r ?st))) (([] @ events_in [NEvent r]) @ [])" for r
      by (intro announced_trans[OF announced_trans[OF announced_none announced_publish] announced_update_tree])
        (simp add: persist_def)
    then have "\<exists>ns. ss_subscriptions (update_tree de r (publish (NEvent r) (persist en r ?st))) = publish_all ns (ss_subscriptions ?st)" for r
      unfolding announced_def by blast
    then show ?thesis using OpHandle assms none
      by (auto simp: handle_event_def Let_def split: list.splits if_splits)
  next
    case (OpTask n)
    then show ?thesis using assms none do_analyze_announced
      by (auto simp: announced_def split: if_splits prod.splits) blast
  next
    case (OpWatch path)
    then show ?thesis using assms
      by (intro none) (auto simp: daemon_watch_project_def add_project_def add_tree_def Let_def dest!: on_store_subs split: sum.splits prod.splits option.splits)
  next
    case (OpUnwatch pid)
    then show ?thesis using assms
      by (intro none) (auto simp: daemon_unwatch_project_def remove_project_def remove_tree_def Let_def dest!: on_store_subs
          split: sum.splits prod.splits option.splits)
  next
    case (OpQuery pid)
    then show ?thesis using assms
      by (intro none) (auto simp: daemon_query_events_def read_store_def Let_def dest!: on_store_subs split: sum.splits prod.splits option.splits)
  qed
qed

lemma system_step_links:
  assumes "system_links_ok s" and "system_step pj de (en, op) s = (r, s')"
  shows "system_links_ok s' \<and> evolves (ss_subscriptions (dm_state (sy_daemon s))) (ss_subscriptions (dm_state (sy_daemon s'))) \<and>
    (\<forall>i c n. op \<in> {SysTick i} \<union> range (SysLine i) \<longrightarrow> sy_conns s i = Some c \<longrightarrow>
    WNotification n \<in> set (sp_wire r) \<longrightarrow> notif_project n \<in> fst ` set c)"
proof -
  let ?m = "ss_subscriptions (dm_state (sy_daemon s))"
  have ok: "subs_ok ?m" "\<And>i c. sy_conns s i = Some c \<Longrightarrow> links_ok ?m c" using assms(1) by (auto simp: system_links_ok_def)
  have keep: "system_links_ok (set_state st c' i s)"
    if "evolves ?m (ss_subscriptions st)" "\<forall>d. c' = Some d \<longrightarrow> links_ok (ss_subscriptions st) d" for st c' i
    using that ok(2) links_ok_evolves[OF that(1)] by (auto simp: system_links_ok_def evolves_def)
  note same = evolves_refl[OF ok(1)]
  show ?thesis
  proof (cases op)
    case (SysDaemon dop)
    obtain sent rec d where d: "daemon_step de (en, dop) (sy_daemon s) = (sent, rec, d)" by (metis prod_cases3)
    obtain ns where "ss_subscriptions (dm_state d) = publish_all ns ?m" using daemon_step_publishes[OF d] by blast
    then have "evolves ?m (ss_subscriptions (dm_state d))" using publish_all_evolves[OF ok(1)] by simp
    then show ?thesis using assms(2) d ok(2) links_ok_evolves by (auto simp: SysDaemon system_links_ok_def evolves_def)
  next
    case (SysAccept i)
    have "links_ok ?m []" by (simp add: links_ok_def)
    then show ?thesis using assms SysAccept same by (auto simp: system_links_ok_def split: option.splits if_splits)
  next
    case (SysLine i l)
    show ?thesis
    proof (cases "sy_conns s i")
      case None
      then show ?thesis using assms same by (auto simp: SysLine)
    next
      case (Some c)
      obtain ws st' c' where line: "connection_line pj en l (dm_state (sy_daemon s), c) = (ws, st', c')" by (metis prod_cases3)
      note k = connection_line_links[OF ok(1) ok(2)[OF Some] line]
      have "sp_wire r = ws" "s' = set_state st' c' i s" using assms(2) by (auto simp: SysLine Some line Let_def)
      then show ?thesis using k keep Some by (auto simp: SysLine)
    qed
  next
    case (SysTick i)
    show ?thesis
    proof (cases "sy_conns s i")
      case None
      then show ?thesis using assms same by (auto simp: SysTick)
    next
      case (Some c)
      obtain ns st' c' where round: "poll_round (dm_state (sy_daemon s), c) = (ns, st', c')" by (metis prod_cases3)
      note k = poll_round_links[OF ok(1) ok(2)[OF Some] round]
      have "sp_wire r = map WNotification ns" "s' = set_state st' (Some c') i s" using assms(2) by (auto simp: SysTick Some round Let_def)
      then show ?thesis using k keep Some by (simp add: SysTick image_subset_iff) auto
    qed
  next
    case (SysHangUp i)
    then show ?thesis using assms keep same drop_all_evolves(2)[OF ok(1)]
      by (auto simp: drop_connection_def split: option.splits)
  next
    case SysPrune
    then have "ss_subscriptions (dm_state (sy_daemon s')) = ?m" "sy_conns s' = sy_conns s"
      using assms(2) by (auto simp: scheduler_tick_def prune_at_start_def)
    then show ?thesis using assms(1) SysPrune same by (auto simp: system_links_ok_def)
  qed
qed

lemma system_run_links: "system_run pj de ops s = (rs, s') \<Longrightarrow> system_links_ok s \<Longrightarrow> system_links_ok s'"
proof (induction ops arbitrary: s rs)
  case (Cons op ops)
  obtain r1 s1 where 1: "system_step pj de op s = (r1, s1)" by force
  obtain rs2 where 2: "system_run pj de ops s1 = (rs2, s')" using Cons.prems(1) 1 by (auto simp: Let_def split: prod.splits)
  have "system_links_ok s1" using system_step_links[OF Cons.prems(2)] 1 by (cases op) auto
  with 2 show ?case by (rule Cons.IH)
qed simp

subsection \<open>Properties\<close>

text \<open>
  C6. A client hears only of projects that it is subscribed to: from a daemon without subscriptions, after any
  interleaving of the daemon's steps and the periodic prunes with the lines, ticks, openings and ends of any number of connections, every
  notification that a tick or a line writes to a connection belongs to a project in the subscriptions of that
  connection, and every registered channel is open and carries the notifications of its project only.
\<close>

theorem connections_hear_their_projects:
  assumes "ss_subscriptions (dm_state (sy_daemon s0)) = sub_manager_new" and "sy_conns s0 = Map.empty"
    and "system_run pj de ops s0 = (rs, s)" and "system_step pj de (en, op) s = (r, s')"
    and "op = SysTick i \<or> op = SysLine i l" and "sy_conns s i = Some c" and "WNotification n \<in> set (sp_wire r)"
  shows "notif_project n \<in> fst ` set c \<and>
    (\<forall>p k. sm_projects (ss_subscriptions (dm_state (sy_daemon s))) p = Some k \<longrightarrow>
      ch_open (channel_of (ss_subscriptions (dm_state (sy_daemon s))) k) \<and>
      (\<forall>m \<in> set (ch_sent (channel_of (ss_subscriptions (dm_state (sy_daemon s))) k)). notif_project m = p))"
proof -
  have "system_links_ok s0" using assms(1,2) by (simp add: system_links_ok_def subs_ok_new)
  then have ok: "system_links_ok s" by (rule system_run_links[OF assms(3)])
  then have "notif_project n \<in> fst ` set c" using system_step_links[OF _ assms(4)] assms(5-7) by blast
  with ok show ?thesis
    by (auto simp: system_links_ok_def subs_ok_def channel_pure_def manager_ok_def channel_of_def)
qed

text \<open>A parser for which the text \<open>s\<close> subscribes to the project \<open>w\<close>.\<close>

definition demo_subscription :: request where
  "demo_subscription = request_new ''subscribe'' (Some (ParamsObject [(''project_id'', JStr ''w'')])) (IdNumber 1)"

definition demo_subscribe :: "string \<Rightarrow> string + json" where
  "demo_subscribe l = (if l = ''s'' then Inr (json_request demo_subscription) else Inl ''syntax'')"

definition demo_channel :: "notif list \<Rightarrow> sub_manager" where
  "demo_channel ns = \<lparr>sm_projects = [''w'' \<mapsto> 0], sm_counts = [''w'' \<mapsto> 1],
     sm_channels = [\<lparr>ch_sent = ns, ch_receivers = 1, ch_open = True\<rparr>]\<rparr>"

lemma demo_subscribed:
  assumes "ss_subscriptions st = sub_manager_new"
  shows "\<exists>ws. connection_line demo_subscribe demo_env ''s'' (st, [])
    = (ws, st\<lparr>ss_subscriptions := demo_channel []\<rparr>, Some [(''w'', 0, 0)])"
proof -
  have t: "str_trim ''s'' = ''s''" by code_simp
  have rq: "dec_request (json_request demo_subscription) = Inr demo_subscription"
    by (rule dec_request_json) (simp add: demo_subscription_def request_new_def)
  have m: "method_from_str ''subscribe'' = Inr Subscribe" by (simp add: method_from_str_def)
  have sub: "subscribe ''w'' sub_manager_new = ((0, 0), demo_channel [])"
    by (simp add: subscribe_def ensure_channel_def sub_manager_new_def set_channel_def channel_of_def demo_channel_def Let_def)
  have "handle_request demo_env demo_subscription (st, [])
      = (Some (response_result (IdNumber 1) (JObj [(''subscribed'', JBool True), (''project_id'', JStr ''w'')])),
         st\<lparr>ss_subscriptions := demo_channel []\<rparr>, [(''w'', 0, 0)])"
    by (simp add: handle_request_def demo_subscription_def request_new_def m handle_subscribe_def with_project_id_def
        object_params_def get_str_def obj_get_def assms sub drop_project_receivers_def add_subscription_def reply_def)
  then show ?thesis
    by (simp add: connection_line_def handle_line_def poll_round_def t demo_subscribe_def rq Let_def)
qed

lemma demo_published:
  assumes "dm_running d" and "ss_projects (dm_state d) = ss_projects (dm_state demo_daemon)"
    and "ss_agent_tracker (dm_state d) = ss_agent_tracker (dm_state demo_daemon)" and "ss_trees (dm_state d) = Map.empty"
    and "dm_queue d = log_event 4 ''/w/a'' # q" and "ss_subscriptions (dm_state d) = demo_channel []"
  shows "\<exists>d'. daemon_step demo_daemon_env (demo_env, OpHandle) d = ([], [(log_event 4 ''/w/a'')\<lparr>ev_project_id := ''w''\<rparr>], d') \<and>
    ss_subscriptions (dm_state d') = demo_channel [NEvent ((log_event 4 ''/w/a'')\<lparr>ev_project_id := ''w''\<rparr>)]"
proof -
  let ?e = "(log_event 4 ''/w/a'')\<lparr>ev_project_id := ''w''\<rparr>"
  have "resolve demo_env demo_daemon_env (dm_state d) (log_event 4 ''/w/a'')
      = resolve demo_env demo_daemon_env (dm_state demo_daemon) (log_event 4 ''/w/a'')"
    by (simp add: resolve_def get_active_agent_def assms(2,3) split: option.split)
  also have "\<dots> = ?e" by (rule demo_resolve)
  finally have r: "resolve demo_env demo_daemon_env (dm_state d) (log_event 4 ''/w/a'') = ?e" .
  have "ev_project_id ?e = ''w''" by simp
  then have "snd (broadcast (NEvent ?e) (demo_channel [])) = demo_channel [NEvent ?e]"
    by (simp add: broadcast_def demo_channel_def channel_of_def set_channel_def channel_send_def)
  then have "ss_subscriptions (publish (NEvent ?e) (persist demo_env ?e (dm_state d))) = demo_channel [NEvent ?e]"
    using assms(6) by (simp add: publish_def persist_def)
  moreover have "ss_trees (publish (NEvent ?e) (persist demo_env ?e (dm_state d))) = Map.empty"
    using assms(4) by (simp add: persist_def)
  ultimately show ?thesis
    using assms(1,5) r by (simp add: handle_event_def update_tree_def Let_def)
qed

theorem connections_hear_their_projects_witness:
  "\<exists>rs s r s' e. system_run demo_subscribe demo_daemon_env
      [(demo_env, SysAccept 0), (demo_env, SysLine 0 ''s''), (demo_env, SysDaemon OpHandle)]
      \<lparr>sy_daemon = demo_daemon, sy_conns = Map.empty\<rparr> = (rs, s) \<and>
    system_step demo_subscribe demo_daemon_env (demo_env, SysTick 0) s = (r, s') \<and>
    sp_wire r = [WNotification (NEvent e)] \<and> ev_file_path e = ''/w/a'' \<and> notif_project (NEvent e) \<in> {''w''}"
proof -
  let ?init = "\<lparr>sy_daemon = demo_daemon, sy_conns = Map.empty\<rparr>"
  let ?e = "(log_event 4 ''/w/a'')\<lparr>ev_project_id := ''w''\<rparr>"
  let ?st = "(dm_state demo_daemon)\<lparr>ss_subscriptions := demo_channel []\<rparr>"
  have fresh: "ss_subscriptions (dm_state demo_daemon) = sub_manager_new" "ss_trees (dm_state demo_daemon) = Map.empty"
    by (simp_all add: demo_daemon_def demo_state_def with_machine_id_def add_project_def)
  obtain ws where line: "connection_line demo_subscribe demo_env ''s'' (dm_state demo_daemon, []) = (ws, ?st, Some [(''w'', 0, 0)])"
    using demo_subscribed[OF fresh(1)] by blast
  let ?d = "demo_daemon\<lparr>dm_state := ?st\<rparr>"
  obtain d where d: "daemon_step demo_daemon_env (demo_env, OpHandle) ?d = ([], [?e], d)"
    "ss_subscriptions (dm_state d) = demo_channel [NEvent ?e]"
    using demo_published[of ?d "[log_event 6 ''/x'']"] fresh(2) by (auto simp: demo_daemon_facts)
  let ?s = "\<lparr>sy_daemon = d, sy_conns = [0 \<mapsto> [(''w'', 0, 0)]]\<rparr>"
  obtain rs where run: "system_run demo_subscribe demo_daemon_env
      [(demo_env, SysAccept 0), (demo_env, SysLine 0 ''s''), (demo_env, SysDaemon OpHandle)] ?init = (rs, ?s)"
    by (simp add: line d(1) set_state_def Let_def del: daemon_step.simps)
  have "poll_round (dm_state d, [(''w'', 0, 0)]) = ([NEvent ?e], dm_state d, [(''w'', 0, 1)])"
    by (simp add: poll_round_def d(2) receive_def try_recv_def demo_channel_def channel_of_def capacity_def)
  then obtain r s' where step: "system_step demo_subscribe demo_daemon_env (demo_env, SysTick 0) ?s = (r, s')"
    "sp_wire r = [WNotification (NEvent ?e)]"
    by (simp add: Let_def)
  have "notif_project (NEvent ?e) \<in> fst ` set [(''w'', 0::nat, 0::nat)]"
    using connections_hear_their_projects[of ?init, OF _ _ run step(1), where i = 0 and n = "NEvent ?e"] step(2) fresh(1) by simp
  then show ?thesis
    using run step by (intro exI[of _ rs] exI[of _ ?s] exI[of _ r] exI[of _ s'] exI[of _ ?e])
      (simp add: log_event_def file_event_new_def)
qed

end
