(* ===== verification/Peers.thy ===== *)
theory Peers
  imports Sync
begin

text \<open>
  Two daemons: the synchronisation task of one (\<open>sync_peer\<close> of \<open>crates/ambient-fs-server/src/sync.rs\<close>) against
  the gRPC service of another (\<open>sync_events\<close> of \<open>grpc.rs\<close>).  The peer answers from its own store and then goes on
  with the notifications that its other tasks publish; the stream ends when the bridge from the subscription does.
\<close>

subsection \<open>The peer's side of a stream\<close>

text \<open>What happens on the peer after it answered: publications, polls of the bridge, other subscribers.\<close>

datatype peer_op = PeerPublish notif | PeerPoll | PeerSubscribe string | PeerUnsubscribe string

fun bridge_results :: "peer_op list \<Rightarrow> receiver \<times> sub_manager \<Rightarrow> notif recv_result list" where
  "bridge_results [] s = []"
| "bridge_results (PeerPublish n # ops) (r, m) = bridge_results ops (r, snd (broadcast n m))"
| "bridge_results (PeerPoll # ops) (r, m) = (let (x, r') = receive r m in x # bridge_results ops (r', m))"
| "bridge_results (PeerSubscribe p # ops) (r, m) = bridge_results ops (r, snd (subscribe p m))"
| "bridge_results (PeerUnsubscribe p # ops) (r, m) = bridge_results ops (r, unsubscribe p m)"

text \<open>The loop of the bridge is left at the first error, and its sender is dropped then.\<close>

definition bridge_ended :: "notif recv_result list \<Rightarrow> bool" where
  "bridge_ended rs \<longleftrightarrow> list_ex (\<lambda>r. case r of Closed \<Rightarrow> True | Lagged _ \<Rightarrow> True | _ \<Rightarrow> False) rs"

definition sync_stream :: "event_message list \<Rightarrow> notif recv_result list \<Rightarrow> peer_stream" where
  "sync_stream q rs = \<lparr>ps_messages = q @ bridge rs, ps_end = (if bridge_ended rs then StreamEnd else StreamOpen)\<rparr>"

text \<open>The answer of the peer to a request; \<open>None\<close> when the call never returns.\<close>

definition peer_answer ::
  "env \<Rightarrow> peer_op list \<Rightarrow> server_state \<Rightarrow> string \<times> string \<times> int \<Rightarrow> (sync_error + peer_stream) option" where
  "peer_answer en ops st rq =
     (let (pid, mid, since) = rq in
      case grpc_sync_events en pid since st of
        (Answer (q, r), st') \<Rightarrow> Some (Inr (sync_stream q (bridge_results ops (r, ss_subscriptions st'))))
      | (Status _ msg, _) \<Rightarrow> Some (Inl (SyncRpc (''sync_events RPC failed: '' @ msg)))
      | (Died, _) \<Rightarrow> Some (Inl (SyncRpc ''sync_events RPC failed: panicked''))
      | (Hangs, _) \<Rightarrow> None)"

text \<open>One pass over a peer that runs the same program; \<open>None\<close> when it never ends.\<close>

definition sync_with ::
  "env \<Rightarrow> env \<Rightarrow> peer_op list \<Rightarrow> peer_config \<Rightarrow> server_state \<Rightarrow> sync_manager \<times> server_state
    \<Rightarrow> ((sync_error + unit) \<times> sync_manager \<times> server_state) option" where
  "sync_with en pen ops p pst s =
     (case peer_answer pen ops pst (sync_request (snd s) p (fst s)) of
        None \<Rightarrow> None
      | Some a \<Rightarrow> sync_peer en (\<lambda>_ _. a) p s)"

subsection \<open>The bridge lives as long as the subscription\<close>

text \<open>Whether some poll of the bridge finds more than 256 notifications of the project waiting, when \<open>n\<close>
  wait at the start.\<close>

fun lags :: "string \<Rightarrow> nat \<Rightarrow> peer_op list \<Rightarrow> bool" where
  "lags pid n [] \<longleftrightarrow> False"
| "lags pid n (PeerPublish m # ops) \<longleftrightarrow> lags pid (if notif_project m = pid then n + 1 else n) ops"
| "lags pid n (PeerPoll # ops) \<longleftrightarrow> 256 < n \<or> lags pid (n - 1) ops"
| "lags pid n (_ # ops) \<longleftrightarrow> lags pid n ops"

definition bridge_live :: "string \<Rightarrow> nat \<Rightarrow> receiver \<times> sub_manager \<Rightarrow> bool" where
  "bridge_live pid n s \<longleftrightarrow> (case s of ((k, pos), m) \<Rightarrow>
     manager_ok m \<and> sm_projects m pid = Some k \<and> 0 < ch_receivers (channel_of m k) \<and>
     length (ch_sent (channel_of m k)) = pos + n)"

lemma registered_open:
  "manager_ok m \<Longrightarrow> sm_projects m pid = Some k \<Longrightarrow> k < length (sm_channels m) \<and> ch_open (channel_of m k)"
  by (auto simp: manager_ok_def channel_of_def)

lemma subscribe_keeps:
  assumes "manager_ok m" and "sm_projects m pid = Some k"
  shows "sm_projects (snd (subscribe p m)) pid = Some k \<and>
    ch_receivers (channel_of m k) \<le> ch_receivers (channel_of (snd (subscribe p m)) k)"
proof -
  obtain i m1 where e: "ensure_channel p m = (i, m1)" by force
  have k: "k < length (sm_channels m)" using registered_open[OF assms] by simp
  then have m1: "sm_projects m1 pid = Some k" "channel_of m1 k = channel_of m k" "k < length (sm_channels m1)"
    using e assms by (auto simp: ensure_channel_def Let_def channel_of_def nth_append split: option.splits)
  have i: "i < length (sm_channels m1)" using ensure_channel_ok[OF assms(1) e] by simp
  show ?thesis
    using m1 i by (auto simp: subscribe_def e Let_def channel_of_def set_channel_def nth_list_update)
qed

lemma unsubscribe_keeps:
  assumes "manager_ok m" and "sm_projects m pid = Some k" and "p \<noteq> pid"
  shows "sm_projects (unsubscribe p m) pid = Some k \<and> channel_of (unsubscribe p m) k = channel_of m k"
  using assms
  by (auto simp: unsubscribe_def close_channel_def set_channel_def channel_of_def manager_ok_def Let_def nth_list_update
      split: option.split)

lemma subscribe_live:
  assumes "manager_ok m" and "subscribe pid m = (r, m')"
  shows "bridge_live pid 0 (r, m')"
proof -
  obtain i m1 where e: "ensure_channel pid m = (i, m1)" by force
  note e' = ensure_channel_ok[OF assms(1) e]
  have "manager_ok m'" using subscribe_ok[OF assms(1), of pid] assms(2) by simp
  with assms(2) e' show ?thesis
    by (cases r) (auto simp: bridge_live_def subscribe_def e Let_def channel_of_def set_channel_def)
qed

lemma bridge_live_step:
  assumes "bridge_live pid n (r, m)"
  shows "bridge_live pid (if notif_project x = pid then n + 1 else n) (r, snd (broadcast x m))"
    and "bridge_live pid n (r, snd (subscribe p m))"
    and "pid \<noteq> p \<Longrightarrow> bridge_live pid n (r, unsubscribe p m)"
proof -
  obtain k pos where r: "r = (k, pos)" by force
  note live = assms[unfolded bridge_live_def r prod.case]
  then have ok: "manager_ok (snd (broadcast x m))" "k < length (sm_channels m)" using broadcast_ok registered_open by blast+
  have "sm_projects (snd (broadcast x m)) = sm_projects m" by (simp add: broadcast_def split: option.split)
  moreover have "channel_of (snd (broadcast x m)) k
      = (if notif_project x = pid then channel_send x (channel_of m k) else channel_of m k)"
    using live ok by (auto simp: broadcast_def manager_ok_def split: option.split)
  ultimately show "bridge_live pid (if notif_project x = pid then n + 1 else n) (r, snd (broadcast x m))"
    using live ok(1) by (simp add: bridge_live_def r channel_send_def)
  show "bridge_live pid n (r, snd (subscribe p m))"
    using live subscribe_keeps[of m pid k p] subscribe_ok[of m p] by (auto simp: bridge_live_def r)
  show "bridge_live pid n (r, unsubscribe p m)" if "pid \<noteq> p"
    using live that unsubscribe_keeps[of m pid k p] unsubscribe_ok[of m p] by (auto simp: bridge_live_def r)
qed

text \<open>A poll of a live bridge: it ends with too long a queue, and takes one notification otherwise.\<close>

lemma bridge_live_poll:
  assumes "bridge_live pid n (r, m)" and "receive r m = (x, r')"
  shows "if 256 < n then \<exists>l. x = Lagged l else x \<noteq> Closed \<and> (\<forall>l. x \<noteq> Lagged l) \<and> bridge_live pid (n - 1) (r', m)"
proof -
  obtain k pos where r: "r = (k, pos)" by force
  note live = assms(1)[unfolded bridge_live_def r prod.case]
  then have "ch_open (channel_of m k)" using registered_open by blast
  with live assms(2) show ?thesis
    by (auto simp: r receive_def try_recv_def capacity_def Let_def bridge_live_def split: if_splits)
qed

lemma bridge_ended_Cons: "bridge_ended (x # rs) \<longleftrightarrow> x = Closed \<or> (\<exists>l. x = Lagged l) \<or> bridge_ended rs"
  by (cases x) (simp_all add: bridge_ended_def)

lemma bridge_ends_when_it_lags:
  assumes "bridge_live pid n s" and "PeerUnsubscribe pid \<notin> set ops"
  shows "bridge_ended (bridge_results ops s) \<longleftrightarrow> lags pid n ops"
  using assms
proof (induction ops s arbitrary: n rule: bridge_results.induct)
  case (1 s)
  then show ?case by (simp add: bridge_ended_def)
next
  case (3 ops r m)
  obtain x r' where x: "receive r m = (x, r')" by (metis surj_pair)
  note poll = bridge_live_poll[OF "3.prems"(1) x]
  show ?case
  proof (cases "256 < n")
    case False
    with poll "3.IH"[OF x[symmetric] HOL.refl] "3.prems"(2) show ?thesis by (simp add: x bridge_ended_Cons)
  qed (use poll in \<open>auto simp: x bridge_ended_Cons\<close>)
qed (simp_all add: bridge_live_step)

subsection \<open>What the stream carries\<close>

text \<open>The past second of every time of the peer is a time that this machine's store can hold.\<close>

definition times_carried :: "timestamp set \<Rightarrow> timestamp set \<Rightarrow> bool" where
  "times_carried U T \<longleftrightarrow> (\<forall>u \<in> U. let t = dur_seconds (u div nanos_per_sec) in
     timestamp_opt (u div nanos_per_sec) = Some t \<and> t \<in> T \<and> utc_minus t (dur_seconds 1) \<noteq> None \<and> t - dur_seconds 1 \<in> T)"

lemma carried_message_ok: "times_carried U T \<Longrightarrow> ev_timestamp e \<in> U \<Longrightarrow> message_ok T (file_event_to_message e)"
  by (auto simp: times_carried_def message_ok_def times_ok_def file_event_to_message_def event_type_text.parse_print
      source_text.parse_print Let_def)

lemma bridge_got:
  "Got n \<in> set (bridge_results ops s)
    \<Longrightarrow> PeerPublish n \<in> set ops \<or> n \<in> set (drop (snd (fst s)) (ch_sent (channel_of (snd s) (fst (fst s)))))"
proof (induction ops s rule: bridge_results.induct)
  case (2 n' ops r m)
  have "set (drop i (ch_sent (channel_of (snd (broadcast n' m)) k))) \<subseteq> insert n' (set (drop i (ch_sent (channel_of m k))))" for i k
    by (auto simp: broadcast_sent dest: set_mp[OF set_drop_subset])
  with 2 show ?case by (cases r) (auto split: if_splits)
next
  case (3 ops r m)
  obtain k pos where r: "r = (k, pos)" by force
  obtain x pos' where x: "try_recv (channel_of m k) pos = (x, pos')" by force
  then have "pos \<le> pos'" "x = Got n \<Longrightarrow> n \<in> set (drop pos (ch_sent (channel_of m k)))"
    by (auto simp: try_recv_def Let_def in_set_conv_nth intro!: exI[of _ 0] split: if_splits)
  moreover from this(1) have "set (drop pos' (ch_sent (channel_of m k))) \<subseteq> set (drop pos (ch_sent (channel_of m k)))"
    by (rule set_drop_subset_set_drop)
  moreover have rec: "receive r m = (x, (k, pos'))" by (simp add: receive_def r x)
  moreover have "Got n \<in> set (bridge_results ops ((k, pos'), m))
      \<Longrightarrow> PeerPublish n \<in> set ops \<or> n \<in> set (drop pos' (ch_sent (channel_of m k)))"
    using "3.IH"[OF rec[symmetric] refl] by simp
  ultimately show ?case using "3.prems" by (auto simp: r)
qed auto

lemma bridge_messages:
  "e \<in> set (bridge rs) \<Longrightarrow> \<exists>f. e = file_event_to_message f \<and> Got (NEvent f) \<in> set rs"
  "length (bridge rs) \<le> length rs"
  by (induction rs rule: bridge.induct) auto

lemma bridge_results_length: "length (bridge_results ops s) \<le> length ops"
  by (induction ops s rule: bridge_results.induct) (auto split: prod.split)

subsection \<open>Properties\<close>

text \<open>
  C34. A synchronisation between two daemons ends only when the bridge from the peer's subscription does: the pass never returns when
  the peer has more than 32 past events, because the handler then waits for ever, nor while the bridge on the
  peer goes on.  As long as nobody on the peer unsubscribes from the project, the bridge ends exactly when a
  poll finds more than 256 notifications of the project waiting for it, however many were published.
  When the pass does end it succeeded, and the log grew by the events, past ones first, then live ones, that are new
  here.  Hypotheses: both stores open and hold logs, with room for the new rows; the time of the last synchronisation
  and the times on the peer can be carried as seconds.
\<close>

theorem sync_ends_with_the_subscription:
  fixes ops :: "peer_op list"
  assumes "env_ok en T" and "holds_log (en_fmt en) T (ss_db st) L" and "en_store_opens en"
    and "env_ok pen U" and "holds_log (en_fmt pen) U (ss_db pst) M" and "en_store_opens pen"
    and "manager_ok (ss_subscriptions pst)" and "times_carried U T"
    and "timestamp_opt (case sy_last_sync sy (peer_addr p) of None \<Rightarrow> 0 | Some s \<Rightarrow> s) = Some t" and "t \<in> U"
    and "\<forall>e. PeerPublish (NEvent e) \<in> set ops \<longrightarrow> ev_timestamp e \<in> U"
    and "key_seq (ss_db st) + 32 + int (length ops) \<le> max_i64"
  shows "let pid = peer_project_id p; past = filter (\<lambda>e. ev_project_id e = pid \<and> t \<le> ev_timestamp e) (map snd M);
             rs = bridge_results ops (subscribe pid (ss_subscriptions pst)); answer = sync_with en pen ops p pst (sy, st) in
    (answer = None \<longleftrightarrow> 32 < length past \<or> \<not> bridge_ended rs) \<and>
    (PeerUnsubscribe pid \<notin> set ops \<longrightarrow> (bridge_ended rs \<longleftrightarrow> lags pid 0 ops)) \<and>
    (\<forall>r sy' st'. answer = Some (r, sy', st') \<longrightarrow> r = Inr () \<and> (\<exists>es. mset es = mset past \<and> newest_first es \<and>
       holds_log (en_fmt en) T (ss_db st') (L @ keyed_from (key_seq (ss_db st))
         (new_events en (ss_machine_id st) (map snd L) (map file_event_to_message es @ bridge rs)))))"
proof -
  let ?pid = "peer_project_id p" and ?rq = "sync_request st p sy"
  let ?past = "filter (\<lambda>e. ev_project_id e = ?pid \<and> t \<le> ev_timestamp e) (map snd M)"
  obtain r m where sub: "subscribe ?pid (ss_subscriptions pst) = (r, m)" by (metis surj_pair)
  let ?rs = "bridge_results ops (r, m)" and ?answer = "sync_with en pen ops p pst (sy, st)"
  note fresh = subscribe_result[OF assms(7) sub]
  obtain es where es: "mset es = mset ?past" "newest_first es"
    "peer_answer pen ops pst ?rq = (if 32 < length es then None
       else Some (Inr (sync_stream (map file_event_to_message es) ?rs)))"
    using sync_events_spec[OF assms(4,5,6,9,10), of ?pid] by (auto simp: peer_answer_def sync_request_def sub Let_def)
  have len: "length es = length ?past" using es(1) by (metis size_mset)
  have stays: "bridge_ended ?rs \<longleftrightarrow> lags ?pid 0 ops" if "PeerUnsubscribe ?pid \<notin> set ops"
    using bridge_ends_when_it_lags[OF subscribe_live[OF assms(7) sub] that] .
  have past: "ev_timestamp e \<in> U" if "e \<in> set es" for e
    using that mset_eq_setD[OF es(1)] assms(5) by (auto simp: holds_log_def)
  have live: "ev_timestamp e \<in> U" if "Got (NEvent e) \<in> set ?rs" for e
    using bridge_got[OF that] fresh(3) assms(11) by auto
  let ?ms = "map file_event_to_message es @ bridge ?rs"
  have ok: "list_all (message_ok T) ?ms"
    using past live bridge_messages(1) carried_message_ok[OF assms(8)] by (fastforce simp: list_all_iff)
  show ?thesis
  proof (cases "32 < length es \<or> \<not> bridge_ended ?rs")
    case True
    obtain news st1 where "collect_new en ?ms st = (Inr news, st1)" using collect_new_spec[OF assms(1-3) ok] by blast
    then have "?answer = None" using True es(3) by (auto simp: sync_with_def sync_stream_def sync_peer_def)
    with True len stays show ?thesis by (auto simp: sub Let_def)
  next
    case False
    have room: "key_seq (ss_db st) + int (length ?ms) \<le> max_i64"
      using assms(12) False bridge_messages(2)[of ?rs] bridge_results_length[of ops "(r, m)"] by simp
    let ?net = "\<lambda>_ _. Inr \<lparr>ps_messages = ?ms, ps_end = StreamEnd\<rparr> :: sync_error + peer_stream"
    have "?answer = sync_peer en ?net p (sy, st)"
      using False es(3) by (simp add: sync_with_def sync_stream_def)
    with sync_peer_spec[OF assms(1-3) _ ok room, of ?net p sy] False len stays es(1,2) show ?thesis
      by (auto simp: sub Let_def)
  qed
qed

text \<open>A peer with one event, on which another is published before its last subscriber leaves.\<close>

definition peer_state :: server_state where
  "peer_state = with_machine_id ''/db'' ''other'' (stored [synced_event ''other'' 9]) database_empty"

definition peer_ops :: "peer_op list" where
  "peer_ops = [PeerPublish (NEvent (synced_event ''other'' 20)), PeerPoll, PeerUnsubscribe ''p'', PeerPoll]"

lemma peer_bridge:
  "bridge_results peer_ops (subscribe ''p'' sub_manager_new) = [Got (NEvent (synced_event ''other'' 20)), Closed]"
  by (simp add: peer_ops_def subscribe_def ensure_channel_def sub_manager_new_def broadcast_def channel_send_def receive_def
      try_recv_def unsubscribe_def close_channel_def channel_of_def set_channel_def capacity_def synced_event_def
      file_event_new_def)

theorem sync_ends_with_the_subscription_witness:
  "\<exists>sy st. sync_with second_env second_env peer_ops (peer_config_new ''host'' ''p'') peer_state
      ((sync_manager_new [])\<lparr>sy_last_sync := [''host'' \<mapsto> 1]\<rparr>, second_state) = Some (Inr (), sy, st) \<and>
    holds_log second_fmt (dur_seconds ` {0..<256}) (ss_db st)
      [(1, synced_event ''m'' 5), (2, synced_event ''m'' 9), (3, synced_event ''m'' 20)]"
proof -
  let ?T = "dur_seconds ` {0..<256}" and ?U = "dur_seconds ` {1..<256}" and ?p = "peer_config_new ''host'' ''p''"
    and ?sy = "(sync_manager_new [])\<lparr>sy_last_sync := [''host'' \<mapsto> 1]\<rparr>"
  have en: "env_ok second_env ?T" "env_ok second_env ?U" "en_store_opens second_env" "en_fmt second_env = second_fmt"
    using second_env_ok(2,3) by (auto intro!: second_env_ok(1))
  have peer: "holds_log (en_fmt second_env) ?U (ss_db peer_state) [(1, synced_event ''other'' 9)]"
    "ss_subscriptions peer_state = sub_manager_new"
    using stored_log(1)[of "[synced_event ''other'' 9]" ?U] en(4)
    by (simp_all add: peer_state_def with_machine_id_def synced_event_def file_event_new_def max_i64_def)
  have before: "dur_seconds n - dur_seconds 1 \<in> ?T" if "n \<in> {1..<256}" for n
    using that by (intro image_eqI[of _ _ "n - 1"]) (simp_all add: dur_seconds_def left_diff_distrib)
  have carried: "times_carried ?U ?T"
    using second_timestamp before
    by (auto simp: times_carried_def utc_minus_def dur_defs min_utc_def max_utc_def)
  have since: "timestamp_opt (case sy_last_sync ?sy (peer_addr ?p) of None \<Rightarrow> 0 | Some s \<Rightarrow> s) = Some (dur_seconds 1)"
    by (simp add: peer_config_new_def second_timestamp)
  have live: "\<forall>e. PeerPublish (NEvent e) \<in> set peer_ops \<longrightarrow> ev_timestamp e \<in> ?U"
    by (simp add: peer_ops_def synced_event_def file_event_new_def)
  have manager: "manager_ok (ss_subscriptions peer_state)" by (simp add: peer(2) manager_new_ok)
  have room: "key_seq (ss_db second_state) + 32 + int (length peer_ops) \<le> max_i64"
    by (simp add: second_key peer_ops_def max_i64_def)
  have one: "mset es = mset [x] \<Longrightarrow> es = [x]" for es and x :: file_event by simp
  have mid: "ss_machine_id second_state = ''m''" by (simp add: second_state_def with_machine_id_def)
  have past: "filter (\<lambda>e. ev_project_id e = ''p'' \<and> dur_seconds 1 \<le> ev_timestamp e) (map snd [(1 :: int, synced_event ''other'' 9)])
      = [synced_event ''other'' 9]"
    by (simp add: synced_event_def file_event_new_def dur_seconds_def nanos_per_sec_def)
  have new: "new_events second_env ''m'' (map snd [(1 :: int, synced_event ''m'' 5)])
      (map file_event_to_message [synced_event ''other'' 9] @ bridge [Got (NEvent (synced_event ''other'' 20)), Closed])
      = [synced_event ''m'' 9, synced_event ''m'' 20]"
    by (simp add: new_events_def synced_received synced_message[THEN arg_cong[of _ _ em_machine_id]])
      (simp add: same_event_def synced_event_def file_event_new_def dur_seconds_def nanos_per_sec_def)
  have pid: "peer_project_id ?p = ''p''" by (simp add: peer_config_new_def)
  note ends = sync_ends_with_the_subscription[OF en(1) second_log en(3,2) peer(1) en(3) manager carried since _ live room,
      unfolded pid peer(2) peer_bridge past Let_def mid second_key]
  have "bridge_ended [Got (NEvent (synced_event ''other'' 20)), Closed]" by (simp add: bridge_ended_def)
  with ends show ?thesis using one new by (fastforce simp: en(4))
qed

end
