(* ===== verification/Directory_Scan.thy ===== *)
theory Directory_Scan
  imports Project_Tree
begin

text \<open>
  The scan of a directory, \<open>scan_directory\<close> of \<open>crates/ambient-fs-server/src/tree_state.rs\<close>, against its
  specification: the tree has exactly the entries that can be reached from the root through directories which the
  filter lets through, unless the limit on their number was met.
\<close>

subsection \<open>Specification\<close>

definition dir_of :: "string \<Rightarrow> string list \<Rightarrow> string" where
  "dir_of base ps = (if ps = [] then base else join_path base (join_with [slash] ps))"

inductive reachable_entry :: "file_system \<Rightarrow> path_filter \<Rightarrow> string \<Rightarrow> string list \<Rightarrow> bool \<Rightarrow> bool" for fs filt base where
  reach_root: "reachable_entry fs filt base [] True"
| reach_entry: "reachable_entry fs filt base ps True \<Longrightarrow> length ps < max_depth \<Longrightarrow> fs (dir_of base ps) = Some es
    \<Longrightarrow> DirEntry name (Some ft) \<in> set es \<Longrightarrow> utf8_valid name \<Longrightarrow> ft \<noteq> FtSymlink
    \<Longrightarrow> \<not> should_ignore filt (join_with [slash] (ps @ [name])) \<Longrightarrow> reachable_entry fs filt base (ps @ [name]) (ft = FtDir)"

text \<open>A directory has no name twice.\<close>

definition entry_names :: "dir_entry list \<Rightarrow> string list" where
  "entry_names es = concat (map (\<lambda>e. case e of EntryErr \<Rightarrow> [] | DirEntry name _ \<Rightarrow> [name]) es)"

definition fs_distinct :: "file_system \<Rightarrow> bool" where
  "fs_distinct fs \<longleftrightarrow> (\<forall>p es. fs p = Some es \<longrightarrow> distinct (entry_names es))"

inductive_cases reachable_snoc: "reachable_entry fs filt base (ps @ [name]) d"
inductive_cases reachable_Nil: "reachable_entry fs filt base [] d"

lemma entry_names_mem: "DirEntry name ft \<in> set es \<Longrightarrow> name \<in> set (entry_names es)"
  by (force simp: entry_names_def)

lemma entry_kind_unique:
  "distinct (entry_names es) \<Longrightarrow> DirEntry name ft \<in> set es \<Longrightarrow> DirEntry name ft' \<in> set es \<Longrightarrow> ft = ft'"
  by (induction es) (auto simp: entry_names_def dest: entry_names_mem[unfolded entry_names_def] split: dir_entry.splits)

lemma reachable_kind:
  assumes "fs_distinct fs" and "reachable_entry fs filt base ps d" and "reachable_entry fs filt base ps d'"
  shows "d = d'"
  using assms(2,3)
proof (cases ps rule: rev_cases)
  case Nil
  then show ?thesis using assms(2,3) by (auto elim: reachable_Nil)
next
  case (snoc qs name)
  obtain es ft where 1: "fs (dir_of base qs) = Some es" "DirEntry name (Some ft) \<in> set es" "d = (ft = FtDir)"
    using assms(2) unfolding snoc by (auto elim: reachable_snoc)
  obtain es' ft' where 2: "fs (dir_of base qs) = Some es'" "DirEntry name (Some ft') \<in> set es'" "d' = (ft' = FtDir)"
    using assms(3) unfolding snoc by (auto elim: reachable_snoc)
  show ?thesis using assms(1) 1 2 entry_kind_unique by (fastforce simp: fs_distinct_def)
qed

lemma reachable_length: "reachable_entry fs filt base ps d \<Longrightarrow> length ps \<le> max_depth"
  by (induction rule: reachable_entry.induct) simp_all

text \<open>The entry of a directory through which a path below it is reached.\<close>

lemma reachable_through:
  assumes "fs_distinct fs" and "reachable_entry fs filt base ps d" and "strict_prefix rp ps"
  shows "\<exists>es name ft. fs (dir_of base rp) = Some es \<and> DirEntry name (Some ft) \<in> set es \<and> utf8_valid name \<and> ft \<noteq> FtSymlink \<and>
    \<not> should_ignore filt (join_with [slash] (rp @ [name])) \<and> length rp < max_depth \<and> prefix (rp @ [name]) ps \<and>
    (ps \<noteq> rp @ [name] \<longrightarrow> ft = FtDir)"
  using assms(2,3)
proof (induction rule: reachable_entry.induct)
  case (reach_entry ps es name ft)
  show ?case
  proof (cases "ps = rp")
    case True
    with reach_entry show ?thesis by auto
  next
    case False
    with reach_entry.prems have "strict_prefix rp ps" by (auto simp: strict_prefix_def prefix_snoc)
    from reach_entry.IH[OF this] obtain es' name' ft' where
      *: "fs (dir_of base rp) = Some es'" "DirEntry name' (Some ft') \<in> set es'" "utf8_valid name'" "ft' \<noteq> FtSymlink"
        "\<not> should_ignore filt (join_with [slash] (rp @ [name']))" "length rp < max_depth" "prefix (rp @ [name']) ps"
        "ps \<noteq> rp @ [name'] \<longrightarrow> ft' = FtDir" by blast
    have "ft' = FtDir"
    proof (cases "ps = rp @ [name']")
      case True
      obtain es2 ft2 where "fs (dir_of base rp) = Some es2" "DirEntry name' (Some ft2) \<in> set es2" "ft2 = FtDir"
        using reach_entry.hyps(1) unfolding True by (auto elim: reachable_snoc)
      then show ?thesis using * assms(1) entry_kind_unique by (fastforce simp: fs_distinct_def)
    qed (use * in simp)
    with * show ?thesis by (intro exI[of _ es'] exI[of _ name'] exI[of _ ft']) auto
  qed
qed simp

subsection \<open>The scan against the specification\<close>

text \<open>The paths below a directory, and those below some of its entries.\<close>

definition below :: "string list \<Rightarrow> dir_entry list \<Rightarrow> string list set" where
  "below rp es = {ps. \<exists>name \<in> set (entry_names es). prefix (rp @ [name]) ps}"

text \<open>What a part of the scan that is responsible for a set of paths does.\<close>

definition progress ::
  "(string list \<Rightarrow> bool) \<Rightarrow> tree_node \<times> nat \<Rightarrow> string list set \<Rightarrow> tree_node \<times> nat \<Rightarrow> bool" where
  "progress R st A st' \<longleftrightarrow>
     snd st \<le> snd st' \<and> lookup (fst st) \<subseteq>\<^sub>m lookup (fst st') \<and> dom (lookup (fst st')) \<subseteq> dom (lookup (fst st)) \<union> A \<and>
     (A \<inter> dom (lookup (fst st)) = {} \<longrightarrow> card (dom (lookup (fst st'))) + snd st = card (dom (lookup (fst st))) + snd st') \<and>
     (snd st' < max_entries \<longrightarrow> {ps \<in> A. R ps} \<subseteq> dom (lookup (fst st')))"

lemma progress_none: "\<forall>ps \<in> A. \<not> R ps \<Longrightarrow> progress R st A st"
  by (auto simp: progress_def)

lemma progress_stop: "max_entries \<le> snd st \<Longrightarrow> progress R st A st"
  by (simp add: progress_def)

lemma progress_seq:
  assumes "progress R a A b" and "progress R b B c" and "A \<inter> B = {}"
  shows "progress R a (A \<union> B) c"
proof -
  note 1 = assms(1)[unfolded progress_def] and 2 = assms(2)[unfolded progress_def]
  have "card (dom (lookup (fst c))) + snd a = card (dom (lookup (fst a))) + snd c" if "(A \<union> B) \<inter> dom (lookup (fst a)) = {}"
  proof -
    have "B \<inter> dom (lookup (fst b)) = {}" using that 1 assms(3) by blast
    then have "card (dom (lookup (fst c))) + snd b = card (dom (lookup (fst b))) + snd c" using 2 by blast
    moreover have "card (dom (lookup (fst b))) + snd a = card (dom (lookup (fst a))) + snd b" using 1 that by blast
    ultimately show ?thesis by linarith
  qed
  moreover have "{ps \<in> A \<union> B. R ps} \<subseteq> dom (lookup (fst c))" if "snd c < max_entries"
  proof -
    have "snd b < max_entries" using that 2 by linarith
    then show ?thesis using 1 2 that map_le_implies_dom_le by blast
  qed
  moreover have "snd a \<le> snd c" using 1 2 by linarith
  moreover have "lookup (fst a) \<subseteq>\<^sub>m lookup (fst c)" using 1 2 map_le_trans by blast
  moreover have "dom (lookup (fst c)) \<subseteq> dom (lookup (fst a)) \<union> (A \<union> B)"
  proof -
    have "dom (lookup (fst c)) \<subseteq> dom (lookup (fst b)) \<union> B" "dom (lookup (fst b)) \<subseteq> dom (lookup (fst a)) \<union> A" using 1 2 by blast+
    then show ?thesis by blast
  qed
  ultimately show ?thesis unfolding progress_def by blast
qed

lemma progress_mono: "progress R a A b \<Longrightarrow> A \<subseteq> B \<Longrightarrow> \<forall>ps \<in> B - A. \<not> R ps \<Longrightarrow> progress R a B b"
  by (auto simp: progress_def)

text \<open>What is reached below an entry tells what the entry is.\<close>

lemma reachable_below:
  assumes "fs_distinct fs" and "fs (dir_of base rp) = Some es" and "DirEntry name ft \<in> set es"
    and "reachable_entry fs filt base ps d" and "prefix (rp @ [name]) ps"
  shows "utf8_valid name \<and> \<not> should_ignore filt (join_with [slash] (rp @ [name])) \<and>
    (\<exists>t. ft = Some t \<and> t \<noteq> FtSymlink \<and> (ps \<noteq> rp @ [name] \<longrightarrow> t = FtDir))"
proof -
  have "strict_prefix rp ps" using assms(5) by (auto simp: strict_prefix_def prefix_def)
  from reachable_through[OF assms(1,4) this] assms(2) obtain name' t where
    *: "DirEntry name' (Some t) \<in> set es" "utf8_valid name'" "t \<noteq> FtSymlink"
      "\<not> should_ignore filt (join_with [slash] (rp @ [name']))" "prefix (rp @ [name']) ps"
      "ps \<noteq> rp @ [name'] \<longrightarrow> t = FtDir" by auto
  have "name' = name" using *(5) assms(5) by (auto simp: prefix_def)
  moreover from this have "ft = Some t" using assms(1-3) * entry_kind_unique by (fastforce simp: fs_distinct_def)
  ultimately show ?thesis using * by blast
qed

lemma below_Cons:
  "below rp (EntryErr # es) = below rp es"
  "below rp (DirEntry name ft # es) = {ps. prefix (rp @ [name]) ps} \<union> below rp es"
  by (auto simp: below_def entry_names_def)

lemma scan_progress:
  fixes lc fs filt base rel k st es
  defines "R \<equiv> \<lambda>ps. \<exists>d. reachable_entry fs filt base ps d"
  assumes ok: "fs_names_ok fs" "fs_distinct fs"
  shows "scan_ok lc fs filt base st \<Longrightarrow> at_dir fs base (fst st) rel rp \<Longrightarrow> length rp + k = max_depth
      \<Longrightarrow> progress R st {ps. strict_prefix rp ps} (scan_directory lc fs filt base rel k st)"
    and "scan_ok lc fs filt base st \<Longrightarrow> at_dir fs base (fst st) rel rp \<Longrightarrow> length rp + Suc k = max_depth
      \<Longrightarrow> fs (dir_of base rp) = Some all \<Longrightarrow> set es \<subseteq> set all \<Longrightarrow> distinct (entry_names es)
      \<Longrightarrow> progress R st (below rp es) (scan_entries lc fs filt base rel k es st)"
  using ok unfolding R_def
proof (induction lc fs filt base rel k st and lc fs filt base rel k es st arbitrary: rp and rp all
    rule: scan_directory_scan_entries.induct)
  case (1 lc fs filt base rel st)
  have "\<forall>ps \<in> {ps. strict_prefix rp ps}. \<not> (\<exists>d. reachable_entry fs filt base ps d)"
    using "1.prems"(3) by (auto dest!: prefix_length_less reachable_length)
  then show ?case using progress_none[of "{ps. strict_prefix rp ps}"] by simp
next
  case (2 lc fs filt base rel k st)
  have dir: "dir_of base rp = (if rel = [] then base else join_path base rel)"
    using "2.prems"(2) by (auto simp: at_dir_def dir_of_def join_with_eq_Nil)
  show ?case
  proof (cases "fs (dir_of base rp)")
    case None
    then have "\<forall>ps \<in> {ps. strict_prefix rp ps}. \<not> (\<exists>d. reachable_entry fs filt base ps d)"
      using reachable_through[OF "2.prems"(5)] by fastforce
    then show ?thesis using progress_none[of "{ps. strict_prefix rp ps}"] None by (simp add: dir)
  next
    case (Some es)
    then have "distinct (entry_names es)" using "2.prems"(5) by (auto simp: fs_distinct_def)
    from "2.IH"[OF Some[unfolded dir] "2.prems"(1,2) _ Some order_refl this "2.prems"(4,5)] "2.prems"(3)
    have "progress (\<lambda>ps. \<exists>d. reachable_entry fs filt base ps d) st (below rp es) (scan_entries lc fs filt base rel k es st)" by simp
    moreover have "below rp es \<subseteq> {ps. strict_prefix rp ps}" by (auto simp: below_def strict_prefix_def prefix_def)
    moreover have "\<forall>ps \<in> {ps. strict_prefix rp ps} - below rp es. \<not> (\<exists>d. reachable_entry fs filt base ps d)"
    proof safe
      fix ps d
      assume "reachable_entry fs filt base ps d" "strict_prefix rp ps" and out: "ps \<notin> below rp es"
      from reachable_through[OF "2.prems"(5) this(1,2)] Some obtain name ft where
        "DirEntry name (Some ft) \<in> set es" "prefix (rp @ [name]) ps" by auto
      then show False using out entry_names_mem by (fastforce simp: below_def)
    qed
    ultimately have "progress (\<lambda>ps. \<exists>d. reachable_entry fs filt base ps d) st {ps. strict_prefix rp ps} (scan_entries lc fs filt base rel k es st)"
      by (rule progress_mono)
    then show ?thesis using Some by (simp add: dir)
  qed
next
  case (3 lc fs filt base rel k st)
  then show ?case using progress_none[of "below rp []"] by (simp add: below_def entry_names_def)
next
  case (4 lc fs filt base rel k es st)
  then show ?case by (simp add: below_Cons entry_names_def)
next
  case (5 lc fs filt base rel k raw ft es st)
  let ?R = "\<lambda>ps. \<exists>d. reachable_entry fs filt base ps d" and ?child = "if rel = [] then raw else rel @ [slash] @ raw"
  let ?here = "{ps. prefix (rp @ [raw]) ps}"
  have mem: "DirEntry raw ft \<in> set all" and rest: "set es \<subseteq> set all" "distinct (entry_names es)"
    and new: "raw \<notin> set (entry_names es)"
    using "5.prems"(5,6) by (auto simp: entry_names_def)
  have name: "valid_parts [raw]" using "5.prems"(4,7) mem by (auto simp: fs_names_ok_def)
  have dir: "dir_of base rp = (if rel = [] then base else join_path base rel)"
    and child: "?child = join_with [slash] (rp @ [raw])"
    using "5.prems"(2) by (auto simp: at_dir_def dir_of_def join_with_snoc join_with_eq_Nil)
  note here = reachable_below[OF "5.prems"(8,4) mem]
  have apart: "?here \<inter> below rp es = {}" using new by (auto simp: below_def prefix_def)
  show ?case
  proof (cases "to_str raw = None \<or> should_ignore filt ?child \<or> ft = None \<or> ft = Some FtSymlink")
    case True
    then have "\<forall>ps \<in> ?here. \<not> ?R ps" using here by (auto simp: to_str_def child split: if_splits)
    then have none: "progress ?R st ?here st" by (rule progress_none)
    have "progress ?R st (below rp es) (scan_entries lc fs filt base rel k es st)"
    proof (cases "to_str raw")
      case None
      from "5.IH"(1)[OF this "5.prems"(1-4) rest "5.prems"(7,8)] show ?thesis .
    next
      case (Some n)
      then have v: "to_str raw = Some raw" by (auto simp: to_str_def split: if_splits)
      consider "should_ignore filt ?child" | "\<not> should_ignore filt ?child" "ft = None"
        | "\<not> should_ignore filt ?child" "ft = Some FtSymlink" using True Some by auto
      then show ?thesis
      proof cases
        case 1
        from "5.IH"(2)[OF v refl this "5.prems"(1-4) rest "5.prems"(7,8)] show ?thesis .
      next
        case 2
        from "5.IH"(3)[OF v refl this "5.prems"(1-4) rest "5.prems"(7,8)] show ?thesis .
      next
        case 3
        from "5.IH"(4)[OF v refl this refl "5.prems"(1-4) rest "5.prems"(7,8)] show ?thesis .
      qed
    qed
    from progress_seq[OF none this apart]
    have "progress ?R st (?here \<union> below rp es) (scan_entries lc fs filt base rel k es st)" .
    moreover have "scan_entries lc fs filt base rel k (DirEntry raw ft # es) st = scan_entries lc fs filt base rel k es st"
      using True by (auto simp: Let_def to_str_def split: option.splits)
    ultimately show ?thesis by (simp add: below_Cons)
  next
    case False
    then obtain t where t: "ft = Some t" "t \<noteq> FtSymlink" and v: "to_str raw = Some raw" "utf8_valid raw"
        and ign: "\<not> should_ignore filt ?child"
      by (auto simp: to_str_def split: if_splits)
    show ?thesis
    proof (cases "max_entries \<le> snd st")
      case True
      then show ?thesis using t v ign by (simp add: Let_def progress_stop)
    next
      case lt: False
      let ?root = "snd (add_node lc (fst st) ?child (t = FtDir))"
      let ?st' = "(?root, snd st + 1)"
      let ?st'' = "if t = FtDir then scan_directory lc fs filt base ?child k ?st' else ?st'"
      have len: "length rp < max_depth" using "5.prems"(3) by simp
      have disk: "on_disk fs base (rp @ [raw]) (t = FtDir)"
        using "5.prems"(2,4) mem t v by (auto simp: at_dir_def dir_of_def intro: on_disk_top on_disk_sub split: if_splits)
      have st: "scan_ok lc fs filt base (fst st, snd st)" "snd st < max_entries" using "5.prems"(1) lt by simp_all
      note add = scan_ok_add[OF st "5.prems"(2) len name refl disk ign refl]
      have parts: "path_parts ?child = rp @ [raw]"
        using "5.prems"(2) name unfolding child by (intro path_parts_join) (simp add: at_dir_def)
      have dom: "dom (lookup ?root) = insert (rp @ [raw]) (dom (lookup (fst st)))"
        using "5.prems"(2) dom_lookup_add[of "fst st" ?child lc "t = FtDir", unfolded parts] by (simp add: at_dir_def)
      have "finite (dom (lookup (fst st)))" using "5.prems"(1) by (simp add: scan_ok_def)
      then have one: "progress ?R st {rp @ [raw]} ?st'"
        by (auto simp: progress_def dom card_insert_if map_le_def ft.add_look)
      have two: "progress ?R ?st' {ps. strict_prefix (rp @ [raw]) ps} ?st'' \<and> scan_ok lc fs filt base ?st''"
      proof (cases "t = FtDir")
        case True
        have k: "length (rp @ [raw]) + k = max_depth" using "5.prems"(3) by simp
        have at: "at_dir fs base (fst ?st') ?child (rp @ [raw])" using add(3)[OF True] by simp
        from "5.IH"(5)[OF v(1) refl ign t(1) t(2) lt refl True add(1) at k "5.prems"(7,8)]
        have "progress ?R ?st' {ps. strict_prefix (rp @ [raw]) ps} (scan_directory lc fs filt base ?child k ?st')" .
        moreover have "scan_ok lc fs filt base (scan_directory lc fs filt base ?child k ?st')"
          using scan_invariant(1)[OF "5.prems"(7) add(1) at] k by simp
        ultimately show ?thesis unfolding if_P[OF True] by (rule conjI)
      next
        case False
        then have "\<forall>ps \<in> {ps. strict_prefix (rp @ [raw]) ps}. \<not> ?R ps" using here t by (auto simp: strict_prefix_def)
        then have "progress ?R ?st' {ps. strict_prefix (rp @ [raw]) ps} ?st'" by (rule progress_none)
        then show ?thesis unfolding if_not_P[OF False] using add(1) by (rule conjI)
      qed
      have "{rp @ [raw]} \<union> {ps. strict_prefix (rp @ [raw]) ps} = ?here" by (auto simp: strict_prefix_def)
      then have both: "progress ?R st ?here ?st''" using progress_seq[OF one conjunct1[OF two]] by (auto simp: strict_prefix_def)
      have "at_dir fs base (fst ?st'') rel rp"
        using add(4) two at_dir_mono[OF _ map_le_implies_dom_le] by (simp add: progress_def)
      from "5.IH"(6)[OF v(1) refl ign t(1) t(2) lt refl refl conjunct2[OF two] this "5.prems"(3,4) rest "5.prems"(7,8)]
      have "progress ?R st (?here \<union> below rp es) (scan_entries lc fs filt base rel k es ?st'')"
        by (rule progress_seq[OF both _ apart])
      moreover have "scan_entries lc fs filt base rel k (DirEntry raw ft # es) st
          = scan_entries lc fs filt base rel k es ?st''"
        using t v ign lt by (simp add: Let_def)
      ultimately show ?thesis by (simp add: below_Cons)
    qed
  qed
qed

subsection \<open>Properties\<close>

text \<open>Everything in the tree is reached: its prefixes are in the tree too, so none of them is ignored.\<close>

lemma on_disk_reachable:
  assumes "on_disk fs base ps d"
    and "\<And>qs. prefix qs ps \<Longrightarrow> qs \<noteq> [] \<Longrightarrow> \<not> should_ignore filt (join_with [slash] qs)" and "length ps \<le> max_depth"
  shows "reachable_entry fs filt base ps d"
  using assms
proof (induction rule: on_disk.induct)
  case (on_disk_top es name ft)
  then show ?case using reach_entry[OF reach_root, of fs base es name ft filt] on_disk_top.prems(1)[of "[name]"]
    by (simp add: dir_of_def max_depth_def)
next
  case (on_disk_sub ps es name ft)
  then have "ps \<noteq> []" by (auto elim: on_disk.cases)
  moreover have "reachable_entry fs filt base ps True" using on_disk_sub.prems by (intro on_disk_sub.IH) auto
  ultimately show ?case
    using on_disk_sub reach_entry[of fs filt base ps es name ft] by (simp add: dir_of_def)
qed

text \<open>
  C20. The tree that the scan of a directory builds is well formed, has at most \<open>MAX_ENTRIES\<close> nodes besides its
  root, and each of its nodes, with its kind, is an entry within \<open>MAX_DEPTH\<close> levels that is reached from the root through
  directories, not through a symbolic link, with no ignored path on the way; and when it has fewer nodes than
  that, it has all of these entries.  Hypotheses: names as an operating system gives them, without a slash and none
  twice in a directory.
\<close>

theorem from_directory_exact:
  assumes "fs_names_ok fs" and "fs_distinct fs"
  shows "let r = pt_root (from_directory lc fs path filt); n = card (dom (lookup r)) in
    tree_ok lc [] r \<and> n \<le> max_entries + 1 \<and>
    (\<forall>ps d. lookup r ps = Some d \<longrightarrow> reachable_entry fs filt path ps d) \<and>
    (n \<le> max_entries \<longrightarrow> (\<forall>ps d. lookup r ps = Some d \<longleftrightarrow> reachable_entry fs filt path ps d))"
proof -
  let ?r = "pt_root (from_directory lc fs path filt)" and ?t = "tree_dir [] []"
  let ?st = "scan_directory lc fs filt path [] max_depth (?t, 0)"
  have r: "?r = fst ?st" by (simp add: from_directory_def project_tree_new_def Let_def)
  note sound = from_directory_sound[OF assms(1), of lc path filt, unfolded Let_def]
  have dom0: "dom (lookup ?t) = {[]}" by (auto simp: dom_def lookup_leaf split: if_splits)
  then have "scan_ok lc fs filt path (?t, 0)" by (simp add: scan_ok_def tree_ok_leaf lookup_leaf)
  moreover have "at_dir fs path (fst (?t, 0)) [] []" by (simp add: at_dir_def)
  ultimately have scan: "progress (\<lambda>ps. \<exists>d. reachable_entry fs filt path ps d) (?t, 0) {ps. strict_prefix [] ps} ?st"
    by (intro scan_progress(1)) (use assms in simp_all)
  have root: "lookup ?r [] = Some True" using scan by (auto simp: progress_def map_le_def dom0 lookup_leaf r)
  have in_tree: "reachable_entry fs filt path ps d" if "lookup ?r ps = Some d" for ps d
  proof (cases "ps = []")
    case True
    with that root show ?thesis by (simp add: reach_root)
  next
    case False
    have "lookup ?r qs \<noteq> None" if "prefix qs ps" for qs using lookup_prefix[OF that, of ?r] \<open>lookup ?r ps = Some d\<close> by auto
    then have "\<not> should_ignore filt (join_with [slash] qs)" if "prefix qs ps" "qs \<noteq> []" for qs using that sound by blast
    then show ?thesis using sound that False by (intro on_disk_reachable) blast+
  qed
  have "lookup ?r ps = Some d" if "card (dom (lookup ?r)) \<le> max_entries" "reachable_entry fs filt path ps d" for ps d
  proof -
    have "card (dom (lookup ?r)) = Suc (snd ?st)" using scan dom0 by (auto simp: progress_def r)
    then have "snd ?st < max_entries" using that(1) by simp
    then have reached: "{ps. strict_prefix [] ps \<and> (\<exists>d. reachable_entry fs filt path ps d)} \<subseteq> dom (lookup ?r)"
      using scan by (simp add: progress_def r)
    have "ps \<in> dom (lookup ?r)"
    proof (cases "ps = []")
      case False
      then have "strict_prefix [] ps" by (simp add: strict_prefix_def)
      then show ?thesis using reached that(2) by blast
    qed (use root in \<open>simp add: domIff\<close>)
    then show ?thesis using in_tree reachable_kind[OF assms(2) that(2)] by auto
  qed
  then show ?thesis using sound in_tree unfolding Let_def by blast
qed

text \<open>The listing of \<open>demo_fs\<close> has three entries that pass: a directory, a file in it, and a file.\<close>

definition demo_scan :: tree_node where
  "demo_scan = TreeNode [] [] True
     [TreeNode ''src'' ''src'' True [TreeNode ''main.rs'' ''src/main.rs'' False []], TreeNode ''README'' ''README'' False []]"

lemma demo_scan_from: "pt_root (from_directory id demo_fs ''/w/app'' path_filter_default) = demo_scan"
  by code_simp

lemma demo_scan_lookup:
  "lookup demo_scan = [[] \<mapsto> True, [''src''] \<mapsto> True, [''README''] \<mapsto> False, [''src'', ''main.rs''] \<mapsto> False]"
proof
  fix ps
  show "lookup demo_scan ps = [[] \<mapsto> True, [''src''] \<mapsto> True, [''README''] \<mapsto> False, [''src'', ''main.rs''] \<mapsto> False] ps"
    by (cases ps rule: remdups_adj.cases) (auto simp: demo_scan_def lookup_Cons child_named_def lookup_leaf)
qed

theorem from_directory_exact_witness:
  "let r = pt_root (from_directory id demo_fs ''/w/app'' path_filter_default) in
   lookup r = [[] \<mapsto> True, [''src''] \<mapsto> True, [''README''] \<mapsto> False, [''src'', ''main.rs''] \<mapsto> False] \<and>
   reachable_entry demo_fs path_filter_default ''/w/app'' [''src'', ''main.rs''] False \<and>
   \<not> reachable_entry demo_fs path_filter_default ''/w/app'' [''link''] False \<and>
   \<not> reachable_entry demo_fs path_filter_default ''/w/app'' [''src'', ''a.swp''] False"
proof -
  let ?reach = "reachable_entry demo_fs path_filter_default ''/w/app''"
  have ok: "fs_names_ok demo_fs" "fs_distinct demo_fs"
    by (auto simp: fs_names_ok_def fs_distinct_def demo_fs_def slash_def entry_names_def split: if_splits)
  have "card (dom (lookup demo_scan)) \<le> max_entries" by (simp add: demo_scan_lookup max_entries_def)
  then have "lookup demo_scan ps = Some d \<longleftrightarrow> ?reach ps d" for ps d
    using from_directory_exact[OF ok, of id "''/w/app''" path_filter_default] by (simp add: demo_scan_from Let_def)
  from this[of "[''src'', ''main.rs'']" False] this[of "[''link'']" False] this[of "[''src'', ''a.swp'']" False]
  show ?thesis unfolding demo_scan_from Let_def by (simp add: demo_scan_lookup)
qed

end
