(* ===== verification/Delivery.thy ===== *)
theory Delivery
  imports Isolation
begin

text \<open>
  Delivery to a subscriber: what the daemon and its connections publish for a project reaches a connection that
  listens to it, once and in order, under every interleaving.  A channel only keeps a message while a receiver
  exists, so the receivers that \<open>crates/ambient-fs-server/src/subscriptions.rs\<close> leaves to tokio's count are accounted
  for: each connection holds one for each of its subscriptions.
\<close>

subsection \<open>The count of receivers\<close>

definition held :: "nat \<Rightarrow> conn_state \<Rightarrow> nat" where
  "held k c = length (filter (\<lambda>(_, r). fst r = k) c)"

lemma held_simps [simp]:
  "held k [] = 0" "held k ((p, r) # c) = (if fst r = k then 1 else 0) + held k c"
  by (simp_all add: held_def)

lemma held_split: "held k c = held k (filter P c) + held k (filter (\<lambda>x. \<not> P x) c)"
  by (induction c) auto

lemma held_entry: "(p, (k, pos)) \<in> set c \<Longrightarrow> 0 < held k c"
  by (induction c) auto

lemma receivers_drop:
  "ch_receivers (channel_of (drop_receiver r m) k) = ch_receivers (channel_of m k) - (if fst r = k then 1 else 0)"
  by (auto simp: drop_receiver_def Let_def channel_of_def set_channel_def nth_list_update)

lemma receivers_drop_project:
  "ch_receivers (channel_of (drop_project_receivers pid c m) k)
    = ch_receivers (channel_of m k) - held k (filter (\<lambda>(p, _). p = pid) c)"
  unfolding drop_project_receivers_def by (induction c arbitrary: m) (auto simp: receivers_drop)

lemma receivers_drop_all:
  "ch_receivers (channel_of (fold (\<lambda>(_, r). drop_receiver r) c m) k) = ch_receivers (channel_of m k) - held k c"
  by (induction c arbitrary: m) (auto simp: receivers_drop)

lemma receivers_subscribe:
  assumes "manager_ok m" and "subscribe pid m = (r, m')"
  shows "ch_receivers (channel_of m' k) = ch_receivers (channel_of m k) + (if fst r = k then 1 else 0)"
proof -
  obtain i m1 where e: "ensure_channel pid m = (i, m1)" by force
  have "i < length (sm_channels m1)" using ensure_channel_ok[OF assms(1) e] by simp
  moreover have "ch_receivers (channel_of m1 k) = ch_receivers (channel_of m k)"
    using e by (auto simp: ensure_channel_def Let_def channel_of_def nth_append split: option.splits)
  ultimately show ?thesis
    using assms(2) by (auto simp: subscribe_def e Let_def channel_of_def set_channel_def nth_list_update)
qed

lemma receivers_unsubscribe: "ch_receivers (channel_of (unsubscribe pid m) k) = ch_receivers (channel_of m k)"
  by (auto simp: unsubscribe_def close_channel_def set_channel_def channel_of_def Let_def nth_list_update split: option.split)

lemma receivers_publish: "ch_receivers (channel_of (publish_all ns m) k) = ch_receivers (channel_of m k)"
proof (induction ns arbitrary: m)
  case (Cons n ns)
  have "ch_receivers (channel_of (snd (broadcast n m)) k) = ch_receivers (channel_of m k)"
    by (auto simp: broadcast_def channel_send_def set_channel_def channel_of_def nth_list_update split: option.split)
  with Cons show ?case by (simp add: publish_all_def)
qed (simp add: publish_all_def)

lemma held_upsert:
  "distinct (map fst c) \<Longrightarrow> held k (upsert fst (pid, r) c)
    = (if fst r = k then 1 else 0) + held k (filter (\<lambda>(p, _). p \<noteq> pid) c)"
proof (induction c)
  case (Cons x c)
  obtain p r' where x: "x = (p, r')" by (cases x)
  have "filter (\<lambda>(q, _). q \<noteq> p) c = c" if "p \<notin> fst ` set c" using that by (force intro!: filter_True)
  with Cons show ?case by (auto simp: x)
qed simp

subsection \<open>Messages that are sent meanwhile\<close>

lemma sent_drop [simp]:
  "ch_sent (channel_of (drop_receiver r m) k) = ch_sent (channel_of m k)"
  "ch_sent (channel_of (drop_project_receivers pid c m) k) = ch_sent (channel_of m k)"
  "ch_sent (channel_of (fold (\<lambda>(_, r). drop_receiver r) c m) k) = ch_sent (channel_of m k)"
proof -
  have 1: "ch_sent (channel_of (drop_receiver r m) k) = ch_sent (channel_of m k)" for r m
    by (auto simp: drop_receiver_def Let_def channel_of_def set_channel_def nth_list_update)
  show "ch_sent (channel_of (drop_receiver r m) k) = ch_sent (channel_of m k)" by (rule 1)
  show "ch_sent (channel_of (drop_project_receivers pid c m) k) = ch_sent (channel_of m k)"
    unfolding drop_project_receivers_def by (induction c arbitrary: m) (auto simp: 1)
  show "ch_sent (channel_of (fold (\<lambda>(_, r). drop_receiver r) c m) k) = ch_sent (channel_of m k)"
    by (induction c arbitrary: m) (auto simp: 1)
qed

lemma sent_publish:
  assumes "manager_ok m" and "sm_projects m p = Some k" and "0 < ch_receivers (channel_of m k)"
  shows "ch_sent (channel_of (publish_all ns m) k) = ch_sent (channel_of m k) @ filter (\<lambda>n. notif_project n = p) ns"
proof -
  have "ch_sent (fold channel_send ms ch) = ch_sent ch @ ms \<and> ch_receivers (fold channel_send ms ch) = ch_receivers ch"
    if "0 < ch_receivers ch" for ms and ch :: "notif channel"
    using that by (induction ms arbitrary: ch) (simp_all add: channel_send_def)
  then show ?thesis using publish_all_channel[OF assms(1,2)] assms(3) by simp
qed

text \<open>What a connection, or the daemon, does to the subscriptions when \<open>ns\<close> is published meanwhile and the other
  connections hold \<open>X\<close> receivers: the receivers stay accounted for, and a channel that is registered
  afterwards was registered before and, where others listen, got the notifications of its project.\<close>

definition account :: "(nat \<Rightarrow> nat) \<Rightarrow> sub_manager \<times> conn_state \<Rightarrow> bool" where
  "account X s \<longleftrightarrow> (case s of (m, c) \<Rightarrow>
     manager_ok m \<and> distinct (map fst c) \<and> (\<forall>k. X k + held k c \<le> ch_receivers (channel_of m k)))"

definition serves ::
  "(nat \<Rightarrow> nat) \<Rightarrow> sub_manager \<times> conn_state \<Rightarrow> notif list \<Rightarrow> sub_manager \<times> conn_state \<Rightarrow> bool" where
  "serves X s ns s' \<longleftrightarrow> (account X s \<longrightarrow> account X s' \<and>
     length (sm_channels (fst s)) \<le> length (sm_channels (fst s')) \<and>
     (\<forall>p k. k < length (sm_channels (fst s)) \<longrightarrow> sm_projects (fst s') p = Some k \<longrightarrow> sm_projects (fst s) p = Some k \<and>
        (ns = [] \<or> 0 < X k \<longrightarrow>
          ch_sent (channel_of (fst s') k) = ch_sent (channel_of (fst s) k) @ filter (\<lambda>n. notif_project n = p) ns)))"

lemma serves_trans: "serves X a ns b \<Longrightarrow> serves X b ms c \<Longrightarrow> serves X a (ns @ ms) c"
  unfolding serves_def by (smt (verit) append_is_Nil_conv append.assoc filter_append order_less_le_trans order_trans)

lemma serves_quiet:
  assumes "account X (m, c) \<Longrightarrow> account X (m', c')" and "length (sm_channels m) \<le> length (sm_channels m')"
    and "\<And>p k. k < length (sm_channels m) \<Longrightarrow> sm_projects m' p = Some k \<Longrightarrow> sm_projects m p = Some k"
    and "\<And>k. ch_sent (channel_of m' k) = ch_sent (channel_of m k)"
  shows "serves X (m, c) [] (m', c')"
  using assms by (auto simp: serves_def)

lemma serves_same [simp]: "serves X s [] s"
  by (cases s) (auto intro: serves_quiet)

lemma serves_publish: "serves X (m, c) ns (publish_all ns m, c)"
proof -
  have ok: "manager_ok m \<Longrightarrow> manager_ok (publish_all ns m)"
    unfolding publish_all_def by (induction ns arbitrary: m) (auto intro: broadcast_ok)
  have same: "sm_projects (publish_all ns m) = sm_projects m \<and> length (sm_channels (publish_all ns m)) = length (sm_channels m)"
    unfolding publish_all_def
  proof (induction ns arbitrary: m)
    case (Cons n ns)
    have "sm_projects (snd (broadcast n m)) = sm_projects m \<and> length (sm_channels (snd (broadcast n m))) = length (sm_channels m)"
      by (auto simp: broadcast_def split: option.split)
    with Cons show ?case by simp
  qed simp
  have "ch_sent (channel_of (publish_all ns m) k) = ch_sent (channel_of m k) @ filter (\<lambda>n. notif_project n = p) ns"
    if "account X (m, c)" "sm_projects m p = Some k" "ns = [] \<or> 0 < X k" for p k
  proof (cases "ns = []")
    case False
    have "X k + held k c \<le> ch_receivers (channel_of m k)" using that(1) by (simp add: account_def)
    then have "0 < ch_receivers (channel_of m k)" using that(3) False by simp
    then show ?thesis using that(1,2) by (intro sent_publish) (simp_all add: account_def)
  qed (simp add: publish_all_def)
  then show ?thesis using ok same by (auto simp: serves_def account_def receivers_publish)
qed

subsection \<open>What the steps of a connection do\<close>

lemma channels_kept [simp]:
  "length (sm_channels (drop_receiver r m)) = length (sm_channels m)" "sm_projects (drop_receiver r m) = sm_projects m"
  "length (sm_channels (drop_project_receivers pid c m)) = length (sm_channels m)"
  "sm_projects (drop_project_receivers pid c m) = sm_projects m"
  "length (sm_channels (fold (\<lambda>(_, r). drop_receiver r) c m)) = length (sm_channels m)"
  "sm_projects (fold (\<lambda>(_, r). drop_receiver r) c m) = sm_projects m"
proof -
  have 1: "length (sm_channels (drop_receiver r m)) = length (sm_channels m) \<and> sm_projects (drop_receiver r m) = sm_projects m" for r m
    by (simp add: drop_receiver_def Let_def)
  then show "length (sm_channels (drop_receiver r m)) = length (sm_channels m)" "sm_projects (drop_receiver r m) = sm_projects m" by blast+
  show "length (sm_channels (drop_project_receivers pid c m)) = length (sm_channels m)"
    "sm_projects (drop_project_receivers pid c m) = sm_projects m"
    unfolding drop_project_receivers_def by (induction c arbitrary: m) (auto simp: 1)
  show "length (sm_channels (fold (\<lambda>(_, r). drop_receiver r) c m)) = length (sm_channels m)"
    "sm_projects (fold (\<lambda>(_, r). drop_receiver r) c m) = sm_projects m"
    by (induction c arbitrary: m) (auto simp: 1)
qed

lemma manager_drop:
  "manager_ok m \<Longrightarrow> manager_ok (drop_receiver r m)"
  "manager_ok m \<Longrightarrow> manager_ok (drop_project_receivers pid c m)"
  "manager_ok m \<Longrightarrow> manager_ok (fold (\<lambda>(_, r). drop_receiver r) c m)"
proof -
  have 1: "manager_ok m \<Longrightarrow> manager_ok (drop_receiver r m)" for r m
    by (auto simp: manager_ok_def drop_receiver_def set_channel_def channel_of_def nth_list_update list_update_beyond Let_def)
  then show "manager_ok m \<Longrightarrow> manager_ok (drop_receiver r m)" .
  show "manager_ok m \<Longrightarrow> manager_ok (drop_project_receivers pid c m)"
    unfolding drop_project_receivers_def by (induction c arbitrary: m) (auto simp: 1)
  show "manager_ok m \<Longrightarrow> manager_ok (fold (\<lambda>(_, r). drop_receiver r) c m)"
    by (induction c arbitrary: m) (auto simp: 1)
qed

text \<open>A subscription replaced: the new receiver for those of the project.\<close>

lemma serves_subscribe:
  assumes "subscribe pid m = (r, m1)"
  shows "serves X (m, c) [] (drop_project_receivers pid c m1, add_subscription pid r c)"
proof (rule serves_quiet)
  have m1: "m1 = snd (subscribe pid m)" by (simp add: assms)
  obtain i m2 where e: "ensure_channel pid m = (i, m2)" by force
  have chans: "length (sm_channels m1) = length (sm_channels m2)" "sm_projects m1 = sm_projects m2"
    using assms by (auto simp: subscribe_def e Let_def)
  show "length (sm_channels m) \<le> length (sm_channels (drop_project_receivers pid c m1))"
    using e by (auto simp: chans ensure_channel_def Let_def split: option.splits)
  show "k < length (sm_channels m) \<Longrightarrow> sm_projects (drop_project_receivers pid c m1) p = Some k \<Longrightarrow> sm_projects m p = Some k" for p k
    using e by (auto simp: chans ensure_channel_def Let_def split: option.splits if_splits)
  show "ch_sent (channel_of (drop_project_receivers pid c m1) k) = ch_sent (channel_of m k)" for k by (simp add: m1)
  assume a: "account X (m, c)"
  have "held k (add_subscription pid r c) + X k \<le> ch_receivers (channel_of (drop_project_receivers pid c m1) k)" for k
  proof -
    have "X k + held k c \<le> ch_receivers (channel_of m k)" "distinct (map fst c)" "manager_ok m" using a by (simp_all add: account_def)
    moreover have "held k c = held k (filter (\<lambda>(p, _). p = pid) c) + held k (filter (\<lambda>(p, _). p \<noteq> pid) c)"
      using held_split[of k c "\<lambda>(p, _). p = pid"] by (simp add: case_prod_unfold)
    ultimately show ?thesis
      using receivers_subscribe[OF _ assms, of k] by (auto simp: receivers_drop_project add_subscription_def held_upsert)
  qed
  moreover have "manager_ok m1" using subscribe_ok[of m pid] a by (simp add: m1 account_def)
  ultimately show "account X (drop_project_receivers pid c m1, add_subscription pid r c)"
    using a by (auto simp: account_def manager_drop add_subscription_def upsert_distinct add.commute)
qed

lemma serves_remove:
  "serves X (m, c) [] (drop_project_receivers pid c m, snd (remove_subscription pid c))"
proof (rule serves_quiet)
  assume a: "account X (m, c)"
  have "X k + held k (filter (\<lambda>(p, _). p \<noteq> pid) c) \<le> ch_receivers (channel_of m k) - held k (filter (\<lambda>(p, _). p = pid) c)" for k
  proof -
    have "X k + held k c \<le> ch_receivers (channel_of m k)" using a by (simp add: account_def)
    moreover have "held k c = held k (filter (\<lambda>(p, _). p = pid) c) + held k (filter (\<lambda>(p, _). p \<noteq> pid) c)"
      using held_split[of k c "\<lambda>(p, _). p = pid"] by (simp add: case_prod_unfold)
    ultimately show ?thesis by linarith
  qed
  then show "account X (drop_project_receivers pid c m, snd (remove_subscription pid c))"
    using a by (auto simp: account_def manager_drop remove_subscription_def receivers_drop_project distinct_map_filter)
qed simp_all

lemma serves_unsubscribe: "serves X (m, c) [] (unsubscribe pid m, c)"
proof (rule serves_quiet)
  show "account X (m, c) \<Longrightarrow> account X (unsubscribe pid m, c)"
    by (auto simp: account_def unsubscribe_ok receivers_unsubscribe)
  show "length (sm_channels m) \<le> length (sm_channels (unsubscribe pid m))"
    by (auto simp: unsubscribe_def close_channel_def Let_def split: option.split)
  show "sm_projects (unsubscribe pid m) p = Some k \<Longrightarrow> sm_projects m p = Some k" for p k
    by (auto simp: unsubscribe_def close_channel_def Let_def split: option.splits if_splits)
qed simp

text \<open>Receiving moves positions only.\<close>

definition same_links :: "conn_state \<Rightarrow> conn_state \<Rightarrow> bool" where
  "same_links c c' \<longleftrightarrow> map (\<lambda>(p, r). (p, fst r)) c' = map (\<lambda>(p, r). (p, fst r)) c"

lemma same_links_held: "same_links c c' \<Longrightarrow> held k c' = held k c \<and> map fst c' = map fst c"
proof -
  have h: "held k c = length (filter (\<lambda>(_, i). i = k) (map (\<lambda>(p, r). (p, fst r)) c))" for c
    by (induction c) auto
  have f: "map fst c = map fst (map (\<lambda>(p, r). (p, fst r)) c)" for c by (simp add: case_prod_unfold)
  show "same_links c c' \<Longrightarrow> ?thesis" unfolding same_links_def h using f by metis
qed

lemma serves_links: "same_links c c' \<Longrightarrow> serves X (m, c) [] (m, c')"
  using same_links_held by (intro serves_quiet) (auto simp: account_def)

lemma poll_subs_same: "poll_subs m c = (ns, c', closed) \<Longrightarrow> same_links c c'"
proof (induction m c arbitrary: ns c' closed rule: poll_subs.induct)
  case (2 m pid r c)
  obtain res r' where rec: "receive r m = (res, r')" by (cases "receive r m")
  then have "fst r' = fst r" by (auto simp: receive_def split: prod.splits)
  obtain ns1 c1 closed1 where rest: "poll_subs m c = (ns1, c1, closed1)" by (metis prod_cases3)
  show ?case
  proof (cases "res = Closed")
    case True
    then show ?thesis using "2.prems" rec by (simp add: same_links_def)
  next
    case False
    then have "same_links c c1" using "2.IH" rec rest by (cases res) auto
    then show ?thesis using "2.prems" False rec rest \<open>fst r' = fst r\<close> by (cases res) (auto simp: same_links_def)
  qed
qed (simp add: same_links_def)

lemma serves_poll:
  assumes "poll_round (st, c) = (ns, st', c')"
  shows "serves X (ss_subscriptions st, c) [] (ss_subscriptions st', c')"
proof -
  obtain ns1 c1 closed where p: "poll_subs (ss_subscriptions st) c = (ns1, c1, closed)" by (metis prod_cases3)
  note moved = serves_links[OF poll_subs_same[OF p], of X "ss_subscriptions st"]
  show ?thesis
  proof (cases closed)
    case None
    then show ?thesis using assms moved p by (auto simp: poll_round_def)
  next
    case (Some pid)
    then have "ss_subscriptions st' = drop_project_receivers pid c1 (ss_subscriptions st)"
      "c' = snd (remove_subscription pid c1)" using assms p by (auto simp: poll_round_def)
    then show ?thesis using serves_trans[OF moved serves_remove] by simp
  qed
qed

text \<open>An attribution publishes its event, and no other request publishes anything.\<close>

lemma attribute_publishes:
  assumes "holds_log (en_fmt en) T (ss_db st) L" and "en_store_opens en" and "en_now en \<in> T"
    and "key_seq (ss_db st) + int (length (attributed_in en (ss_machine_id st) rq)) \<le> max_i64"
  shows "ss_subscriptions (snd (handle_attribute en rq st))
    = publish_all (map NEvent (attributed_in en (ss_machine_id st) rq)) (ss_subscriptions st)"
proof (cases rule: attribution_cases[of en st rq])
  case 1
  then show ?thesis by (simp add: publish_all_def)
next
  case (2 e)
  then have "ev_timestamp e \<in> T" "key_seq (ss_db st) < max_i64" using assms(3,4) by simp_all
  from store_event_appends[OF assms(1,2) this] obtain i st' where
    1: "store_event en e st = (Inr i, st')" "ss_subscriptions st' = ss_subscriptions st" by metis
  have "snd (handle_attribute en rq st) = publish (NEvent e) st'" by (rule 2(3)[OF 1(1)])
  then show ?thesis unfolding 2(1) by (simp add: publish_def publish_all_def 1(2))
qed

definition delivers :: "(nat \<Rightarrow> nat) \<Rightarrow> server_state \<times> conn_state \<Rightarrow> file_event list \<Rightarrow> server_state \<times> conn_state \<Rightarrow> bool" where
  "delivers X s es s' \<longleftrightarrow>
     serves X (ss_subscriptions (fst s), snd s) (map NEvent es) (ss_subscriptions (fst s'), snd s') \<and> ss_trees (fst s') = ss_trees (fst s)"

lemma delivers_trans: "delivers X a es b \<Longrightarrow> delivers X b fs c \<Longrightarrow> delivers X a (es @ fs) c"
  by (auto simp: delivers_def intro: serves_trans)

lemma delivers_quiet:
  "serves X (ss_subscriptions st, c) [] (ss_subscriptions st', c') \<Longrightarrow> ss_trees st' = ss_trees st \<Longrightarrow> delivers X (st, c) [] (st', c')"
  by (simp add: delivers_def)

lemma delivers_same: "ss_subscriptions st' = ss_subscriptions st \<Longrightarrow> ss_trees st' = ss_trees st \<Longrightarrow> delivers X (st, c) [] (st', c)"
  by (simp add: delivers_def)

lemma build_awareness_trees: "ss_trees (snd (build_awareness en pid path st)) = ss_trees st"
proof -
  obtain r st1 where 1: "read_store en (store_get_latest (en_order en) (en_parse en) pid path) st = (r, st1)" by force
  have "ss_trees st1 = ss_trees st"
    using read_store_fields(3)[of en "store_get_latest (en_order en) (en_parse en) pid path" st] by (simp add: 1)
  then show ?thesis
    by (auto simp: build_awareness_def 1 read_cache_def Let_def split: sum.split option.split if_splits)
qed

text \<open>No request changes a tree.\<close>

lemma handlers_trees:
  "ss_trees (snd (handle_query_events en rq st)) = ss_trees st"
  "ss_trees (snd (handle_query_awareness en rq st)) = ss_trees st"
  "ss_trees (snd (handle_watch_project en rq st)) = ss_trees st"
  "ss_trees (snd (handle_unwatch_project en rq st)) = ss_trees st"
  "ss_trees (snd (handle_watch_agents en rq st)) = ss_trees st"
  "ss_trees (snd (handle_unwatch_agents rq st)) = ss_trees st"
  "ss_trees (snd (handle_query_agents en rq st)) = ss_trees st"
  "ss_trees (snd (handle_query_tree rq st)) = ss_trees st"
  "ss_trees (snd (handle_report_agent_activity en rq st)) = ss_trees st"
  "ss_trees (snd (handle_attribute en rq st)) = ss_trees st"
proof -
  note defs = reply_def refuse_def with_str_def with_project_id_def Let_def
  have query: "ss_trees st' = ss_trees st" if "read_store en (store_query od f p flt) st = (r, st')" for od f p flt r st'
    using read_store_fields(3)[of en "store_query od f p flt" st] that by simp
  show "ss_trees (snd (handle_query_events en rq st)) = ss_trees st"
    by (auto simp: handle_query_events_def defs dest: query split: option.split params.split sum.split prod.split)
  show "ss_trees (snd (handle_query_awareness en rq st)) = ss_trees st"
    using build_awareness_trees[of en _ _ st]
    by (auto simp: handle_query_awareness_def defs split_beta split: option.split)
  show "ss_trees (snd (handle_watch_project en rq st)) = ss_trees st"
    by (auto simp: handle_watch_project_def defs add_watcher_def add_project_def split: option.split sum.split prod.split)
  show "ss_trees (snd (handle_unwatch_project en rq st)) = ss_trees st"
    by (auto simp: handle_unwatch_project_def defs remove_watcher_def remove_project_def split: option.split)
  show "ss_trees (snd (handle_watch_agents en rq st)) = ss_trees st"
    by (auto simp: handle_watch_agents_def defs add_project_def split: option.split)
  show "ss_trees (snd (handle_unwatch_agents rq st)) = ss_trees st"
    by (auto simp: handle_unwatch_agents_def defs remove_project_def split: option.split)
  show "ss_trees (snd (handle_query_agents en rq st)) = ss_trees st" by (simp add: handle_query_agents_def defs)
  show "ss_trees (snd (handle_query_tree rq st)) = ss_trees st"
    by (auto simp: handle_query_tree_def defs split: option.split)
  show "ss_trees (snd (handle_report_agent_activity en rq st)) = ss_trees st"
    by (auto simp: handle_report_agent_activity_def defs split: option.split sum.split)
  have "ss_trees (snd (store_event en e st)) = ss_trees st" for e by (simp add: store_event_def)
  then have "ss_trees st' = ss_trees st" if "store_event en e st = (r, st')" for e r st' using that by (metis snd_conv)
  then show "ss_trees (snd (handle_attribute en rq st)) = ss_trees st"
    by (auto simp: handle_attribute_def with_str_def reply_def refuse_def publish_def Let_def
        split: option.split sum.split prod.split)
qed

lemma request_delivers:
  assumes "holds_log (en_fmt en) T (ss_db st) L" and "en_store_opens en" and "en_now en \<in> T"
    and "key_seq (ss_db st) + int (length (if rq_method rq = ''attribute'' then attributed_in en (ss_machine_id st) rq else [])) \<le> max_i64"
    and "handle_request en rq (st, c) = (a, st', c')"
  shows "delivers X (st, c) (if rq_method rq = ''attribute'' then attributed_in en (ss_machine_id st) rq else []) (st', c')"
proof (cases "method_from_str (rq_method rq)")
  case (Inl e)
  then have "rq_method rq \<noteq> ''attribute''" by (auto simp: method_from_str_def)
  then show ?thesis using Inl assms(5) by (simp add: handle_request_def refuse_def delivers_def)
next
  case (Inr m)
  then have attr: "rq_method rq = ''attribute'' \<longleftrightarrow> m = Attribute" by (auto simp: method_from_str_def split: if_splits)
  consider "m = Subscribe" | "m = Unsubscribe" | "m = Attribute" | "m \<notin> {Subscribe, Unsubscribe, Attribute}" by blast
  then show ?thesis
  proof cases
    case 1
    have h: "handle_subscribe rq (st, c) = (a, st', c')" using assms(5) Inr 1 by (simp add: handle_request_def)
    have "serves X (m, c) [] (drop_project_receivers pid c (snd (subscribe pid m)), add_subscription pid (fst (subscribe pid m)) c)" for pid m
      by (rule serves_subscribe) simp
    then have "delivers X (st, c) [] (st', c')" using h
      by (auto simp: handle_subscribe_def with_project_id_def refuse_def reply_def split_beta Let_def delivers_def split: option.splits)
    then show ?thesis using 1 attr by simp
  next
    case 2
    have h: "handle_unsubscribe rq (st, c) = (a, st', c')" using assms(5) Inr 2 by (simp add: handle_request_def)
    have "serves X (m, c) [] (unsubscribe pid (drop_project_receivers pid c m), snd (remove_subscription pid c))" for pid m
      using serves_trans[OF serves_remove serves_unsubscribe] by simp
    then have "delivers X (st, c) [] (st', c')" using h
      by (auto simp: handle_unsubscribe_def with_project_id_def refuse_def reply_def Let_def delivers_def split: option.splits)
    then show ?thesis using 2 attr by simp
  next
    case 3
    then have "st' = snd (handle_attribute en rq st)" "c' = c" using assms(5) Inr by (auto simp: handle_request_def lift_handled_def)
    then show ?thesis
      using attribute_publishes[OF assms(1-3)] assms(4) 3 attr serves_publish handlers_trees(10) by (simp add: delivers_def)
  next
    case 4
    then have "ss_subscriptions st' = ss_subscriptions st \<and> c' = c \<and> ss_trees st' = ss_trees st"
      using assms(5) Inr handlers_subs handlers_trees by (cases m) (auto simp: handle_request_def lift_handled_def)
    then show ?thesis using 4 attr by (simp add: delivers_def)
  qed
qed

lemma line_delivers:
  assumes "holds_log (en_fmt en) T (ss_db st) L" and "en_store_opens en" and "en_now en \<in> T"
    and "key_seq (ss_db st) + int (length (attributed_by pj en (ss_machine_id st) l)) \<le> max_i64"
    and "handle_line pj en l (st, c) = (a, st', c')"
  shows "delivers X (st, c) (attributed_by pj en (ss_machine_id st) l) (st', c')"
proof (cases "str_trim l = [] \<or> line_request pj l = None")
  case True
  then have "st' = st \<and> c' = c" using assms(5)
    by (auto simp: handle_line_def line_request_def ok_of_iff Let_def split: if_splits sum.splits prod.splits)
  moreover have "attributed_by pj en (ss_machine_id st) l = []" using True by (auto simp: attributed_by_def)
  ultimately show ?thesis by (simp add: delivers_def)
next
  case False
  then obtain rq where t: "str_trim l \<noteq> []" and rq: "bind_res (pj (str_trim l)) dec_request = Inr rq" "line_request pj l = Some rq"
    by (auto simp: line_request_def ok_of_iff)
  then obtain b where "handle_request en rq (st, c) = (b, st', c')"
    using assms(5) by (auto simp: handle_line_def Let_def split: prod.splits)
  moreover have "attributed_by pj en (ss_machine_id st) l
      = (if rq_method rq = ''attribute'' then attributed_in en (ss_machine_id st) rq else [])"
    using t rq(2) by (simp add: attributed_by_def)
  ultimately show ?thesis using request_delivers[OF assms(1-3), of rq c b st' c' X] assms(4) by simp
qed

lemma serves_hang_up: "serves X (m, c) [] (fold (\<lambda>(_, r). drop_receiver r) c m, [])"
proof (rule serves_quiet)
  assume a: "account X (m, c)"
  have "X k \<le> ch_receivers (channel_of m k) - held k c" for k
  proof -
    have "X k + held k c \<le> ch_receivers (channel_of m k)" using a by (simp add: account_def)
    then show ?thesis by linarith
  qed
  then show "account X (fold (\<lambda>(_, r). drop_receiver r) c m, [])"
    using a by (simp add: account_def manager_drop receivers_drop_all)
qed simp_all

abbreviation still_open :: "conn_state option \<Rightarrow> conn_state" where
  "still_open c \<equiv> (case c of None \<Rightarrow> [] | Some d \<Rightarrow> d)"

lemma poll_round_trees: "poll_round (st, c) = (ns, st', c') \<Longrightarrow> ss_trees st' = ss_trees st"
  by (auto simp: poll_round_def split: prod.splits option.splits)

lemma connection_line_delivers:
  assumes "holds_log (en_fmt en) T (ss_db st) L" and "en_store_opens en" and "en_now en \<in> T"
    and "key_seq (ss_db st) + int (length (attributed_by pj en (ss_machine_id st) l)) \<le> max_i64"
    and "connection_line pj en l (st, c) = (ws, st', c')"
  shows "delivers X (st, c) (attributed_by pj en (ss_machine_id st) l) (st', still_open c')"
proof -
  obtain ns st1 c1 where 1: "poll_round (st, c) = (ns, st1, c1)" by (metis prod_cases3)
  obtain a st2 c2 where 2: "handle_line pj en l (st1, c1) = (a, st2, c2)" by (metis prod_cases3)
  have k: "holds_log (en_fmt en) T (ss_db st1) L" "key_seq (ss_db st1) = key_seq (ss_db st)" "ss_machine_id st1 = ss_machine_id st"
    using poll_round_log[OF 1] assms(1) holds_log_events[of "ss_db st1" "ss_db st"] by (auto simp: same_log_def)
  have "delivers X (st, c) [] (st1, c1)" using serves_poll[OF 1] poll_round_trees[OF 1] by (rule delivers_quiet)
  moreover have "delivers X (st1, c1) (attributed_by pj en (ss_machine_id st) l) (st2, c2)"
    using line_delivers[OF k(1) assms(2,3) _ 2, of X] assms(4) by (simp add: k)
  ultimately have two: "delivers X (st, c) (attributed_by pj en (ss_machine_id st) l) (st2, c2)"
    using delivers_trans by fastforce
  have "delivers X (st2, c2) [] (drop_connection c2 st2, [])" by (simp add: delivers_def drop_connection_def serves_hang_up)
  with two have "delivers X (st, c) (attributed_by pj en (ss_machine_id st) l) (drop_connection c2 st2, [])"
    using delivers_trans by fastforce
  with two show ?thesis using assms(5) by (auto simp: connection_line_def 1 2 Let_def split: option.splits)
qed

text \<open>A line that asks for no subscription and ends none: the connection keeps what it holds, and hears of what it attributes.\<close>

definition leaves_subscriptions :: "(string \<Rightarrow> string + json) \<Rightarrow> string \<Rightarrow> bool" where
  "leaves_subscriptions pj l \<longleftrightarrow>
     (case (if str_trim l = [] then None else line_request pj l) of
        None \<Rightarrow> True | Some rq \<Rightarrow> rq_method rq \<notin> {''subscribe'', ''unsubscribe''})"

lemma line_leaves:
  assumes "leaves_subscriptions pj l" and "handle_line pj en l (st, c) = (a, st', c')"
  shows "c' = c" and "handle_line pj en l (st, d) = (a, st', d)"
proof -
  have request: "fst (handle_request en rq (st, d)) = fst (handle_request en rq (st, c)) \<and>
      fst (snd (handle_request en rq (st, d))) = fst (snd (handle_request en rq (st, c))) \<and> snd (snd (handle_request en rq (st, d))) = d"
    if "rq_method rq \<notin> {''subscribe'', ''unsubscribe''}" for rq c d
  proof (cases "method_from_str (rq_method rq)")
    case (Inl e)
    then show ?thesis by (simp add: handle_request_def refuse_def)
  next
    case (Inr m)
    then have "m \<notin> {Subscribe, Unsubscribe}" using that by (auto simp: method_from_str_def split: if_splits)
    then show ?thesis using Inr by (cases m) (simp_all add: handle_request_def lift_handled_def split_beta)
  qed
  have *: "fst (handle_line pj en l (st, d)) = fst (handle_line pj en l (st, c)) \<and>
      fst (snd (handle_line pj en l (st, d))) = fst (snd (handle_line pj en l (st, c))) \<and> snd (snd (handle_line pj en l (st, d))) = d" for c d
    using assms(1) request by (auto simp: handle_line_def leaves_subscriptions_def line_request_def ok_of_iff Let_def split_beta split: sum.split option.splits if_splits)
  show "c' = c" using *[of c c] assms(2) by simp
  show "handle_line pj en l (st, d) = (a, st', d)" using *[of d c] assms(2) by (simp add: prod_eq_iff)
qed

lemma own_line_sent:
  assumes "holds_log (en_fmt en) T (ss_db st) L" and "en_store_opens en" and "en_now en \<in> T"
    and "key_seq (ss_db st) + int (length (attributed_by pj en (ss_machine_id st) l)) \<le> max_i64"
    and "connection_line pj en l (st, c) = (ws, st', Some c')" and "leaves_subscriptions pj l"
    and "account X (ss_subscriptions st, c)" and "(p, (k, pos)) \<in> set c'"
    and "k < length (sm_channels (ss_subscriptions st))" and "sm_projects (ss_subscriptions st') p = Some k"
  shows "ch_sent (channel_of (ss_subscriptions st') k) = ch_sent (channel_of (ss_subscriptions st) k)
    @ filter (\<lambda>n. notif_project n = p) (map NEvent (attributed_by pj en (ss_machine_id st) l))"
proof -
  obtain ns st1 c1 where 1: "poll_round (st, c) = (ns, st1, c1)" by (metis prod_cases3)
  obtain a st2 c2 where 2: "handle_line pj en l (st1, c1) = (a, st2, c2)" by (metis prod_cases3)
  have eq: "st' = st2" "c' = c1" using assms(5) line_leaves(1)[OF assms(6) 2] by (auto simp: connection_line_def 1 2 Let_def split: option.splits)
  have k: "holds_log (en_fmt en) T (ss_db st1) L" "key_seq (ss_db st1) = key_seq (ss_db st)" "ss_machine_id st1 = ss_machine_id st"
    using poll_round_log[OF 1] assms(1) holds_log_events[of "ss_db st1" "ss_db st"] by (auto simp: same_log_def)
  note round = serves_poll[OF 1, of X, unfolded serves_def, THEN mp, OF assms(7)]
  let ?X = "\<lambda>k. X k + held k c1"
  have "delivers ?X (st1, []) (attributed_by pj en (ss_machine_id st) l) (st2, [])"
    using line_delivers[OF k(1) assms(2,3) _ line_leaves(2)[OF assms(6) 2], of ?X] assms(4) by (simp add: k)
  moreover have "account ?X (ss_subscriptions st1, [])" using round by (simp add: account_def)
  ultimately have told: "\<forall>p k. k < length (sm_channels (ss_subscriptions st1)) \<longrightarrow> sm_projects (ss_subscriptions st2) p = Some k \<longrightarrow>
      sm_projects (ss_subscriptions st1) p = Some k \<and> (0 < ?X k \<longrightarrow> ch_sent (channel_of (ss_subscriptions st2) k)
        = ch_sent (channel_of (ss_subscriptions st1) k) @ filter (\<lambda>n. notif_project n = p) (map NEvent (attributed_by pj en (ss_machine_id st) l)))"
    by (auto simp: delivers_def serves_def)
  have "0 < ?X k" using held_entry[OF assms(8)] eq by simp
  moreover have "k < length (sm_channels (ss_subscriptions st1))" using round assms(9) by simp
  moreover have "sm_projects (ss_subscriptions st2) p = Some k" using assms(10) by (simp add: eq)
  ultimately have "sm_projects (ss_subscriptions st1) p = Some k"
    and sent: "ch_sent (channel_of (ss_subscriptions st2) k) = ch_sent (channel_of (ss_subscriptions st1) k)
      @ filter (\<lambda>n. notif_project n = p) (map NEvent (attributed_by pj en (ss_machine_id st) l))"
    using told[THEN spec, THEN spec, of k p] by simp_all
  moreover from this(1) have "ch_sent (channel_of (ss_subscriptions st1) k) = ch_sent (channel_of (ss_subscriptions st) k)"
    using round assms(9) by simp
  ultimately show ?thesis by (simp only: eq)
qed

subsection \<open>Trees and their patches\<close>

text \<open>What a client does with a patch of the tree it holds: the operation that the server did.\<close>

fun apply_patch :: "(string \<Rightarrow> string) \<Rightarrow> tree_patch \<Rightarrow> tree_node \<Rightarrow> tree_node" where
  "apply_patch lc (PatchAdd p d) t = snd (add_node lc t p d)"
| "apply_patch lc (PatchRemove p) t = snd (remove_node t p)"
| "apply_patch lc (PatchRename old new d) t = snd (rename_node lc t old new d)"

definition patches_in :: "string \<Rightarrow> notif list \<Rightarrow> tree_patch list" where
  "patches_in pid ns = concat (map (\<lambda>n. case n of NTreePatch q p \<Rightarrow> if q = pid then [p] else [] | _ \<Rightarrow> []) ns)"

definition replay :: "(string \<Rightarrow> string) \<Rightarrow> string \<Rightarrow> notif list \<Rightarrow> tree_node \<Rightarrow> tree_node" where
  "replay lc pid ns t = fold (apply_patch lc) (patches_in pid ns) t"

lemma replay_append: "replay lc pid (ns @ ms) t = replay lc pid ms (replay lc pid ns t)"
  by (simp add: replay_def patches_in_def)

lemma replay_events [simp]: "replay lc pid (map NEvent es) t = t"
  by (induction es) (simp_all add: replay_def patches_in_def)

lemma replace_child_same: "child_named name cs = Some c \<Longrightarrow> replace_child name c cs = cs"
  by (induction cs) (auto simp: child_named_def)

lemma add_rec_refused: "\<not> fst (add_node_recursive lc t ps fp d) \<Longrightarrow> snd (add_node_recursive lc t ps fp d) = t"
proof (induction lc t ps fp d rule: add_node_recursive.induct)
  case (2 lc n p d cs name rest fp dd)
  show ?case
  proof (cases "child_named name cs")
    case None
    have "fst (add_node_recursive lc (tree_dir name (build_path fp (length (name # rest)))) rest fp dd)" if "rest \<noteq> []"
      using add_rec_result[OF that] that by (simp add: lookup_leaf)
    then show ?thesis using "2.prems" None by (auto simp: split_beta Let_def split: if_splits)
  next
    case (Some c)
    then show ?thesis using 2 by (auto simp: split_beta Let_def replace_child_same split: if_splits)
  qed
qed simp

lemma remove_rec_refused: "\<not> fst (remove_node_recursive t ps) \<Longrightarrow> snd (remove_node_recursive t ps) = t"
proof (induction t ps rule: remove_node_recursive.induct)
  case (2 n p d cs name rest)
  show ?case
  proof (cases "rest = []")
    case True
    then have "length (filter (\<lambda>c. tn_name c \<noteq> name) cs) = length cs"
      using "2.prems" length_filter_le[of "\<lambda>c. tn_name c \<noteq> name" cs] by (simp add: Let_def)
    then have "filter (\<lambda>c. tn_name c \<noteq> name) cs = cs" by (metis filter_id_conv length_filter_less less_irrefl)
    then show ?thesis using True by (simp add: Let_def)
  next
    case False
    then show ?thesis using 2 by (auto simp: split_beta replace_child_same split: option.splits)
  qed
qed simp

text \<open>Without renames, the patches of the events tell the whole change of a tree.\<close>

lemma apply_event_replayed:
  assumes "ev_type e \<noteq> Renamed"
  shows "pt_root (snd (apply_event lc t e)) = replay lc pid (case fst (apply_event lc t e) of None \<Rightarrow> [] | Some p \<Rightarrow> [NTreePatch pid p]) (pt_root t)"
proof (cases "ev_type e")
  case Created
  then show ?thesis using add_rec_refused
    by (auto simp: apply_event_def split_beta Let_def replay_def patches_in_def add_node_def)
next
  case Deleted
  then show ?thesis using remove_rec_refused
    by (auto simp: apply_event_def split_beta Let_def replay_def patches_in_def remove_node_def)
qed (use assms in \<open>auto simp: apply_event_def replay_def patches_in_def\<close>)

subsection \<open>What the daemon tells\<close>

text \<open>The notifications \<open>ns\<close> are all that was published, and they tell how each tree that was there changed.\<close>

definition tells :: "(string \<Rightarrow> string) \<Rightarrow> server_state \<Rightarrow> notif list \<Rightarrow> server_state \<Rightarrow> bool" where
  "tells lc st ns st' \<longleftrightarrow> ss_subscriptions st' = publish_all ns (ss_subscriptions st) \<and>
     (\<forall>p t. ss_trees st p = Some t \<longrightarrow> (\<exists>t'. ss_trees st' p = Some t' \<and> pt_root t' = replay lc p ns (pt_root t)))"

lemma tells_trans: "tells lc a ns b \<Longrightarrow> tells lc b ms c \<Longrightarrow> tells lc a (ns @ ms) c"
  by (fastforce simp: tells_def publish_all_def replay_append)

lemma tells_nothing: "ss_subscriptions st' = ss_subscriptions st \<Longrightarrow> ss_trees st' = ss_trees st \<Longrightarrow> tells lc st [] st'"
  by (simp add: tells_def publish_all_def replay_def patches_in_def)

lemma tells_publish: "(\<And>p q. n \<noteq> NTreePatch p q) \<Longrightarrow> tells lc st [n] (publish n st)"
  by (cases n) (auto simp: tells_def publish_def publish_all_def replay_def patches_in_def)

lemma update_tree_tells:
  assumes "ev_type e \<noteq> Renamed"
  shows "\<exists>ns. tells (de_lower de) st ns (update_tree de e st) \<and> events_in ns = []"
proof (cases "ss_trees st (ev_project_id e)")
  case None
  then show ?thesis by (intro exI[of _ "[]"]) (simp add: update_tree_def tells_nothing events_in_def)
next
  case (Some t)
  let ?r = "apply_event (de_lower de) t e"
  let ?ns = "case fst ?r of None \<Rightarrow> [] | Some p \<Rightarrow> [NTreePatch (ev_project_id e) p]"
  have other: "replay lc q ?ns u = u" if "q \<noteq> ev_project_id e" for lc q u
    using that by (auto simp: replay_def patches_in_def split: option.split)
  have "tells (de_lower de) st ?ns (update_tree de e st)"
    using Some other apply_event_replayed[OF assms, of "de_lower de" t "ev_project_id e"]
    by (auto simp: tells_def update_tree_def add_tree_def publish_def publish_all_def split_beta Let_def split: option.splits)
  moreover have "events_in ?ns = []" by (cases "fst ?r") (simp_all add: events_in_def)
  ultimately show ?thesis by blast
qed

lemma handle_event_tells:
  assumes "ev_type e \<noteq> Renamed" and "handle_event en de e d = (rec, d')"
  shows "\<exists>ns. tells (de_lower de) (dm_state d) ns (dm_state d') \<and> events_in ns = rec"
proof (cases "dm_running d")
  case False
  then show ?thesis using assms(2) by (intro exI[of _ "[]"]) (simp add: handle_event_def tells_nothing events_in_def)
next
  case True
  let ?r = "resolve en de (dm_state d) e"
  let ?st1 = "persist en ?r (dm_state d)"
  let ?st2 = "publish (NEvent ?r) ?st1"
  have "ev_type ?r \<noteq> Renamed" using assms(1) by (auto simp: resolve_def Let_def split: option.split)
  then obtain ns where ns: "tells (de_lower de) ?st2 ns (update_tree de ?r ?st2)" "events_in ns = []"
    using update_tree_tells by blast
  have "tells (de_lower de) (dm_state d) [] ?st1" by (rule tells_nothing) (simp_all add: persist_def)
  moreover have "tells (de_lower de) ?st1 [NEvent ?r] ?st2" by (rule tells_publish) simp
  ultimately have "tells (de_lower de) (dm_state d) (([] @ [NEvent ?r]) @ ns) (update_tree de ?r ?st2)"
    using ns(1) tells_trans by blast
  moreover have "events_in (([] @ [NEvent ?r]) @ ns) = [?r]" using ns(2) by (simp add: events_in_def)
  moreover have "rec = [?r]" "dm_state d' = update_tree de ?r ?st2" using assms(2) True by (auto simp: handle_event_def Let_def)
  ultimately show ?thesis by auto
qed

definition no_renames :: "daemon \<Rightarrow> bool" where
  "no_renames d \<longleftrightarrow> (\<forall>e \<in> set (dm_queue d). ev_type e \<noteq> Renamed)"

text \<open>An operation that registers or forgets a project, and with it a tree.\<close>

definition changes_projects :: "daemon_op \<Rightarrow> bool" where
  "changes_projects op \<longleftrightarrow> op \<in> range OpWatch \<union> range OpUnwatch"

lemma daemon_step_tells:
  assumes "no_renames d" and "daemon_step de (en, op) d = (sent, rec, d')"
  shows "no_renames d' \<and> (\<exists>ns. ss_subscriptions (dm_state d') = publish_all ns (ss_subscriptions (dm_state d)) \<and>
    events_in ns = rec \<and> (\<not> changes_projects op \<longrightarrow> tells (de_lower de) (dm_state d) ns (dm_state d')))"
proof (cases op)
  case (OpNotify res)
  have "ev_type e \<noteq> Renamed" if "(ch, e) \<in> set (fst (handle_events b dk now r w))" for ch e b dk now r w
  proof -
    obtain h kind paths at where "e \<in> set (fst (handle_paths b dk now h kind paths at))"
      using \<open>(ch, e) \<in> _\<close> by (auto simp: handle_events_def Let_def split_beta split: option.splits sum.splits)
    then obtain p at at' where "handle_path b dk now h kind p at = (Some e, at')" using handle_paths_mem by blast
    then have "type_of_kind kind = Some (ev_type e)" using handle_path_cases by fastforce
    then show ?thesis by (cases kind) auto
  qed
  then have "no_renames d'" "rec = []" "dm_state d' = dm_state d"
    using assms OpNotify by (auto simp: no_renames_def Let_def split: prod.splits) (metis fst_conv)+
  then show ?thesis using tells_nothing[of "dm_state d" "dm_state d"]
    by (intro conjI exI[of _ "[]"]) (simp_all add: events_in_def publish_all_def)
next
  case OpHandle
  show ?thesis
  proof (cases "dm_queue d")
    case Nil
    then show ?thesis using assms OpHandle tells_nothing[of "dm_state d" "dm_state d"]
      by (intro conjI exI[of _ "[]"]) (simp_all add: events_in_def publish_all_def)
  next
    case (Cons e es)
    then obtain r d1 where h: "handle_event en de e (d\<lparr>dm_queue := es\<rparr>) = (r, d1)" "rec = r" "d' = d1"
      using assms(2) OpHandle by (auto simp: Let_def split: prod.splits)
    have "ev_type e \<noteq> Renamed" using assms(1) Cons by (simp add: no_renames_def)
    from handle_event_tells[OF this h(1)] have "\<exists>ns. tells (de_lower de) (dm_state d) ns (dm_state d') \<and> events_in ns = rec"
      by (simp add: h)
    moreover have "dm_queue d1 = es" using h(1) by (auto simp: handle_event_def Let_def split: if_splits)
    ultimately show ?thesis using assms(1) Cons h(3) by (auto simp: no_renames_def tells_def)
  qed
next
  case (OpTask n)
  show ?thesis
  proof (cases "n < length (dm_tasks d)")
    case False
    then show ?thesis using assms OpTask tells_nothing[of "dm_state d" "dm_state d"]
      by (intro conjI exI[of _ "[]"]) (simp_all add: events_in_def publish_all_def)
  next
    case True
    obtain e root where t: "dm_tasks d ! n = (e, root)" by force
    let ?st = "do_analyze en (de_analysis de) (dm_pipeline d) e root (dm_state d)"
    have d': "dm_state d' = ?st" "dm_queue d' = dm_queue d" "rec = []" using assms(2) OpTask True t by auto
    obtain ns where "ss_subscriptions ?st = publish_all ns (ss_subscriptions (dm_state d))" "events_in ns = []" "\<forall>p. patches_in p ns = []"
      using do_analyze_publishes[of en "de_analysis de" "dm_pipeline d" e root "dm_state d"] by (auto simp: events_in_def patches_in_def)
    moreover have "ss_trees ?st = ss_trees (dm_state d)"
      using do_analyze_same[of "dm_state d" en "de_analysis de" "dm_pipeline d" e root] by (simp add: same_but_cache_def)
    ultimately show ?thesis using assms(1) d' by (auto simp: no_renames_def tells_def replay_def)
  qed
next
  case (OpWatch path)
  then have "ss_subscriptions (dm_state d') = ss_subscriptions (dm_state d)" "dm_queue d' = dm_queue d" "rec = []" "changes_projects op"
    using assms(2) by (auto simp: daemon_watch_project_def add_project_def add_tree_def changes_projects_def Let_def dest!: on_store_subs
        split: sum.splits prod.splits)
  then show ?thesis using assms(1) by (intro conjI exI[of _ "[]"]) (simp_all add: no_renames_def events_in_def publish_all_def)
next
  case (OpUnwatch pid)
  then have "ss_subscriptions (dm_state d') = ss_subscriptions (dm_state d)" "dm_queue d' = dm_queue d" "rec = []" "changes_projects op"
    using assms(2) by (auto simp: daemon_unwatch_project_def remove_project_def remove_tree_def changes_projects_def Let_def dest!: on_store_subs
        split: sum.splits prod.splits option.splits)
  then show ?thesis using assms(1) by (intro conjI exI[of _ "[]"]) (simp_all add: no_renames_def events_in_def publish_all_def)
next
  case (OpQuery pid)
  have "ss_subscriptions st' = ss_subscriptions st \<and> ss_trees st' = ss_trees st" if "read_store en f st = (r, st')"
    for f :: "database \<Rightarrow> store_error + file_event list" and st r st'
    using read_store_fields(1,3)[of en f st] that by simp
  then have "ss_subscriptions (dm_state d') = ss_subscriptions (dm_state d)" "ss_trees (dm_state d') = ss_trees (dm_state d)"
    "dm_queue d' = dm_queue d" "rec = []"
    using assms(2) OpQuery by (auto simp: daemon_query_events_def Let_def split: prod.splits if_splits)
  then show ?thesis using assms(1) tells_nothing
    by (intro conjI exI[of _ "[]"]) (simp_all add: no_renames_def events_in_def publish_all_def)
qed

subsection \<open>A round of a connection that listens\<close>

lemma receive_open:
  assumes "ch_open (channel_of m k)" and "pos \<le> length (ch_sent (channel_of m k))"
    and "length (ch_sent (channel_of m k)) \<le> pos + capacity"
  shows "receive (k, pos) m = (if pos < length (ch_sent (channel_of m k)) then (Got (ch_sent (channel_of m k) ! pos), (k, Suc pos))
    else (Empty, (k, pos)))"
  using assms by (simp add: receive_def try_recv_def Let_def)

lemma poll_closed_mem: "poll_subs m c = (ns, c', closed) \<Longrightarrow> set_option closed \<subseteq> fst ` set c"
  by (induction m c arbitrary: ns c' closed rule: poll_subs.induct) (fastforce split: prod.splits recv_result.splits)+

lemma poll_subs_hears:
  assumes "links_ok m c" and "distinct (map fst c)" and "poll_subs m c = (ns, c', closed)"
    and "(p, (k, pos)) \<in> set c" and "ch_open (channel_of m k)" and "length (ch_sent (channel_of m k)) \<le> pos + capacity"
  shows "\<exists>pos'. (p, (k, pos')) \<in> set c' \<and> pos \<le> pos' \<and> pos' \<le> length (ch_sent (channel_of m k)) \<and> closed \<noteq> Some p \<and>
    filter (\<lambda>n. notif_project n = p) ns = take (pos' - pos) (drop pos (ch_sent (channel_of m k))) \<and>
    (closed = None \<longrightarrow> pos' = min (Suc pos) (length (ch_sent (channel_of m k))))"
  using assms(1-4)
proof (induction c arbitrary: ns c' closed)
  case (Cons x c)
  obtain q r where x: "x = (q, r)" by (cases x)
  have ok: "links_ok m [(q, r)]" "links_ok m c" using Cons.prems(1) by (auto simp: links_ok_def x)
  obtain res r' where rec: "receive r m = (res, r')" by (cases "receive r m")
  obtain ns1 c1 closed1 where rest: "poll_subs m c = (ns1, c1, closed1)" by (metis prod_cases3)
  note l = poll_subs_links[OF ok(2) rest]
  let ?sent = "ch_sent (channel_of m k)"
  show ?case
  proof (cases "x = (p, (k, pos))")
    case here: True
    then have "p \<notin> fst ` set c" using Cons.prems(2) by simp
    then have quiet: "filter (\<lambda>n. notif_project n = p) ns1 = []" "closed1 \<noteq> Some p"
      using l poll_closed_mem[OF rest] by (auto simp: filter_empty_conv)
    have "pos \<le> length ?sent" using ok(1) here x by (auto simp: links_ok_def)
    note rec' = receive_open[OF assms(5) this assms(6)]
    show ?thesis
    proof (cases "pos < length ?sent")
      case True
      then have "?sent ! pos \<in> set ?sent" by simp
      then have "notif_project (?sent ! pos) = p"
        using ok(1) here x by (auto simp: links_ok_def channel_pure_def)
      moreover have "take 1 (drop pos ?sent) = [?sent ! pos]" using True by (simp add: take_Suc_conv_app_nth)
      ultimately show ?thesis
        using Cons.prems(3) here rec' True rest quiet by (intro exI[of _ "Suc pos"]) auto
    next
      case False
      then show ?thesis using Cons.prems(3) here rec' rest quiet \<open>pos \<le> length ?sent\<close>
        by (intro exI[of _ pos]) auto
    qed
  next
    case False
    then have mem: "(p, (k, pos)) \<in> set c" using Cons.prems(4) by simp
    then have "q \<noteq> p" using Cons.prems(2) x by force
    then have other: "res = Got n \<Longrightarrow> notif_project n \<noteq> p" for n using receive_link(2)[OF ok(1) rec] by simp
    show ?thesis
    proof (cases "res = Closed")
      case True
      then have "ns = []" "c' = x # c" "closed = Some q" using Cons.prems(3) rec by (auto simp: x)
      moreover have "pos \<le> length ?sent" using ok(2) mem by (auto simp: links_ok_def)
      ultimately show ?thesis using mem \<open>q \<noteq> p\<close> by (intro exI[of _ pos]) auto
    next
      case open_: False
      from Cons.IH[OF ok(2) _ rest mem] Cons.prems(2) obtain pos' where *: "(p, (k, pos')) \<in> set c1" "pos \<le> pos'" "pos' \<le> length ?sent"
        "closed1 \<noteq> Some p" "filter (\<lambda>n. notif_project n = p) ns1 = take (pos' - pos) (drop pos ?sent)"
        "closed1 = None \<longrightarrow> pos' = min (Suc pos) (length ?sent)" by auto
      have "c' = (q, r') # c1" "closed = closed1" "ns = (case res of Got n \<Rightarrow> n # ns1 | _ \<Rightarrow> ns1)"
        using Cons.prems(3) open_ by (auto simp: x rec rest split: recv_result.splits)
      then show ?thesis using * other by (intro exI[of _ pos']) (auto split: recv_result.splits)
    qed
  qed
qed simp

lemma poll_round_hears:
  assumes "links_ok (ss_subscriptions st) c" and "distinct (map fst c)" and "poll_round (st, c) = (ns, st', c')"
    and "(p, (k, pos)) \<in> set c" and "ch_open (channel_of (ss_subscriptions st) k)"
    and "length (ch_sent (channel_of (ss_subscriptions st) k)) \<le> pos + capacity"
  shows "let sent = ch_sent (channel_of (ss_subscriptions st) k) in
    \<exists>pos'. (p, (k, pos')) \<in> set c' \<and> pos \<le> pos' \<and> pos' \<le> length sent \<and> length c' \<le> length c \<and>
      filter (\<lambda>n. notif_project n = p) ns = take (pos' - pos) (drop pos sent) \<and>
      (pos' = length sent \<or> length c' + (length sent - pos') < length c + (length sent - pos))"
proof -
  obtain ns1 c1 closed where p: "poll_subs (ss_subscriptions st) c = (ns1, c1, closed)" by (metis prod_cases3)
  have len: "length c1 = length c" using poll_subs_links[OF assms(1) p] by (metis length_map)
  from poll_subs_hears[OF assms(1,2) p assms(4-6)] obtain pos' where
    *: "(p, (k, pos')) \<in> set c1" "pos \<le> pos'" "pos' \<le> length (ch_sent (channel_of (ss_subscriptions st) k))" "closed \<noteq> Some p"
      "filter (\<lambda>n. notif_project n = p) ns1 = take (pos' - pos) (drop pos (ch_sent (channel_of (ss_subscriptions st) k)))"
      "closed = None \<longrightarrow> pos' = min (Suc pos) (length (ch_sent (channel_of (ss_subscriptions st) k)))" by blast
  show ?thesis
  proof (cases closed)
    case None
    then have "ns = ns1" "c' = c1" using assms(3) p by (auto simp: poll_round_def)
    then show ?thesis using * None len unfolding Let_def by (intro exI[of _ pos']) auto
  next
    case (Some q)
    then have eq: "ns = ns1" "c' = filter (\<lambda>(p, _). p \<noteq> q) c1" using assms(3) p by (auto simp: poll_round_def remove_subscription_def)
    have "map fst c1 = map fst c" using poll_subs_links[OF assms(1) p] by simp
    then have "q \<in> fst ` set c1" using poll_closed_mem[OF p] Some by (metis elem_set list.set_map subsetD)
    then obtain r where "(q, r) \<in> set c1" by auto
    then have "length c' < length c1" unfolding eq(2) using length_filter_less[of "(q, r)" c1 "\<lambda>(p, _). p \<noteq> q"] by simp
    then show ?thesis using * Some len eq unfolding Let_def by (intro exI[of _ pos']) auto
  qed
qed

end
