(* ===== verification/Followers.thy ===== *)
theory Followers
  imports Delivery
begin

text \<open>
  A connection that follows a project: from a fresh daemon, under every interleaving of the daemon's steps and its prunes
  with what other connections do, a connection that listens to a project, and may itself ask and attribute, is written
  every notification of the project once and in order (the rounds of \<open>handle_connection\<close> in
  \<open>crates/ambient-fs-server/src/socket.rs\<close>, \<open>broadcast\<close> in \<open>subscriptions.rs\<close>), and replaying the patches among them
  keeps a client's copy of the project's tree equal to the one that the server holds.
\<close>

subsection \<open>Receivers and connections\<close>

abbreviation subs_of :: "system \<Rightarrow> sub_manager" where
  "subs_of s \<equiv> ss_subscriptions (dm_state (sy_daemon s))"

abbreviation trees_of :: "system \<Rightarrow> string \<Rightarrow> project_tree option" where
  "trees_of s \<equiv> ss_trees (dm_state (sy_daemon s))"

text \<open>The receivers that the other connections hold, and the count that the manager has of all of them.\<close>

definition others :: "nat \<Rightarrow> system \<Rightarrow> nat \<Rightarrow> nat" where
  "others i s k = (\<Sum>j \<in> dom (sy_conns s) - {i}. held k (still_open (sy_conns s j)))"

definition accounts :: "system \<Rightarrow> bool" where
  "accounts s \<longleftrightarrow> finite (dom (sy_conns s)) \<and> (\<forall>i. account (others i s) (subs_of s, still_open (sy_conns s i)))"

lemma others_split:
  assumes "finite (dom (sy_conns s))"
  shows "others i s k + held k (still_open (sy_conns s i)) = (\<Sum>j \<in> dom (sy_conns s). held k (still_open (sy_conns s j)))"
proof (cases "i \<in> dom (sy_conns s)")
  case True
  then show ?thesis using sum.remove[OF assms True, of "\<lambda>j. held k (still_open (sy_conns s j))"]
    by (simp add: others_def)
qed (simp add: others_def domIff)

lemma others_hold:
  assumes "finite (dom (sy_conns s))" and "sy_conns s i = Some c" and "(p, (k, pos)) \<in> set c" and "i \<noteq> j"
  shows "0 < others j s k"
proof -
  have "held k (still_open (sy_conns s i)) \<le> others j s k"
    unfolding others_def using assms by (intro member_le_sum) auto
  moreover have "0 < held k c" using assms(3) by (rule held_entry)
  ultimately show ?thesis using assms(2) by simp
qed

text \<open>A step of a connection, or of the daemon with any connection for the bystander.\<close>

definition moves :: "nat \<Rightarrow> system \<Rightarrow> notif list \<Rightarrow> system \<Rightarrow> bool" where
  "moves i s ns s' \<longleftrightarrow> (\<exists>c. sy_conns s' = (sy_conns s)(i := c)) \<and>
     serves (others i s) (subs_of s, still_open (sy_conns s i)) ns (subs_of s', still_open (sy_conns s' i))"

lemma moves_accounts:
  assumes "accounts s" and "moves i s ns s'"
  shows "accounts s'"
proof -
  obtain c where c: "sy_conns s' = (sy_conns s)(i := c)" using assms(2) by (auto simp: moves_def)
  have fin: "finite (dom (sy_conns s'))" using assms(1) by (simp add: accounts_def c)
  have "dom (sy_conns s') - {i} = dom (sy_conns s) - {i}" by (auto simp: c)
  then have "others i s' = others i s" by (intro ext) (simp add: others_def c)
  then have own: "account (others i s') (subs_of s', still_open (sy_conns s' i))"
    using assms by (simp add: moves_def serves_def accounts_def)
  have "account (others j s') (subs_of s', still_open (sy_conns s' j))" for j
  proof -
    have "others j s' k + held k (still_open (sy_conns s' j)) = others i s' k + held k (still_open (sy_conns s' i))" for k
      by (simp only: others_split[OF fin])
    moreover have "distinct (map fst (still_open (sy_conns s' j)))"
      using assms(1) own by (cases "j = i") (auto simp: account_def accounts_def c)
    ultimately show ?thesis using own by (simp add: account_def)
  qed
  then show ?thesis using fin by (simp add: accounts_def)
qed

text \<open>What a listener sees of a step of another connection.\<close>

lemma moves_registered:
  assumes "accounts s" and "moves i s ns s'" and "k < length (sm_channels (subs_of s))" and "sm_projects (subs_of s') p = Some k"
  shows "sm_projects (subs_of s) p = Some k"
    and "ns = [] \<or> 0 < others i s k \<Longrightarrow>
      ch_sent (channel_of (subs_of s') k) = ch_sent (channel_of (subs_of s) k) @ filter (\<lambda>n. notif_project n = p) ns"
proof -
  have *: "sm_projects (subs_of s) p = Some k \<and> (ns = [] \<or> 0 < others i s k \<longrightarrow>
      ch_sent (channel_of (subs_of s') k) = ch_sent (channel_of (subs_of s) k) @ filter (\<lambda>n. notif_project n = p) ns)"
    using assms unfolding accounts_def moves_def serves_def fst_conv by blast
  then show "sm_projects (subs_of s) p = Some k" by blast
  from * show "ns = [] \<or> 0 < others i s k \<Longrightarrow>
      ch_sent (channel_of (subs_of s') k) = ch_sent (channel_of (subs_of s) k) @ filter (\<lambda>n. notif_project n = p) ns" by blast
qed

subsection \<open>Steps and traces\<close>

definition actor :: "system_op \<Rightarrow> nat option" where
  "actor op = (case op of SysAccept i \<Rightarrow> Some i | SysLine i _ \<Rightarrow> Some i | SysTick i \<Rightarrow> Some i | SysHangUp i \<Rightarrow> Some i
     | SysDaemon _ \<Rightarrow> None | SysPrune \<Rightarrow> None)"

text \<open>An operation that registers or forgets a project.\<close>

definition reprojects :: "system_op \<Rightarrow> bool" where
  "reprojects op \<longleftrightarrow> (case op of SysDaemon dop \<Rightarrow> changes_projects dop | _ \<Rightarrow> False)"

definition tracks :: "(string \<Rightarrow> string) \<Rightarrow> system \<Rightarrow> notif list \<Rightarrow> system \<Rightarrow> bool" where
  "tracks lc s ns s' \<longleftrightarrow>
     (\<forall>p t. trees_of s p = Some t \<longrightarrow> (\<exists>t'. trees_of s' p = Some t' \<and> pt_root t' = replay lc p ns (pt_root t)))"

lemma tracks_same: "trees_of s' = trees_of s \<Longrightarrow> tracks lc s (map NEvent es) s'"
  by (simp add: tracks_def)

lemma events_in_map [simp]: "events_in (map NEvent es) = es"
  by (induction es) (simp_all add: events_in_def)

text \<open>What a connection does while it only follows: rounds, and lines that leave the subscriptions alone.\<close>

definition listens :: "(string \<Rightarrow> string + json) \<Rightarrow> nat \<Rightarrow> system_op \<Rightarrow> bool" where
  "listens pj i op \<longleftrightarrow>
     (case op of
        SysLine j l \<Rightarrow> j = i \<longrightarrow> leaves_subscriptions pj l
      | SysAccept j \<Rightarrow> j \<noteq> i | SysHangUp j \<Rightarrow> j \<noteq> i | _ \<Rightarrow> True)"

lemma listens_cases:
  assumes "listens pj i op" and "actor op = Some i"
  obtains "op = SysTick i" | l where "op = SysLine i l" and "leaves_subscriptions pj l"
  using assms by (cases op) (auto simp: listens_def actor_def)

text \<open>The channels that a connection listens to, after a step of its own.\<close>

abbreviation channel_sent :: "system \<Rightarrow> nat \<Rightarrow> notif list" where
  "channel_sent s k \<equiv> ch_sent (channel_of (subs_of s) k)"

definition told_itself :: "nat \<Rightarrow> system \<Rightarrow> notif list \<Rightarrow> system \<Rightarrow> bool" where
  "told_itself i s ns s' \<longleftrightarrow>
     (\<forall>c p k pos. sy_conns s' i = Some c \<longrightarrow> (p, (k, pos)) \<in> set c \<longrightarrow> k < length (sm_channels (subs_of s)) \<longrightarrow>
        sm_projects (subs_of s') p = Some k \<longrightarrow> channel_sent s' k = channel_sent s k @ filter (\<lambda>n. notif_project n = p) ns)"

text \<open>A step that publishes \<open>ns\<close>.\<close>

definition advances ::
  "(string \<Rightarrow> string + json) \<Rightarrow> (string \<Rightarrow> string) \<Rightarrow> system \<Rightarrow> system_op \<Rightarrow> step_out \<Rightarrow> notif list \<Rightarrow> system \<Rightarrow> bool" where
  "advances pj lc s op r ns s' \<longleftrightarrow> events_in ns = written [r] \<and>
     (\<forall>i. actor op = None \<or> actor op = Some i \<longrightarrow> moves i s ns s') \<and>
     (op \<in> range SysTick \<longrightarrow> ns = []) \<and> (\<not> reprojects op \<longrightarrow> tracks lc s ns s') \<and>
     (\<forall>i l. op = SysLine i l \<longrightarrow> leaves_subscriptions pj l \<longrightarrow> accounts s \<longrightarrow> told_itself i s ns s')"

lemma moves_daemon: "sy_conns s' = sy_conns s \<Longrightarrow> subs_of s' = publish_all ns (subs_of s) \<Longrightarrow> moves i s ns s'"
  by (auto simp: moves_def serves_publish intro: exI[of _ "sy_conns s i"])

lemma moves_conn:
  "serves (others i s) (subs_of s, still_open (sy_conns s i)) ns (ss_subscriptions st, still_open c) \<Longrightarrow> moves i s ns (set_state st c i s)"
  by (auto simp: moves_def)

lemma moves_same: "moves i s [] s"
  using moves_daemon[of s s "[]"] by (simp add: publish_all_def)

lemma advances_quiet:
  assumes "actor op = Some i" and "moves i s [] s'" and "trees_of s' = trees_of s" and "written [r] = []"
    and "\<And>l. op = SysLine i l \<Longrightarrow> sy_conns s' i = None"
  shows "advances pj lc s op r [] s'"
  using assms tracks_same[of s' s lc "[]"] by (auto simp: advances_def events_in_def actor_def told_itself_def)

lemma step_advances:
  assumes "dm_running (sy_daemon s)" and "no_renames (sy_daemon s)"
    and "holds_log (en_fmt en) T (ss_db (dm_state (sy_daemon s))) L"
    and "en_store_opens en" and "op = SysPrune \<or> en_now en \<in> T"
    and "system_step pj de (en, op) s = (r, s')"
    and "key_seq (ss_db (dm_state (sy_daemon s))) + int (length (written [r])) \<le> max_i64"
  shows "no_renames (sy_daemon s') \<and> (\<exists>ns. advances pj (de_lower de) s op r ns s')"
proof (cases op)
  case (SysDaemon dop)
  obtain sent rec d where d: "daemon_step de (en, dop) (sy_daemon s) = (sent, rec, d)" by (metis prod_cases3)
  then have rs: "r = quiet\<lparr>sp_sent := sent, sp_recorded := rec\<rparr>" "s' = s\<lparr>sy_daemon := d\<rparr>"
    using assms(6) by (simp_all add: SysDaemon)
  from daemon_step_tells[OF assms(2) d] obtain ns where *: "no_renames d" "ss_subscriptions (dm_state d) = publish_all ns (subs_of s)"
    "events_in ns = rec" "\<not> changes_projects dop \<Longrightarrow> tells (de_lower de) (dm_state (sy_daemon s)) ns (dm_state d)" by blast
  then have "advances pj (de_lower de) s op r ns s'"
    by (auto simp: advances_def rs written_def SysDaemon reprojects_def tracks_def tells_def intro!: moves_daemon)
  then show ?thesis using *(1) by (auto simp: rs)
next
  case (SysLine i l)
  show ?thesis
  proof (cases "sy_conns s i")
    case None
    then show ?thesis using assms(2,6) moves_same by (intro conjI exI[of _ "[]"] advances_quiet) (auto simp: SysLine actor_def written_def)
  next
    case (Some c)
    obtain ws st' c' where line: "connection_line pj en l (dm_state (sy_daemon s), c) = (ws, st', c')" by (metis prod_cases3)
    let ?es = "attributed_by pj en (ss_machine_id (dm_state (sy_daemon s))) l"
    have rs: "r = quiet\<lparr>sp_attributed := ?es, sp_wire := ws\<rparr>" "s' = set_state st' c' i s"
      using assms(6) by (simp_all add: SysLine Some line Let_def)
    have dl: "delivers X (dm_state (sy_daemon s), c) ?es (st', still_open c')" for X
      using connection_line_delivers[OF assms(3,4) _ _ line] assms(5,7) SysLine by (simp add: rs written_def)
    then have "serves (others i s) (subs_of s, still_open (sy_conns s i)) (map NEvent ?es) (ss_subscriptions st', still_open c')"
      by (simp add: delivers_def Some)
    moreover have "trees_of s' = trees_of s" using dl by (simp add: delivers_def rs)
    moreover have "told_itself i s (map NEvent ?es) s'" if keeps: "leaves_subscriptions pj l" and a: "accounts s"
    proof (unfold told_itself_def, intro allI impI)
      fix d p k pos
      assume d: "sy_conns s' i = Some d" "(p, (k, pos)) \<in> set d" and k: "k < length (sm_channels (subs_of s))" "sm_projects (subs_of s') p = Some k"
      have "account (others i s) (subs_of s, c)" using a Some by (auto simp: accounts_def dest!: spec[of _ i])
      moreover have "connection_line pj en l (dm_state (sy_daemon s), c) = (ws, st', Some d)" using line d(1) by (simp add: rs)
      ultimately show "channel_sent s' k = channel_sent s k @ filter (\<lambda>n. notif_project n = p) (map NEvent ?es)"
        using own_line_sent[OF assms(3,4), of pj l c ws st' d "others i s" p k pos] assms(5,7) keeps d(2) k SysLine
        by (simp add: rs written_def)
    qed
    ultimately have "advances pj (de_lower de) s op r (map NEvent ?es) s'"
      using moves_conn tracks_same by (auto simp: advances_def SysLine actor_def rs written_def)
    then show ?thesis using assms(2) by (auto simp: rs no_renames_def)
  qed
next
  case (SysTick i)
  show ?thesis
  proof (cases "sy_conns s i")
    case None
    then show ?thesis using assms(2,6) moves_same by (intro conjI exI[of _ "[]"] advances_quiet) (auto simp: SysTick actor_def written_def)
  next
    case (Some c)
    obtain ns st' c' where round: "poll_round (dm_state (sy_daemon s), c) = (ns, st', c')" by (metis prod_cases3)
    then have rs: "r = quiet\<lparr>sp_wire := map WNotification ns\<rparr>" "s' = set_state st' (Some c') i s"
      using assms(6) by (simp_all add: SysTick Some Let_def)
    have "moves i s [] s'" unfolding rs(2) using serves_poll[OF round] by (intro moves_conn) (simp add: Some)
    then show ?thesis using assms(2) poll_round_trees[OF round]
      by (intro conjI exI[of _ "[]"] advances_quiet) (auto simp: rs SysTick actor_def written_def no_renames_def)
  qed
next
  case (SysHangUp i)
  show ?thesis
  proof (cases "sy_conns s i")
    case None
    then show ?thesis using assms(2,6) moves_same by (intro conjI exI[of _ "[]"] advances_quiet) (auto simp: SysHangUp actor_def written_def)
  next
    case (Some c)
    then have rs: "r = quiet" "s' = set_state (drop_connection c (dm_state (sy_daemon s))) None i s"
      using assms(6) by (simp_all add: SysHangUp)
    have "moves i s [] s'" unfolding rs(2) by (intro moves_conn) (simp add: Some drop_connection_def serves_hang_up)
    then show ?thesis using assms(2)
      by (intro conjI exI[of _ "[]"] advances_quiet) (auto simp: rs SysHangUp actor_def written_def no_renames_def drop_connection_def)
  qed
next
  case (SysAccept i)
  then have rs: "r = quiet" "subs_of s' = subs_of s" "sy_daemon s' = sy_daemon s"
    "sy_conns s' = (sy_conns s)(i := sy_conns s' i)" "still_open (sy_conns s' i) = still_open (sy_conns s i)"
    using assms(6) by (auto split: option.splits)
  then have "moves i s [] s'" unfolding moves_def by (intro conjI exI[of _ "sy_conns s' i"]) simp_all
  then show ?thesis using assms(2) rs
    by (intro conjI exI[of _ "[]"] advances_quiet) (auto simp: SysAccept actor_def written_def)
next
  case SysPrune
  then have rs: "subs_of s' = subs_of s" "sy_conns s' = sy_conns s" "trees_of s' = trees_of s" "dm_queue (sy_daemon s') = dm_queue (sy_daemon s)"
    "written [r] = []"
    using assms(6) by (auto simp: scheduler_tick_def prune_at_start_def written_def)
  then have "advances pj (de_lower de) s op r [] s'"
    using tracks_same[of s' s _ "[]"] by (auto simp: advances_def events_in_def SysPrune publish_all_def intro!: moves_daemon)
  then show ?thesis using assms(2) rs by (auto simp: no_renames_def)
qed

text \<open>A run, with what it publishes.\<close>

inductive trace ::
  "(string \<Rightarrow> string + json) \<Rightarrow> daemon_env \<Rightarrow> system \<Rightarrow> (env \<times> system_op) list \<Rightarrow> step_out list \<Rightarrow> notif list \<Rightarrow> system \<Rightarrow> bool"
  for pj de where
  trace_nil: "trace pj de s [] [] [] s"
| trace_step: "system_step pj de op s = (r, s1) \<Longrightarrow> advances pj (de_lower de) s (snd op) r ns s1 \<Longrightarrow> trace pj de s1 ops rs ms s'
    \<Longrightarrow> trace pj de s (op # ops) (r # rs) (ns @ ms) s'"

lemma run_trace:
  assumes "time_text_ok fmt parse T" and "dm_running (sy_daemon s)" and "no_renames (sy_daemon s)"
    and "holds_log fmt T (ss_db (dm_state (sy_daemon s))) L" and "versions_ok (ss_db (dm_state (sy_daemon s)))"
    and "\<forall>(en, op) \<in> set ops. en_fmt en = fmt \<and> en_store_opens en \<and> (op = SysPrune \<or> en_now en \<in> T)"
    and "system_run pj de ops s = (rs, s')"
    and "ev_timestamp ` set (dm_queue (sy_daemon s) @ concat (map sp_sent rs)) \<subseteq> T"
    and "\<Union> (set_option ` sp_pruned ` set rs) \<subseteq> T"
    and "key_seq (ss_db (dm_state (sy_daemon s))) + int (length (written rs)) \<le> max_i64"
  shows "no_renames (sy_daemon s') \<and> (\<exists>ns. trace pj de s ops rs ns s')"
  using assms(2-)
proof (induction ops arbitrary: s L rs)
  case Nil
  then show ?case by (auto intro: trace_nil)
next
  case (Cons op ops)
  obtain en o1 where op: "op = (en, o1)" by force
  obtain r1 s1 where 1: "system_step pj de (en, o1) s = (r1, s1)" by force
  obtain rs2 s2 where 2: "system_run pj de ops s1 = (rs2, s2)" by force
  have eq: "rs = [r1] @ rs2" "s' = s2" using Cons.prems(6) 1 2 by (simp_all add: op)
  have len: "length (written rs) = length (written [r1]) + length (written rs2)" by (simp add: eq written_def)
  have en: "en_fmt en = fmt" "en_store_opens en" "o1 = SysPrune \<or> en_now en \<in> T" using Cons.prems(5) by (auto simp: op)
  have "no_renames (sy_daemon s1) \<and> (\<exists>ns. advances pj (de_lower de) s o1 r1 ns s1)"
    using Cons.prems(1-3,9) len by (intro step_advances[OF _ _ _ en(2,3) 1]) (simp_all add: en)
  then obtain ns where ns: "no_renames (sy_daemon s1)" "advances pj (de_lower de) s o1 r1 ns s1" by blast
  have "system_run pj de [op] s = ([r1], s1)" using 1 by (simp add: op)
  then have kept: "step_kept fmt T L s [r1] s1"
    using Cons.prems(5,7-9) len by (intro system_run_kept[OF assms(1) Cons.prems(1,3,4) _ \<open>system_run pj de [op] s = ([r1], s1)\<close>]) (auto simp: eq)
  note k = kept[unfolded step_kept_def]
  have "ev_timestamp ` set (dm_queue (sy_daemon s1) @ concat (map sp_sent rs2)) \<subseteq> T"
    using step_kept_times[OF kept, of "concat (map sp_sent rs2)"] Cons.prems(7) by (simp add: eq)
  then have "no_renames (sy_daemon s') \<and> (\<exists>ms. trace pj de s1 ops rs2 ms s')"
    using k Cons.prems(5,8,9) 2 len ns(1) by (intro Cons.IH) (auto simp: eq)
  then obtain ms where "no_renames (sy_daemon s')" "trace pj de s1 ops rs2 ms s'" by blast
  then have "trace pj de s (op # ops) (r1 # rs2) (ns @ ms) s'" using ns(2) 1 by (intro trace_step) (simp_all add: op)
  then show ?case using \<open>no_renames (sy_daemon s')\<close> by (auto simp: eq(1))
qed

text \<open>What holds in every system that is reached.\<close>

definition sound :: "system \<Rightarrow> bool" where
  "sound s \<longleftrightarrow> accounts s \<and> system_links_ok s"

lemma sound_new: "subs_of s = sub_manager_new \<Longrightarrow> sy_conns s = Map.empty \<Longrightarrow> sound s"
  by (simp add: sound_def accounts_def account_def others_def system_links_ok_def subs_ok_new manager_new_ok)

lemma advances_moves:
  assumes "advances pj lc s op r ns s'"
  obtains i where "moves i s ns s'"
  using assms by (cases "actor op") (auto simp: advances_def)

lemma advances_sound:
  assumes "sound s" and "advances pj lc s (snd op) r ns s'" and "system_step pj de op s = (r, s')"
  shows "sound s'"
proof -
  obtain i where "moves i s ns s'" using assms(2) by (rule advances_moves)
  then have "accounts s'" using assms(1) moves_accounts by (auto simp: sound_def)
  moreover have "system_links_ok s'" using system_step_links[of s pj de "fst op" "snd op"] assms(1,3) by (simp add: sound_def)
  ultimately show ?thesis by (simp add: sound_def)
qed

lemma trace_sound: "trace pj de s ops rs ns s' \<Longrightarrow> sound s \<Longrightarrow> sound s'"
  by (induction rule: trace.induct) (auto intro: advances_sound)

lemma trace_events: "trace pj de s ops rs ns s' \<Longrightarrow> events_in ns = written rs"
proof (induction rule: trace.induct)
  case (trace_step op s r s1 ns ops rs ms s')
  have "events_in (ns @ ms) = events_in ns @ events_in ms" by (simp add: events_in_def)
  with trace_step show ?case by (simp add: advances_def written_def)
qed (simp add: events_in_def written_def)

lemma trace_tracks:
  "trace pj de s ops rs ns s' \<Longrightarrow> \<forall>op \<in> set ops. \<not> reprojects (snd op) \<Longrightarrow> tracks (de_lower de) s ns s'"
proof (induction rule: trace.induct)
  case (trace_nil s)
  then show ?case by (simp add: tracks_def replay_def patches_in_def)
next
  case (trace_step op s r s1 ns ops rs ms s')
  then have "tracks (de_lower de) s ns s1" "tracks (de_lower de) s1 ms s'" by (auto simp: advances_def)
  then show ?case by (fastforce simp: tracks_def replay_append)
qed

text \<open>A channel that is registered at the end was registered all along, and its messages grow.\<close>

lemma advances_channels:
  "sound s \<Longrightarrow> advances pj lc s op r ns s' \<Longrightarrow> length (sm_channels (subs_of s)) \<le> length (sm_channels (subs_of s'))"
  by (erule advances_moves) (simp add: sound_def accounts_def moves_def serves_def)

lemma advances_registered:
  assumes "sound s" and "advances pj lc s op r ns s'" and "k < length (sm_channels (subs_of s))" and "sm_projects (subs_of s') p = Some k"
  shows "sm_projects (subs_of s) p = Some k" and "ns = [] \<Longrightarrow> ch_sent (channel_of (subs_of s') k) = ch_sent (channel_of (subs_of s) k)"
proof -
  obtain i where i: "moves i s ns s'" using assms(2) by (rule advances_moves)
  have a: "accounts s" using assms(1) by (simp add: sound_def)
  show "sm_projects (subs_of s) p = Some k" by (rule moves_registered(1)[OF a i assms(3,4)])
  show "ns = [] \<Longrightarrow> ch_sent (channel_of (subs_of s') k) = ch_sent (channel_of (subs_of s) k)"
    using moves_registered(2)[OF a i assms(3,4)] by simp
qed

lemma trace_channels:
  "trace pj de s ops rs ns s' \<Longrightarrow> sound s \<Longrightarrow> length (sm_channels (subs_of s)) \<le> length (sm_channels (subs_of s'))"
proof (induction rule: trace.induct)
  case (trace_step op s r s1 ns ops rs ms s')
  then show ?case using advances_channels advances_sound by (meson order_trans)
qed simp

lemma trace_registered:
  "trace pj de s ops rs ns s' \<Longrightarrow> sound s \<Longrightarrow> k < length (sm_channels (subs_of s)) \<Longrightarrow> sm_projects (subs_of s') p = Some k
    \<Longrightarrow> sm_projects (subs_of s) p = Some k"
proof (induction rule: trace.induct)
  case (trace_step op s r s1 ns ops rs ms s')
  have "sm_projects (subs_of s1) p = Some k"
    using advances_channels[OF trace_step.prems(1) trace_step.hyps(2)] trace_step advances_sound by (intro trace_step.IH) auto
  then show ?case using advances_registered(1) trace_step by blast
qed

lemma trace_grows:
  "trace pj de s ops rs ns s' \<Longrightarrow> sound s \<Longrightarrow> channel_pure (subs_of s) k p \<Longrightarrow>
    length (ch_sent (channel_of (subs_of s) k)) \<le> length (ch_sent (channel_of (subs_of s') k))"
proof (induction rule: trace.induct)
  case (trace_step op s r s1 ns ops rs ms s')
  have "evolves (subs_of s) (subs_of s1)"
    using system_step_links[of s pj de "fst op" "snd op"] trace_step.hyps(1) trace_step.prems(1) by (simp add: sound_def)
  then show ?case using trace_step advances_sound unfolding evolves_def by (meson order_trans)
qed simp

subsection \<open>What a connection hears\<close>

definition notifications :: "wire list \<Rightarrow> notif list" where
  "notifications ws = concat (map (\<lambda>w. case w of WNotification n \<Rightarrow> [n] | _ \<Rightarrow> []) ws)"

lemma notifications_wire [simp]:
  "notifications (map WNotification ns) = ns" "notifications (map WNotification ns @ [WResponse q]) = ns"
  by (induction ns) (simp_all add: notifications_def)

text \<open>The notifications of a project that are written to a connection, in its rounds and before its answers.\<close>

definition heard :: "nat \<Rightarrow> string \<Rightarrow> (env \<times> system_op) list \<Rightarrow> step_out list \<Rightarrow> notif list" where
  "heard i p ops rs = filter (\<lambda>n. notif_project n = p)
     (concat (map (\<lambda>((_, op), r). if actor op = Some i then notifications (sp_wire r) else []) (zip ops rs)))"

lemma heard_simps [simp]:
  "heard i p [] [] = []"
  "heard i p (op # ops) (r # rs)
    = (if actor (snd op) = Some i then filter (\<lambda>n. notif_project n = p) (notifications (sp_wire r)) else []) @ heard i p ops rs"
  by (simp_all add: heard_def split_beta)

lemma take_pieces:
  "i \<le> j \<Longrightarrow> j \<le> l \<Longrightarrow> j \<le> length xs \<Longrightarrow> take (j - i) (drop i xs) @ take (l - j) (drop j (xs @ ys)) = take (l - i) (drop i (xs @ ys))"
  using take_add[of "j - i" "l - j" "drop i (xs @ ys)"] by simp

lemma sound_link:
  assumes "sound s" and "sy_conns s i = Some c" and "(p, (k, pos)) \<in> set c"
  shows "channel_pure (subs_of s) k p" and "k < length (sm_channels (subs_of s))" and "pos \<le> length (channel_sent s k)"
proof -
  have "links_ok (subs_of s) c" using assms(1,2) by (auto simp: sound_def system_links_ok_def)
  then show "channel_pure (subs_of s) k p" "k < length (sm_channels (subs_of s))" "pos \<le> length (channel_sent s k)"
    using assms(3) by (auto simp: links_ok_def channel_pure_def)
qed

lemma trace_ticks: "trace pj de s ops rs ns s' \<Longrightarrow> \<forall>op \<in> set ops. snd op = SysTick i \<Longrightarrow> ns = []"
  by (induction rule: trace.induct) (auto simp: advances_def)

text \<open>A round, of the connection alone or before a line that it sends.\<close>

lemma round_hears:
  assumes "sound s" and "poll_round (dm_state (sy_daemon s), c) = (ns, st', c')" and "sy_conns s i = Some c"
    and "(p, (k, pos)) \<in> set c" and "sm_projects (subs_of s) p = Some k" and "length (channel_sent s k) \<le> pos + capacity"
  shows "\<exists>pos1. (p, (k, pos1)) \<in> set c' \<and> length c' \<le> length c \<and> pos \<le> pos1 \<and> pos1 \<le> length (channel_sent s k) \<and>
    filter (\<lambda>n. notif_project n = p) ns = take (pos1 - pos) (drop pos (channel_sent s k)) \<and>
    (pos1 = length (channel_sent s k) \<or> length c' + (length (channel_sent s k) - pos1) < length c + (length (channel_sent s k) - pos))"
proof -
  have "links_ok (subs_of s) c" using assms(1,3) by (auto simp: sound_def system_links_ok_def)
  have "account (others i s) (subs_of s, still_open (sy_conns s i))" using assms(1) by (simp add: sound_def accounts_def)
  then have "distinct (map fst c)" "ch_open (channel_of (subs_of s) k)"
    using assms(3,5) by (auto simp: account_def manager_ok_def channel_of_def)
  from poll_round_hears[OF \<open>links_ok (subs_of s) c\<close> this(1) assms(2,4) this(2) assms(6)] show ?thesis by (simp add: Let_def) blast
qed

lemma own_hears:
  assumes "sound s" and "system_step pj de op s = (r, s1)" and "listens pj i (snd op)" and "actor (snd op) = Some i"
    and "sy_conns s i = Some c" and "sy_conns s1 i \<noteq> None"
    and "(p, (k, pos)) \<in> set c" and "sm_projects (subs_of s) p = Some k" and "length (channel_sent s k) \<le> pos + capacity"
  shows "\<exists>c1 pos1. sy_conns s1 i = Some c1 \<and> (p, (k, pos1)) \<in> set c1 \<and> length c1 \<le> length c \<and> pos \<le> pos1 \<and> pos1 \<le> length (channel_sent s k) \<and>
    filter (\<lambda>n. notif_project n = p) (notifications (sp_wire r)) = take (pos1 - pos) (drop pos (channel_sent s k)) \<and>
    (pos1 = length (channel_sent s k) \<or> length c1 + (length (channel_sent s k) - pos1) < length c + (length (channel_sent s k) - pos))"
proof -
  obtain ns st' c' where round: "poll_round (dm_state (sy_daemon s), c) = (ns, st', c')" by (metis prod_cases3)
  have "notifications (sp_wire r) = ns \<and> sy_conns s1 i = Some c'"
    using assms(3,4)
  proof (cases rule: listens_cases)
    case 1
    then show ?thesis using assms(2,5) round by (cases op) (auto simp: Let_def)
  next
    case (2 l)
    obtain en where op: "op = (en, SysLine i l)" using 2(1) by (cases op) simp
    obtain a st2 c2 where line: "handle_line pj en l (st', c') = (a, st2, c2)" by (metis prod_cases3)
    have "c2 = c'" using line_leaves(1)[OF 2(2) line] .
    then show ?thesis using assms(2,5,6) round line
      by (auto simp: op connection_line_def set_state_def Let_def split: option.splits)
  qed
  then show ?thesis using round_hears[OF assms(1) round assms(5,7-9)] by auto
qed

text \<open>A connection that is closed stays so while nobody opens it.\<close>

lemma stays_closed:
  "trace pj de s ops rs ns s' \<Longrightarrow> \<forall>op \<in> set ops. listens pj i (snd op) \<Longrightarrow> sy_conns s i = None \<Longrightarrow> sy_conns s' i = None"
proof (induction rule: trace.induct)
  case (trace_step op s r s1 ns ops rs ms s')
  obtain en o1 where op: "op = (en, o1)" by force
  have "sy_conns s1 i = None"
    using trace_step.hyps(1) trace_step.prems
    by (cases o1) (auto simp: op listens_def set_state_def Let_def split: option.splits prod.splits)
  then show ?case using trace_step by simp
qed

lemma other_hears:
  assumes "sound s" and "advances pj lc s op r ns s1" and "actor op \<noteq> Some i" and "sy_conns s i = Some c"
    and "(p, (k, pos)) \<in> set c" and "sm_projects (subs_of s1) p = Some k"
  shows "sy_conns s1 i = Some c" and "channel_sent s1 k = channel_sent s k @ filter (\<lambda>n. notif_project n = p) ns"
proof -
  obtain j where j: "moves j s ns s1" "j \<noteq> i"
  proof (cases "actor op")
    case None
    then have "moves (Suc i) s ns s1" using assms(2) by (simp add: advances_def)
    then show ?thesis using that[of "Suc i"] by simp
  next
    case (Some j)
    then show ?thesis using that[of j] assms(2,3) by (simp add: advances_def)
  qed
  show "sy_conns s1 i = Some c" using j assms(4) by (auto simp: moves_def)
  have a: "accounts s" using assms(1) by (simp add: sound_def)
  have "k < length (sm_channels (subs_of s))" by (rule sound_link(2)[OF assms(1,4,5)])
  moreover have "0 < others j s k" using others_hold[of s i c p k pos j] a assms(4,5) j(2) by (simp add: accounts_def)
  ultimately show "channel_sent s1 k = channel_sent s k @ filter (\<lambda>n. notif_project n = p) ns"
    using moves_registered(2)[OF a j(1) _ assms(6)] by blast
qed

lemma trace_hears:
  assumes "trace pj de s ops rs ns s'" and "sound s" and "sy_conns s i = Some c" and "(p, (k, pos)) \<in> set c"
    and "\<forall>op \<in> set ops. listens pj i (snd op)" and "sm_projects (subs_of s') p = Some k"
    and "length (channel_sent s' k) \<le> pos + capacity" and "sy_conns s' i \<noteq> None"
  shows "\<exists>c' pos'. sy_conns s' i = Some c' \<and> (p, (k, pos')) \<in> set c' \<and> length c' \<le> length c \<and> pos \<le> pos' \<and> pos' \<le> length (channel_sent s' k) \<and>
    channel_sent s' k = channel_sent s k @ filter (\<lambda>n. notif_project n = p) ns \<and>
    heard i p ops rs = take (pos' - pos) (drop pos (channel_sent s' k)) \<and>
    ((\<forall>op \<in> set ops. snd op = SysTick i) \<longrightarrow>
      pos' = length (channel_sent s' k) \<or> length c' + (length (channel_sent s' k) - pos') + length ops \<le> length c + (length (channel_sent s' k) - pos))"
  using assms
proof (induction arbitrary: c pos rule: trace.induct)
  case (trace_nil s)
  have "pos \<le> length (channel_sent s k)" by (rule sound_link(3)[OF trace_nil.prems(1-3)])
  with trace_nil show ?case by (intro exI[of _ c] exI[of _ pos]) auto
next
  case (trace_step op s r s1 ns ops rs ms s')
  have s1: "sound s1" using advances_sound trace_step by blast
  note pos = sound_link[OF trace_step.prems(1-3)]
  then have "k < length (sm_channels (subs_of s1))" using advances_channels trace_step by fastforce
  then have reg1: "sm_projects (subs_of s1) p = Some k"
    by (rule trace_registered[OF trace_step.hyps(3) s1 _ trace_step.prems(5)])
  have acts: "listens pj i (snd op)" "\<forall>op \<in> set ops. listens pj i (snd op)" using trace_step.prems(4) by simp_all
  have open1: "sy_conns s1 i \<noteq> None" using stays_closed[OF trace_step.hyps(3) acts(2)] trace_step.prems(7) by blast
  show ?case
  proof (cases "actor (snd op) = Some i")
    case True
    note reg = advances_registered[OF trace_step.prems(1) trace_step.hyps(2) pos(2) reg1]
    have "length (channel_sent s k) \<le> pos + capacity"
      using trace_grows[OF trace_step.hyps(1)[THEN trace.trace_step, OF trace_step.hyps(2,3)] trace_step.prems(1) pos(1)] trace_step.prems(6)
      by linarith
    from own_hears[OF trace_step.prems(1) trace_step.hyps(1) acts(1) True trace_step.prems(2) open1 trace_step.prems(3) reg(1) this] obtain c1 pos1 where
      1: "sy_conns s1 i = Some c1" "(p, (k, pos1)) \<in> set c1" "length c1 \<le> length c" "pos \<le> pos1" "pos1 \<le> length (channel_sent s k)"
        "filter (\<lambda>n. notif_project n = p) (notifications (sp_wire r)) = take (pos1 - pos) (drop pos (channel_sent s k))"
        "pos1 = length (channel_sent s k) \<or> length c1 + (length (channel_sent s k) - pos1) < length c + (length (channel_sent s k) - pos)" by blast
    have sent: "channel_sent s1 k = channel_sent s k @ filter (\<lambda>n. notif_project n = p) ns"
      using acts(1) True
    proof (cases rule: listens_cases)
      case 1
      then have "ns = []" using trace_step.hyps(2) by (auto simp: advances_def)
      then show ?thesis using reg(2) by simp
    next
      case (2 l)
      then have "told_itself i s ns s1" using trace_step.hyps(2) trace_step.prems(1) by (auto simp: advances_def sound_def)
      then show ?thesis using 1(1,2) pos(2) reg1 unfolding told_itself_def by blast
    qed
    have "length (channel_sent s' k) \<le> pos1 + capacity" using 1(4) trace_step.prems(6) by linarith
    from trace_step.IH[OF s1 1(1,2) acts(2) trace_step.prems(5) this trace_step.prems(7)] obtain c' pos' where
      2: "sy_conns s' i = Some c'" "(p, (k, pos')) \<in> set c'" "length c' \<le> length c1" "pos1 \<le> pos'" "pos' \<le> length (channel_sent s' k)"
        "channel_sent s' k = channel_sent s1 k @ filter (\<lambda>n. notif_project n = p) ms"
        "heard i p ops rs = take (pos' - pos1) (drop pos1 (channel_sent s' k))"
        "(\<forall>op \<in> set ops. snd op = SysTick i) \<longrightarrow>
          pos' = length (channel_sent s' k) \<or> length c' + (length (channel_sent s' k) - pos') + length ops \<le> length c1 + (length (channel_sent s' k) - pos1)" by blast
    have "heard i p (op # ops) (r # rs) = take (pos' - pos) (drop pos (channel_sent s' k))"
    proof -
      have "channel_sent s' k = channel_sent s k @ (filter (\<lambda>n. notif_project n = p) ns @ filter (\<lambda>n. notif_project n = p) ms)"
        using 2(6) sent by simp
      moreover from this have "pos1 \<le> length (channel_sent s k)" "pos' \<le> length (channel_sent s' k)" using 1(5) 2(5) by simp_all
      ultimately show ?thesis
        using take_pieces[OF 1(4) 2(4) 1(5)] 1(6) 2(7) True by (simp del: take_append drop_append)
    qed
    moreover have "pos' = length (channel_sent s' k) \<or> length c' + (length (channel_sent s' k) - pos') + length (op # ops) \<le> length c + (length (channel_sent s' k) - pos)"
      if "\<forall>op \<in> set (op # ops). snd op = SysTick i"
    proof -
      have "ns = []" "ms = []" using trace_step.hyps(2) trace_ticks[OF trace_step.hyps(3), of i] that by (auto simp: advances_def)
      then have "channel_sent s' k = channel_sent s k" using 2(6) sent by simp
      then show ?thesis using 1(3,5,7) 2(4,5,8) that by auto
    qed
    ultimately show ?thesis using 1 2 sent
      by (intro exI[of _ c'] exI[of _ pos']) auto
  next
    case False
    note o = other_hears[OF trace_step.prems(1) trace_step.hyps(2) False trace_step.prems(2,3) reg1]
    have "snd op \<noteq> SysTick i" using False by (auto simp: actor_def)
    with trace_step.IH[OF s1 o(1) trace_step.prems(3) acts(2) trace_step.prems(5-7)] show ?thesis
      using o(2) False by simp blast
  qed
qed

text \<open>Rounds enough to read what waits bring everything.\<close>

lemma trace_append:
  "trace pj de s (ops @ ops') rs ns s' \<Longrightarrow> \<exists>s1 rs1 rs2 ns1 ns2. rs = rs1 @ rs2 \<and> length rs1 = length ops \<and> ns = ns1 @ ns2 \<and>
    trace pj de s ops rs1 ns1 s1 \<and> trace pj de s1 ops' rs2 ns2 s'"
proof (induction ops arbitrary: s rs ns)
  case Nil
  then show ?case by (fastforce intro: trace_nil)
next
  case (Cons op ops)
  then obtain r s1 ns0 rs0 ms where 1: "rs = r # rs0" "ns = ns0 @ ms" "system_step pj de op s = (r, s1)"
    "advances pj (de_lower de) s (snd op) r ns0 s1" "trace pj de s1 (ops @ ops') rs0 ms s'"
    by (auto elim: trace.cases)
  from Cons.IH[OF 1(5)] obtain s2 rs1 rs2 ns1 ns2 where 2: "rs0 = rs1 @ rs2" "length rs1 = length ops" "ms = ns1 @ ns2"
    "trace pj de s1 ops rs1 ns1 s2" "trace pj de s2 ops' rs2 ns2 s'" by blast
  have "trace pj de s (op # ops) (r # rs1) (ns0 @ ns1) s2" using 1(3,4) 2(4) by (rule trace_step)
  with 1 2 show ?case by (intro exI[of _ s2] exI[of _ "r # rs1"] exI[of _ rs2] exI[of _ "ns0 @ ns1"] exI[of _ ns2]) simp
qed

lemma heard_append:
  "length rs1 = length ops \<Longrightarrow> heard i p (ops @ ops') (rs1 @ rs2) = heard i p ops rs1 @ heard i p ops' rs2"
  by (simp add: heard_def)

lemma ticks_hear_all:
  assumes "trace pj de s (ops @ replicate n (en, SysTick i)) rs ns s'" and "sound s" and "sy_conns s i = Some c"
    and "(p, (k, pos)) \<in> set c" and "\<forall>op \<in> set ops. listens pj i (snd op)"
    and "sm_projects (subs_of s') p = Some k" and "length (channel_sent s' k) \<le> pos + capacity" and "sy_conns s' i \<noteq> None"
    and "length c + (length (channel_sent s' k) - pos) \<le> n"
  shows "channel_sent s' k = channel_sent s k @ filter (\<lambda>n. notif_project n = p) ns"
    and "heard i p (ops @ replicate n (en, SysTick i)) rs = drop pos (channel_sent s' k)"
proof -
  let ?ticks = "replicate n (en, SysTick i)"
  from trace_append[OF assms(1)] obtain s1 rs1 rs2 ns1 ns2 where
    t: "rs = rs1 @ rs2" "length rs1 = length ops" "ns = ns1 @ ns2" "trace pj de s ops rs1 ns1 s1" "trace pj de s1 ?ticks rs2 ns2 s'" by blast
  have s1: "sound s1" by (rule trace_sound[OF t(4) assms(2)])
  have all: "\<forall>op \<in> set ?ticks. listens pj i (snd op)" by (simp add: listens_def)
  have open1: "sy_conns s1 i \<noteq> None" using stays_closed[OF t(5) all] assms(8) by blast
  have "k < length (sm_channels (subs_of s1))" using trace_channels[OF t(4) assms(2)] sound_link(2)[OF assms(2-4)] by linarith
  then have reg: "sm_projects (subs_of s1) p = Some k" by (rule trace_registered[OF t(5) s1 _ assms(6)])
  have "ns2 = []" using trace_ticks[OF t(5), of i] by simp
  have "\<forall>op \<in> set (ops @ ?ticks). listens pj i (snd op)" using assms(5) all by auto
  from trace_hears[OF assms(1-4) this assms(6-8)] show "channel_sent s' k = channel_sent s k @ filter (\<lambda>n. notif_project n = p) ns" by blast
  have "length (channel_sent s1 k) \<le> pos + capacity"
  proof -
    have "channel_pure (subs_of s1) k p" using reg s1 by (simp add: sound_def system_links_ok_def subs_ok_def)
    from trace_grows[OF t(5) s1 this] assms(7) show ?thesis by linarith
  qed
  from trace_hears[OF t(4) assms(2-5) reg this open1] obtain c1 pos1 where
    1: "sy_conns s1 i = Some c1" "(p, (k, pos1)) \<in> set c1" "length c1 \<le> length c" "pos \<le> pos1" "pos1 \<le> length (channel_sent s1 k)"
      "heard i p ops rs1 = take (pos1 - pos) (drop pos (channel_sent s1 k))" by blast
  have "length (channel_sent s' k) \<le> pos1 + capacity" using assms(7) 1(4) by linarith
  from trace_hears[OF t(5) s1 1(1,2) all assms(6) this assms(8)] obtain c' pos' where
    2: "pos1 \<le> pos'" "pos' \<le> length (channel_sent s' k)" "channel_sent s' k = channel_sent s1 k @ filter (\<lambda>n. notif_project n = p) ns2"
      "heard i p ?ticks rs2 = take (pos' - pos1) (drop pos1 (channel_sent s' k))" "(p, (k, pos')) \<in> set c'"
      "pos' = length (channel_sent s' k) \<or> length c' + (length (channel_sent s' k) - pos') + n \<le> length c1 + (length (channel_sent s' k) - pos1)" by auto
  have "0 < length c'" using 2(5) by (cases c') auto
  then have "pos' = length (channel_sent s' k)" using 2(6) assms(9) 1(3,4) by linarith
  moreover have "heard i p (ops @ ?ticks) rs = take (pos' - pos) (drop pos (channel_sent s' k))"
    using take_pieces[OF 1(4) 2(1) 1(5)] 1(6) 2(3,4) by (simp add: t(1) heard_append[OF t(2)])
  ultimately show "heard i p (ops @ ?ticks) rs = drop pos (channel_sent s' k)" by simp
qed

lemma events_in_project: "events_in (filter (\<lambda>n. notif_project n = p) ns) = filter (\<lambda>e. ev_project_id e = p) (events_in ns)"
proof (induction ns)
  case (Cons n ns)
  then show ?case by (cases n) (auto simp: events_in_def)
qed (simp add: events_in_def)

lemma replay_project: "replay lc p (filter (\<lambda>n. notif_project n = p) ns) = replay lc p ns"
proof -
  have "patches_in p (filter (\<lambda>n. notif_project n = p) ns) = patches_in p ns"
  proof (induction ns)
    case (Cons n ns)
    then show ?case by (cases n) (auto simp: patches_in_def)
  qed (simp add: patches_in_def)
  then show ?thesis by (intro ext) (simp add: replay_def)
qed

lemma system_run_append:
  "system_run pj de xs a = (us, b) \<Longrightarrow> system_run pj de ys b = (vs, c) \<Longrightarrow> system_run pj de (xs @ ys) a = (us @ vs, c)"
  by (induction xs arbitrary: a us) (auto simp: Let_def split: prod.splits)

lemma system_run_length: "system_run pj de xs a = (us, b) \<Longrightarrow> length us = length xs"
  by (induction xs arbitrary: a us) (auto simp: Let_def split: prod.splits)

lemma trace_run: "trace pj de a xs us ms b \<Longrightarrow> system_run pj de xs a = (us, b)"
  by (induction rule: trace.induct) simp_all

subsection \<open>Properties\<close>

lemma followed:
  assumes "subs_of s0 = sub_manager_new" and "sy_conns s0 = Map.empty"
    and "time_text_ok fmt parse T" and "dm_running (sy_daemon s0)" and "no_renames (sy_daemon s0)"
    and "holds_log fmt T (ss_db (dm_state (sy_daemon s0))) L" and "versions_ok (ss_db (dm_state (sy_daemon s0)))"
    and "system_run pj de before s0 = (rs0, s)" and "system_run pj de (ops @ replicate n (en, SysTick i)) s = (rs, s')"
    and "\<forall>(e, op) \<in> set before \<union> set ops \<union> {(en, SysTick i)}. en_fmt e = fmt \<and> en_store_opens e \<and> (op = SysPrune \<or> en_now e \<in> T)"
    and "ev_timestamp ` set (dm_queue (sy_daemon s0) @ concat (map sp_sent (rs0 @ rs))) \<subseteq> T"
    and "\<Union> (set_option ` sp_pruned ` set (rs0 @ rs)) \<subseteq> T"
    and "key_seq (ss_db (dm_state (sy_daemon s0))) + int (length (written (rs0 @ rs))) \<le> max_i64"
    and "sy_conns s i = Some c" and "(p, (k, length (channel_sent s k))) \<in> set c"
    and "\<forall>(_, op) \<in> set ops. listens pj i op" and "sy_conns s' i \<noteq> None"
    and "sm_projects (subs_of s') p = Some k" and "length (channel_sent s' k) \<le> length (channel_sent s k) + 256"
    and "length c + (length (channel_sent s' k) - length (channel_sent s k)) \<le> n"
  shows "\<exists>ns. heard i p (ops @ replicate n (en, SysTick i)) rs = filter (\<lambda>n. notif_project n = p) ns \<and> events_in ns = written rs \<and>
    ((\<forall>(_, op) \<in> set ops. \<not> reprojects op) \<longrightarrow> tracks (de_lower de) s ns s')"
proof -
  let ?ticks = "replicate n (en, SysTick i)"
  let ?ops = "before @ ops @ ?ticks"
  note run = system_run_append[OF assms(8,9)] and len = system_run_length[OF assms(8)]
  have "\<forall>(e, op) \<in> set ?ops. en_fmt e = fmt \<and> en_store_opens e \<and> (op = SysPrune \<or> en_now e \<in> T)"
    using assms(10) by auto
  from run_trace[OF assms(3-7) this run assms(11-13)] obtain all where "trace pj de s0 ?ops (rs0 @ rs) all s'" by blast
  from trace_append[OF this] obtain s1 ns0 ns where t: "trace pj de s0 before rs0 ns0 s1" "trace pj de s1 (ops @ ?ticks) rs ns s'"
    using len by (auto dest!: append_eq_append_conv[THEN iffD1, rotated])
  from trace_run[OF t(1)] have "s1 = s" using assms(8) by simp
  have "sound s" using trace_sound[OF t(1) sound_new[OF assms(1,2)]] \<open>s1 = s\<close> by simp
  have acts: "\<forall>op \<in> set ops. listens pj i (snd op)" using assms(16) by auto
  have cap: "length (channel_sent s' k) \<le> length (channel_sent s k) + capacity" using assms(19) by (simp add: capacity_def)
  note hears = ticks_hear_all[OF t(2)[unfolded \<open>s1 = s\<close>] \<open>sound s\<close> assms(14,15) acts assms(18) cap assms(17,20)]
  have "tracks (de_lower de) s ns s'" if "\<forall>(_, op) \<in> set ops. \<not> reprojects op"
  proof -
    have "\<forall>op \<in> set (ops @ ?ticks). \<not> reprojects (snd op)" using that by (auto simp: reprojects_def)
    then show ?thesis using trace_tracks[OF t(2)] \<open>s1 = s\<close> by simp
  qed
  then show ?thesis using hears trace_events[OF t(2)] by (intro exI[of _ ns]) simp
qed

text \<open>
  C7. A client that listens hears every event of its project, once and in order: from a daemon without subscriptions,
  in every interleaving of the daemon's steps and prunes with what any number of connections do, once a connection
  has read what was sent before, it is written exactly the events of the project that the loop recorded or that
  clients attributed since, itself among them, in that order, as long as its subscription stands, at most 256
  notifications of the project were published since, and it gets as many rounds in the end as it has subscriptions and
  such notifications.  It may send what it likes meanwhile, requests to subscribe and unsubscribe apart, and must not
  be closed.  Hypotheses: the store can be opened and holds a log with room.
\<close>

theorem follower_hears_every_event:
  assumes "subs_of s0 = sub_manager_new" and "sy_conns s0 = Map.empty"
    and "time_text_ok fmt parse T" and "dm_running (sy_daemon s0)" and "no_renames (sy_daemon s0)"
    and "holds_log fmt T (ss_db (dm_state (sy_daemon s0))) L" and "versions_ok (ss_db (dm_state (sy_daemon s0)))"
    and "system_run pj de before s0 = (rs0, s)" and "system_run pj de (ops @ replicate n (en, SysTick i)) s = (rs, s')"
    and "\<forall>(e, op) \<in> set before \<union> set ops \<union> {(en, SysTick i)}. en_fmt e = fmt \<and> en_store_opens e \<and> (op = SysPrune \<or> en_now e \<in> T)"
    and "ev_timestamp ` set (dm_queue (sy_daemon s0) @ concat (map sp_sent (rs0 @ rs))) \<subseteq> T"
    and "\<Union> (set_option ` sp_pruned ` set (rs0 @ rs)) \<subseteq> T"
    and "key_seq (ss_db (dm_state (sy_daemon s0))) + int (length (written (rs0 @ rs))) \<le> max_i64"
    and "sy_conns s i = Some c" and "(p, (k, length (channel_sent s k))) \<in> set c"
    and "\<forall>(_, op) \<in> set ops. listens pj i op" and "sy_conns s' i \<noteq> None"
    and "sm_projects (subs_of s') p = Some k" and "length (channel_sent s' k) \<le> length (channel_sent s k) + 256"
    and "length c + (length (channel_sent s' k) - length (channel_sent s k)) \<le> n"
  shows "events_in (heard i p (ops @ replicate n (en, SysTick i)) rs) = filter (\<lambda>e. ev_project_id e = p) (written rs)"
  using followed[OF assms] by (auto simp: events_in_project)

text \<open>
  C19. A client that applies the patches it hears holds the server's tree: under the same conditions, and as long as no
  project is added or removed, replaying the patches that are written to the connection, on the tree of the project
  that the server held before, gives the tree that it holds afterwards, node for node and in the same order.
\<close>

theorem follower_keeps_the_tree:
  assumes "subs_of s0 = sub_manager_new" and "sy_conns s0 = Map.empty"
    and "time_text_ok fmt parse T" and "dm_running (sy_daemon s0)" and "no_renames (sy_daemon s0)"
    and "holds_log fmt T (ss_db (dm_state (sy_daemon s0))) L" and "versions_ok (ss_db (dm_state (sy_daemon s0)))"
    and "system_run pj de before s0 = (rs0, s)" and "system_run pj de (ops @ replicate n (en, SysTick i)) s = (rs, s')"
    and "\<forall>(e, op) \<in> set before \<union> set ops \<union> {(en, SysTick i)}. en_fmt e = fmt \<and> en_store_opens e \<and> (op = SysPrune \<or> en_now e \<in> T)"
    and "ev_timestamp ` set (dm_queue (sy_daemon s0) @ concat (map sp_sent (rs0 @ rs))) \<subseteq> T"
    and "\<Union> (set_option ` sp_pruned ` set (rs0 @ rs)) \<subseteq> T"
    and "key_seq (ss_db (dm_state (sy_daemon s0))) + int (length (written (rs0 @ rs))) \<le> max_i64"
    and "sy_conns s i = Some c" and "(p, (k, length (channel_sent s k))) \<in> set c"
    and "\<forall>(_, op) \<in> set ops. listens pj i op" and "sy_conns s' i \<noteq> None"
    and "sm_projects (subs_of s') p = Some k" and "length (channel_sent s' k) \<le> length (channel_sent s k) + 256"
    and "length c + (length (channel_sent s' k) - length (channel_sent s k)) \<le> n"
    and "\<forall>(_, op) \<in> set ops. \<not> reprojects op" and "trees_of s p = Some t"
  shows "\<exists>t'. trees_of s' p = Some t' \<and>
    pt_root t' = replay (de_lower de) p (heard i p (ops @ replicate n (en, SysTick i)) rs) (pt_root t)"
  using followed[OF assms(1-20)] assms(21,22) by (auto simp: tracks_def replay_project)

text \<open>A daemon with a tree for the project \<open>w\<close>, and a file created in it.\<close>

definition demo_created :: file_event where
  "demo_created = (log_event 4 ''/w/a'')\<lparr>ev_type := Created\<rparr>"

definition demo_news :: "notif list" where
  "demo_news = [NEvent (demo_created\<lparr>ev_project_id := ''w''\<rparr>), NTreePatch ''w'' (PatchAdd ''/w/a'' False)]"

definition demo_follower :: system where
  "demo_follower = \<lparr>sy_daemon = demo_daemon\<lparr>dm_state := add_tree ''w'' (project_tree_new ''w'') (dm_state demo_daemon),
     dm_queue := [demo_created]\<rparr>, sy_conns = Map.empty\<rparr>"

lemma demo_follower_facts:
  "subs_of demo_follower = sub_manager_new" "sy_conns demo_follower = Map.empty" "dm_running (sy_daemon demo_follower)"
  "no_renames (sy_daemon demo_follower)" "dm_queue (sy_daemon demo_follower) = [demo_created]"
  "trees_of demo_follower ''w'' = Some (project_tree_new ''w'')"
  "ss_db (dm_state (sy_daemon demo_follower)) = ss_db (dm_state demo_daemon)"
  "ss_projects (dm_state (sy_daemon demo_follower)) = ss_projects (dm_state demo_daemon)"
  "ss_agent_tracker (dm_state (sy_daemon demo_follower)) = ss_agent_tracker (dm_state demo_daemon)"
  using demo_daemon_facts(1)
  by (simp_all add: demo_follower_def demo_daemon_def demo_state_def with_machine_id_def add_project_def add_tree_def no_renames_def
      demo_created_def log_event_def file_event_new_def)

lemma demo_created_handled:
  assumes "dm_running d" and "ss_projects (dm_state d) = ss_projects (dm_state demo_daemon)"
    and "ss_agent_tracker (dm_state d) = ss_agent_tracker (dm_state demo_daemon)"
    and "ss_trees (dm_state d) ''w'' = Some (project_tree_new ''w'')"
    and "dm_queue d = [demo_created]" and "ss_subscriptions (dm_state d) = demo_channel []"
  shows "\<exists>d'. daemon_step demo_daemon_env (demo_env, OpHandle) d = ([], [demo_created\<lparr>ev_project_id := ''w''\<rparr>], d') \<and>
    ss_subscriptions (dm_state d') = demo_channel demo_news"
proof -
  let ?e = "demo_created\<lparr>ev_project_id := ''w''\<rparr>"
  define st where "st = publish (NEvent ?e) (persist demo_env ?e (dm_state d))"
  have "resolve demo_env demo_daemon_env (dm_state d) demo_created
      = (resolve demo_env demo_daemon_env (dm_state demo_daemon) (log_event 4 ''/w/a''))\<lparr>ev_type := Created\<rparr>"
    by (simp add: resolve_def get_active_agent_def assms(2,3) demo_created_def Let_def split: option.split)
  then have r: "resolve demo_env demo_daemon_env (dm_state d) demo_created = ?e"
    by (simp add: demo_resolve demo_created_def)
  have "ev_project_id ?e = ''w''" by simp
  then have "snd (broadcast (NEvent ?e) (demo_channel [])) = demo_channel [NEvent ?e]"
    by (simp add: broadcast_def demo_channel_def channel_of_def set_channel_def channel_send_def)
  then have sub: "ss_subscriptions st = demo_channel [NEvent ?e]" using assms(6) by (simp add: st_def publish_def persist_def)
  have tree: "ss_trees st ''w'' = Some (project_tree_new ''w'')" using assms(4) by (simp add: st_def persist_def)
  have "fst (apply_event ascii_lower (project_tree_new ''w'') ?e) = Some (PatchAdd ''/w/a'' False)" by code_simp
  then obtain t' where "apply_event ascii_lower (project_tree_new ''w'') ?e = (Some (PatchAdd ''/w/a'' False), t')" by (metis prod.collapse)
  then have "update_tree demo_daemon_env ?e st = publish (NTreePatch ''w'' (PatchAdd ''/w/a'' False)) (add_tree ''w'' t' st)"
    by (simp add: update_tree_def tree demo_daemon_env_def)
  moreover have "snd (broadcast (NTreePatch ''w'' (PatchAdd ''/w/a'' False)) (demo_channel [NEvent ?e])) = demo_channel demo_news"
    by (simp add: broadcast_def demo_channel_def channel_of_def set_channel_def channel_send_def demo_news_def)
  ultimately have "ss_subscriptions (update_tree demo_daemon_env ?e st) = demo_channel demo_news"
    by (simp add: publish_def add_tree_def sub)
  then show ?thesis
    using assms(1,5) r by (simp add: handle_event_def Let_def st_def)
qed

text \<open>The connection \<open>0\<close> subscribes to \<open>w\<close>, the loop takes the event, the client sends an empty line, and three rounds follow.\<close>

definition demo_before :: "(env \<times> system_op) list" where
  "demo_before = [(demo_env, SysAccept 0), (demo_env, SysLine 0 ''s'')]"

definition demo_ops :: "(env \<times> system_op) list" where
  "demo_ops = [(demo_env, SysDaemon OpHandle), (demo_env, SysLine 0 [])]"

lemma demo_poll:
  assumes "ss_subscriptions st = demo_channel demo_news"
  shows "poll_round (st, [(''w'', 0, 0)]) = ([demo_news ! 0], st, [(''w'', 0, 1)])"
    and "poll_round (st, [(''w'', 0, Suc 0)]) = ([demo_news ! 1], st, [(''w'', 0, 2)])"
    and "poll_round (st, [(''w'', 0, 2)]) = ([], st, [(''w'', 0, 2)])"
  using assms by (simp_all add: poll_round_def receive_def try_recv_def demo_channel_def channel_of_def capacity_def demo_news_def)

lemma demo_line_quiet:
  "attributed_by demo_subscribe demo_env mid ''s'' = []"
proof -
  have "dec_request (json_request demo_subscription) = Inr demo_subscription"
    by (rule dec_request_json) (simp add: demo_subscription_def request_new_def)
  moreover have "str_trim ''s'' = ''s''" by code_simp
  ultimately show ?thesis
    by (simp add: attributed_by_def line_request_def demo_subscribe_def demo_subscription_def request_new_def)
qed

lemma demo_blank:
  "attributed_by pj en mid [] = []" "leaves_subscriptions pj []"
  "poll_round (st, c) = (ns, st', c') \<Longrightarrow> connection_line pj en [] (st, c) = (map WNotification ns, st', Some c')"
proof -
  have t: "str_trim [] = []" by code_simp
  then show "attributed_by pj en mid [] = []" "leaves_subscriptions pj []" by (simp_all add: attributed_by_def leaves_subscriptions_def)
  show "poll_round (st, c) = (ns, st', c') \<Longrightarrow> connection_line pj en [] (st, c) = (map WNotification ns, st', Some c')"
    by (simp add: connection_line_def handle_line_def t)
qed

lemma demo_followed:
  "\<exists>rs0 s rs s'. system_run demo_subscribe demo_daemon_env demo_before demo_follower = (rs0, s) \<and>
    system_run demo_subscribe demo_daemon_env (demo_ops @ replicate 3 (demo_env, SysTick 0)) s = (rs, s') \<and>
    sy_conns s 0 = Some [(''w'', 0, 0)] \<and> sy_conns s' 0 = Some [(''w'', 0, 2)] \<and> subs_of s = demo_channel [] \<and> subs_of s' = demo_channel demo_news \<and>
    trees_of s ''w'' = Some (project_tree_new ''w'') \<and>
    concat (map sp_sent (rs0 @ rs)) = [] \<and> \<Union> (set_option ` sp_pruned ` set (rs0 @ rs)) = {} \<and>
    length (written (rs0 @ rs)) = 1 \<and> written rs = [demo_created\<lparr>ev_project_id := ''w''\<rparr>] \<and>
    heard 0 ''w'' (demo_ops @ replicate 3 (demo_env, SysTick 0)) rs = demo_news"
proof -
  let ?st = "(dm_state (sy_daemon demo_follower))\<lparr>ss_subscriptions := demo_channel []\<rparr>"
  let ?d = "(sy_daemon demo_follower)\<lparr>dm_state := ?st\<rparr>"
  obtain ws where line: "connection_line demo_subscribe demo_env ''s'' (dm_state (sy_daemon demo_follower), []) = (ws, ?st, Some [(''w'', 0, 0)])"
    using demo_subscribed[OF demo_follower_facts(1)] by blast
  let ?s = "\<lparr>sy_daemon = ?d, sy_conns = [0 \<mapsto> [(''w'', 0, 0)]]\<rparr>"
  let ?first = "[quiet, quiet\<lparr>sp_attributed := [], sp_wire := ws\<rparr>]"
  have before: "system_run demo_subscribe demo_daemon_env demo_before demo_follower = (?first, ?s)"
    by (simp add: demo_before_def demo_follower_facts line demo_line_quiet set_state_def Let_def)
  obtain d where d: "daemon_step demo_daemon_env (demo_env, OpHandle) ?d = ([], [demo_created\<lparr>ev_project_id := ''w''\<rparr>], d)"
    "ss_subscriptions (dm_state d) = demo_channel demo_news"
    using demo_created_handled[of ?d] by (auto simp: demo_follower_facts)
  let ?tick = "\<lambda>ns. quiet\<lparr>sp_wire := map WNotification ns\<rparr>"
  let ?rs = "[quiet\<lparr>sp_sent := [], sp_recorded := [demo_created\<lparr>ev_project_id := ''w''\<rparr>]\<rparr>,
    quiet\<lparr>sp_attributed := [], sp_wire := [WNotification (demo_news ! 0)]\<rparr>, ?tick [demo_news ! 1], ?tick [], ?tick []]"
  let ?s' = "\<lparr>sy_daemon = d, sy_conns = [0 \<mapsto> [(''w'', 0, 2)]]\<rparr>"
  have three: "replicate 3 x = [x, x, x]" for x :: "env \<times> system_op" by (simp add: numeral_3_eq_3)
  have after: "system_run demo_subscribe demo_daemon_env (demo_ops @ replicate 3 (demo_env, SysTick 0)) ?s = (?rs, ?s')"
    by (simp add: demo_ops_def three d demo_poll demo_blank demo_blank(3)[OF demo_poll(1)[OF d(2)]] set_state_def Let_def
        del: daemon_step.simps)
  have "heard 0 ''w'' (demo_ops @ replicate 3 (demo_env, SysTick 0)) ?rs = demo_news"
    by (simp add: demo_ops_def three actor_def) (simp add: demo_news_def notifications_def)
  moreover have "written ?rs = [demo_created\<lparr>ev_project_id := ''w''\<rparr>]" "length (written (?first @ ?rs)) = 1" by (simp_all add: written_def)
  moreover have "concat (map sp_sent (?first @ ?rs)) = []" "\<Union> (set_option ` sp_pruned ` set (?first @ ?rs)) = {}" by (simp_all add: quiet_def)
  ultimately show ?thesis
    using demo_follower_facts(6) d(2)
    by (intro exI[of _ ?first] exI[of _ ?s] exI[of _ ?rs] exI[of _ ?s'] conjI before after) simp_all
qed

lemma demo_conditions:
  assumes "concat (map sp_sent rs) = []" and "\<Union> (set_option ` sp_pruned ` set rs) = {}" and "length (written rs) = 1"
  shows "holds_log byte_fmt {0..<256} (ss_db (dm_state (sy_daemon demo_follower))) [(1, log_event 5 ''a''), (2, log_event 9 ''b''), (3, log_event 7 ''a'')]"
    and "versions_ok (ss_db (dm_state (sy_daemon demo_follower)))"
    and "\<forall>(e, op) \<in> set demo_before \<union> set demo_ops \<union> {(demo_env, SysTick 0)}.
      en_fmt e = byte_fmt \<and> en_store_opens e \<and> (op = SysPrune \<or> en_now e \<in> {0..<256})"
    and "ev_timestamp ` set (dm_queue (sy_daemon demo_follower) @ concat (map sp_sent rs)) \<subseteq> {0..<256}"
    and "\<Union> (set_option ` sp_pruned ` set rs) \<subseteq> {0..<256}"
    and "key_seq (ss_db (dm_state (sy_daemon demo_follower))) + int (length (written rs)) \<le> max_i64"
    and "\<forall>(_, op) \<in> set demo_ops. listens demo_subscribe 0 op" and "\<forall>(_, op) \<in> set demo_ops. \<not> reprojects op"
proof -
  have "versions_ok (ss_db (dm_state demo_daemon))"
    by (simp add: versions_ok_def demo_daemon_def demo_state_def with_machine_id_def add_project_def log_db_new)
  then show "versions_ok (ss_db (dm_state (sy_daemon demo_follower)))" by (simp add: demo_follower_facts)
  have "ev_timestamp demo_created = 4" by (simp add: demo_created_def log_event_def file_event_new_def)
  then show "ev_timestamp ` set (dm_queue (sy_daemon demo_follower) @ concat (map sp_sent rs)) \<subseteq> {0..<256}"
    by (simp add: demo_follower_facts assms(1) del: concat_eq_Nil_conv)
  show "holds_log byte_fmt {0..<256} (ss_db (dm_state (sy_daemon demo_follower))) [(1, log_event 5 ''a''), (2, log_event 9 ''b''), (3, log_event 7 ''a'')]"
    by (simp add: demo_follower_facts demo_daemon_facts)
  show "key_seq (ss_db (dm_state (sy_daemon demo_follower))) + int (length (written rs)) \<le> max_i64"
    by (simp add: demo_follower_facts demo_daemon_facts assms(3) max_i64_def)
qed (use assms(2) in \<open>auto simp: demo_before_def demo_ops_def demo_env_def listens_def demo_blank reprojects_def changes_projects_def\<close>)

lemma demo_waits:
  "channel_sent \<lparr>sy_daemon = d, sy_conns = cs\<rparr> 0 = ch_sent (channel_of (ss_subscriptions (dm_state d)) 0)"
  "ch_sent (channel_of (demo_channel ns) 0) = ns" "sm_projects (demo_channel ns) ''w'' = Some 0" "length demo_news = 2"
  by (simp_all add: demo_channel_def channel_of_def demo_news_def)

theorem follower_hears_every_event_witness:
  "\<exists>rs0 s rs s'. system_run demo_subscribe demo_daemon_env demo_before demo_follower = (rs0, s) \<and>
    system_run demo_subscribe demo_daemon_env (demo_ops @ replicate 3 (demo_env, SysTick 0)) s = (rs, s') \<and>
    events_in (heard 0 ''w'' (demo_ops @ replicate 3 (demo_env, SysTick 0)) rs) = [demo_created\<lparr>ev_project_id := ''w''\<rparr>]"
proof -
  obtain rs0 s rs s' where d: "system_run demo_subscribe demo_daemon_env demo_before demo_follower = (rs0, s)"
    "system_run demo_subscribe demo_daemon_env (demo_ops @ replicate 3 (demo_env, SysTick 0)) s = (rs, s')"
    "sy_conns s 0 = Some [(''w'', 0, 0)]" "sy_conns s' 0 = Some [(''w'', 0, 2)]" "subs_of s = demo_channel []" "subs_of s' = demo_channel demo_news"
    "concat (map sp_sent (rs0 @ rs)) = []" "\<Union> (set_option ` sp_pruned ` set (rs0 @ rs)) = {}"
    "length (written (rs0 @ rs)) = 1" "written rs = [demo_created\<lparr>ev_project_id := ''w''\<rparr>]"
    using demo_followed by blast
  note c = demo_conditions[OF d(7-9)]
  have open_: "sy_conns s' 0 \<noteq> None" by (simp add: d(4))
  have "events_in (heard 0 ''w'' (demo_ops @ replicate 3 (demo_env, SysTick 0)) rs) = filter (\<lambda>e. ev_project_id e = ''w'') (written rs)"
    by (rule follower_hears_every_event[where k = 0, OF demo_follower_facts(1,2) byte_time_text_ok demo_follower_facts(3,4) c(1,2) d(1,2) c(3-6) d(3) _ c(7) open_])
      (simp_all add: d(5,6) demo_waits)
  then show ?thesis using d(1,2) by (auto simp: d(10))
qed

theorem follower_keeps_the_tree_witness:
  "\<exists>rs0 s rs s' t'. system_run demo_subscribe demo_daemon_env demo_before demo_follower = (rs0, s) \<and>
    system_run demo_subscribe demo_daemon_env (demo_ops @ replicate 3 (demo_env, SysTick 0)) s = (rs, s') \<and>
    trees_of s' ''w'' = Some t' \<and> lookup (pt_root t') [''w'', ''a''] = Some False \<and>
    pt_root t' = replay ascii_lower ''w'' (heard 0 ''w'' (demo_ops @ replicate 3 (demo_env, SysTick 0)) rs) (pt_root (project_tree_new ''w''))"
proof -
  obtain rs0 s rs s' where d: "system_run demo_subscribe demo_daemon_env demo_before demo_follower = (rs0, s)"
    "system_run demo_subscribe demo_daemon_env (demo_ops @ replicate 3 (demo_env, SysTick 0)) s = (rs, s')"
    "sy_conns s 0 = Some [(''w'', 0, 0)]" "sy_conns s' 0 = Some [(''w'', 0, 2)]" "subs_of s = demo_channel []" "subs_of s' = demo_channel demo_news"
    "concat (map sp_sent (rs0 @ rs)) = []" "\<Union> (set_option ` sp_pruned ` set (rs0 @ rs)) = {}"
    "length (written (rs0 @ rs)) = 1" "trees_of s ''w'' = Some (project_tree_new ''w'')"
    "heard 0 ''w'' (demo_ops @ replicate 3 (demo_env, SysTick 0)) rs = demo_news"
    using demo_followed by blast
  note c = demo_conditions[OF d(7-9)]
  have open_: "sy_conns s' 0 \<noteq> None" by (simp add: d(4))
  have "\<exists>t'. trees_of s' ''w'' = Some t' \<and> pt_root t' = replay (de_lower demo_daemon_env) ''w''
      (heard 0 ''w'' (demo_ops @ replicate 3 (demo_env, SysTick 0)) rs) (pt_root (project_tree_new ''w''))"
    by (rule follower_keeps_the_tree[where k = 0, OF demo_follower_facts(1,2) byte_time_text_ok demo_follower_facts(3,4) c(1,2) d(1,2) c(3-6) d(3) _ c(7) open_])
      (simp_all add: d(5,6,10) demo_waits c(8))
  moreover have "lookup (replay ascii_lower ''w'' demo_news (pt_root (project_tree_new ''w''))) [''w'', ''a''] = Some False"
    by code_simp
  ultimately show ?thesis using d(1,2) by (auto simp: d(11) demo_daemon_env_def)
qed

end
