(* ===== verification/Spec2Isabelle.thy ===== *)
theory Spec2Isabelle
  imports Core_Awareness Path_Filter Project_Tree Analysis_Cache Migrations Pruning Analyzer Protocol Sync
    Llm_Analyzer Pipeline Daemon Client Pid_File Commands Lifecycle Llm_Client Plugin_State
    Isolation Peers Directory_Scan Followers
begin

text \<open>
  ambient-fs watches project directories, logs every file event with its source, analyses the changed files and
  tells the clients that subscribed.  This library models the Rust workspace \<open>src/crates\<close> and the Tauri plugin
  \<open>src/integrations\<close>, and proves what makes the parts and their composition correct, or shows with a theorem
  where the code does something else than it means to.

  \<^bold>\<open>The program.\<close>  The watcher turns the notifications of the operating system into events; the daemon's
  loop takes an event, finds its project and its source, appends it to the log, publishes it, updates the
  project's tree and schedules an analysis.  The log, the registry of projects and the cache of analyses are SQLite
  files.  Clients talk JSON-RPC over a socket, peers gRPC; a gateway relays between machines, and a
  synchronisation task asks peers for events.  The command line opens the same files without the daemon.

  \<^bold>\<open>Data.\<close>  A Rust string, path or byte vector is a list of bytes (HOL's \<open>string\<close>); a struct is a record, an
  enum a datatype, a \<open>HashMap\<close> a map, or a list without repeated keys where its order shows; \<open>Result\<close> is a sum with
  the error left, \<open>Option\<close> is \<open>option\<close>.  Times and durations are integers of nanoseconds with chrono's range checks;
  \<open>u32\<close> is \<open>32 word\<close>, and casts to \<open>i32\<close>, \<open>i64\<close> and \<open>usize\<close> are written out where they show.  A panic is \<open>None\<close>
  or an error constructor of its own.  Mutable state is passed explicitly; tasks that run
  interleaved are sequences of steps or inductive step relations.

  \<^bold>\<open>Theories.\<close>
  \<^item> \<open>Prelude\<close>, \<open>Rust_Std\<close>: theorem collections, results, durations; strings, UTF-8, paths and decimal numbers
    of the standard library, with the laws that the components use.
  \<^item> \<open>Binary_Search\<close>, \<open>Tables\<close>: the locales \<open>position_search\<close> and \<open>keyed_table\<close> and the standard library's search.
  \<^item> \<open>Events\<close>, \<open>Core_Awareness\<close>, \<open>Path_Filter\<close>, \<open>File_Tree\<close>: the crate \<open>ambient-fs-core\<close> (\<open>event.rs\<close>, \<open>awareness.rs\<close>,
    \<open>analysis.rs\<close>, \<open>filter.rs\<close>, \<open>tree.rs\<close>).
  \<^item> \<open>Database\<close>, \<open>Event_Store\<close>, \<open>Analysis_Cache\<close>, \<open>Migrations\<close>, \<open>Pruning\<close>: the crate \<open>ambient-fs-store\<close> (\<open>store.rs\<close>,
    \<open>cache.rs\<close>, \<open>migrations.rs\<close>, \<open>prune.rs\<close>) on a record of tables.
  \<^item> \<open>Attribution\<close>, \<open>Watcher\<close>: the crate \<open>ambient-fs-watcher\<close> (\<open>attribution.rs\<close>, \<open>dedup.rs\<close>, \<open>watcher.rs\<close>).
  \<^item> \<open>Analyzer\<close>, \<open>Llm_Analyzer\<close>: the crate \<open>ambient-fs-analyzer\<close> (\<open>analyzer.rs\<close>, \<open>languages.rs\<close>, \<open>lib.rs\<close>,
    \<open>llm_analyzer.rs\<close>).
  \<^item> \<open>Json\<close>, \<open>Protocol\<close>, \<open>Subscriptions\<close>, \<open>Agents\<close>, \<open>Project_Tree\<close>, \<open>Server_State\<close>, \<open>Socket\<close>, \<open>Lifecycle\<close>, \<open>Grpc\<close>,
    \<open>Gateway\<close>, \<open>Sync\<close>, \<open>Pipeline\<close>, \<open>Llm_Client\<close>: the crate \<open>ambient-fs-server\<close> (\<open>protocol.rs\<close>, \<open>subscriptions.rs\<close>,
    \<open>agents.rs\<close>, \<open>tree_state.rs\<close>, \<open>state.rs\<close> and \<open>awareness.rs\<close>, \<open>socket.rs\<close>, \<open>grpc.rs\<close>, \<open>gateway.rs\<close>, \<open>sync.rs\<close>,
    \<open>pipeline.rs\<close>, \<open>llm.rs\<close>).
  \<^item> \<open>Daemon\<close>, \<open>Pid_File\<close>, \<open>Cli\<close>, \<open>Commands\<close>: the crate \<open>ambient-fsd\<close> (\<open>server.rs\<close>, \<open>daemon.rs\<close>, \<open>config.rs\<close> and \<open>main.rs\<close>).
  \<^item> \<open>System\<close>, \<open>Isolation\<close>: the daemon and its pruning task interleaved with any number of connections to its socket, and the invariants of its
    log and of its subscriptions.
  \<^item> \<open>Delivery\<close>, \<open>Followers\<close>: what each step publishes and how many receivers stay, and what a connection
    that listens to a project hears of it; \<open>Peers\<close>: the synchronisation task against the gRPC service of another daemon;
    \<open>Directory_Scan\<close>: which entries of a directory the scan of \<open>Project_Tree\<close> reaches.
  \<^item> \<open>Client\<close>: the crate \<open>ambient-fs-client\<close>; \<open>Plugin_State\<close>: the plugin \<open>tauri-plugin-ambient-fs\<close>.

  \<^bold>\<open>Interfaces.\<close>  \<open>text_form\<close> (printing and parsing of enums; interpreted for event types, sources and methods),
  \<open>position_search\<close> (a search that finds an insertion point; the standard library's binary search),
  \<open>path_tree\<close> (lookup, insertion and removal by path; the file tree), \<open>keyed_table\<close> (one row for each key; the
  analysis cache and the table of agents), \<open>event_log\<close> (appending and selecting; the event store), and
  \<open>bounded_feed\<close> (a buffer that keeps the newest; the broadcast channel and the gateway's buffer).  Every locale
  is interpreted on the model's definitions in the theory that provides them.

  \<^bold>\<open>What is shown.\<close>
  \<^item> Storage: a query gives exactly the matching events, the newest first, cut to the limit; a batch is inserted
    as a whole or not at all; ids are never used twice; a prune cycle deletes exactly the events before the
    cutoff; \<open>ensure_schema\<close> is idempotent; the cache answers the last write.
  \<^item> Trees: insertion and removal refine functions from paths to kinds, keep the order and uniqueness of
    names, and insertion one by one equals sorting; the scan stays within its limits, contains only what is on disk and
    passes the filter, and everything that is, unless a limit cuts it; a patch names exactly the change.
  \<^item> Watching and analysis: the watcher emits exactly the unfiltered paths in order; one index write explains one
    event; line and comment counts; a file is analysed once for each hash; the merge of the model's answer.
  \<^item> Server: every request is answered, in order, unless chrono panics on its \<open>since\<close>; an attribution is recorded
    and published; an awareness describes the newest event; a subscriber gets the notifications of its project;
    the messages survive the wire; agents follow the reports.
  \<^item> Daemon: every event of the watcher is recorded once, in order, and announced; restoring keeps exactly the projects
    whose directory exists and can be watched; what the command \<open>watch\<close> registered is restored under the same condition.  With clients at work the log grows only by what the loop
    recorded and clients attributed and loses only what a prune's cutoff excludes, and a client hears only of its projects; a connection that keeps listening, whatever else it asks, hears every
    event of its project once and in order, and the patches it hears keep a copy of the tree equal to the server's.  The last section of this theory composes the
    watcher, the daemon, the store, the connections of any clients, and the client that asks: what its call returns is the log.
  \<^item> Clients: an answer reaches the request that waits for it; notifications are read as the server wrote them.
  \<^item> Defects: shutting down never reaches the socket task, the daemon never analyses, the gateway relays
    nothing, a synchronisation between two daemons ends only when the peer's bridge does (by a queue of more than 256 or with the subscription), and never beyond 32 past events, a dropped notification stream strands requests, and the
    plugin's loop starves its commands.

  \<^bold>\<open>Parameters.\<close>  The records \<open>env\<close>, \<open>daemon_env\<close>, \<open>analysis_env\<close>, \<open>os\<close> and \<open>cli_env\<close> hold what the outside answers: the
  clock, chrono's text of a time, SQLite's order of equal keys, the file system, notify, the JSON syntax of
  serde_json, blake3, the Unicode tables, toml and the operating system.  Hypotheses on them are documented
  laws: \<open>time_text_ok\<close> (RFC 3339 texts read back and sort as the times they stand for), \<open>orders_desc\<close> (ORDER BY
  permutes and sorts), \<open>codec_keeps\<close> (lists read back from their JSON), \<open>fs_names_ok\<close> (the name of a
  directory entry is a single component).  Each is shown to hold for a concrete instance in a witness.

  \<^bold>\<open>Bounds.\<close>  Scans end by the code's limits (depth 20, 10000 entries), which are the recursion's measure; all
  other recursions are structural or on the rest of a text, so no definition has fuel of its own.  A channel's capacity (256
  for a subscription, 32 for a relay, 3000 for the gateway's buffer) is the code's.  The results on ids assume fewer than
  \<open>2^63\<close> rows, those on request numbers fewer than \<open>2^63\<close> requests.

  \<^bold>\<open>Steps.\<close>  Where the code awaits inside an operation, the model takes larger steps than the scheduler does: the
  loop records, publishes and updates the tree for an event in one step (\<open>server.rs\<close>), an attribution inserts and publishes
  in one (\<open>socket.rs\<close>), a line is handled with a poll round before it, \<open>register\<close> drops its receiver with the registration
  (\<open>gateway.rs\<close>), the paths of one notification share a clock reading (\<open>watcher.rs\<close>), and the plugin tracks a project at the
  call.  So other tasks never come between those parts, and only the relative order of log and notifications of
  different tasks is affected.  Counts of 32 bits wrap, as in a release build.  The end of the process after \<open>run\<close> returned is
  not a step.

  \<^bold>\<open>Not modelled.\<close>  Generated protobuf code and the transport of tonic and tokio's sockets below whole lines and
  messages; clap's parsing of arguments; logging; registration with Tauri; Windows and macOS branches; the
  end-to-end test programs.  The wording of serde's errors inside an error message is not serde's.  The store's file and \<open>analysis.db\<close> beside it are two files, so a store that is
  itself named \<open>analysis.db\<close> is outside.  A task that the code spawns to persist a watched project is done at once.
\<close>

section \<open>From the watched directory to the client\<close>

text \<open>What a connection writes, and the lines in which it reaches the client.\<close>

fun json_wire :: "env \<Rightarrow> wire \<Rightarrow> json" where
  "json_wire en (WResponse q) = json_response q"
| "json_wire en (WNotification n) = json_notif en n"

definition transmits :: "(string \<Rightarrow> string + json) \<Rightarrow> env \<Rightarrow> wire list \<Rightarrow> string list \<Rightarrow> bool" where
  "transmits pj en ws ls \<longleftrightarrow>
     list_all2 (\<lambda>w l. utf8_valid l \<and> str_trim l \<noteq> [] \<and> pj (str_trim l) = Inr (json_wire en w)) ws ls"

lemma answer_on_wire:
  assumes "i < 2 ^ 63" and "str_trim l \<noteq> []" and "pj (str_trim l) = Inr (json_wire en w)"
  shows "w = WNotification n \<Longrightarrow> answer_on pj i l = None"
    and "w = WResponse (response_result (IdNumber (int i)) v) \<Longrightarrow> answer_on pj i l = Some (Inr v)"
proof -
  show "w = WNotification n \<Longrightarrow> answer_on pj i l = None"
    using assms by (simp add: answer_on_def message_on_def json_notif_def response_id_def obj_get_def split_beta Let_def)
  show "w = WResponse (response_result (IdNumber (int i)) v) \<Longrightarrow> answer_on pj i l = Some (Inr v)"
    using assms by (simp add: answer_on_def message_on_def json_response_def response_result_def response_id_def obj_get_def
        answer_of_def Let_def)
qed

lemma transmits_answer:
  assumes "transmits pj en (map WNotification ns @ [WResponse (response_result (IdNumber (int i)) v)]) ls" and "i < 2 ^ 63"
  shows "first_some (answer_on pj i) ls = Some (Inr v)"
  using assms
proof (induction ns arbitrary: ls)
  case Nil
  then show ?case using answer_on_wire(2) by (auto simp: transmits_def list_all2_Cons1)
next
  case (Cons n ns)
  then obtain l ls' where l: "ls = l # ls'" "str_trim l \<noteq> []" "pj (str_trim l) = Inr (json_wire en (WNotification n))"
    "transmits pj en (map WNotification ns @ [WResponse (response_result (IdNumber (int i)) v)]) ls'"
    by (auto simp: transmits_def list_all2_Cons1)
  have "answer_on pj i l = None" by (rule answer_on_wire(1)[of i l pj en "WNotification n" n, OF Cons.prems(2) l(2,3) HOL.refl])
  then show ?case using Cons.IH[OF l(4) Cons.prems(2)] l(1) by simp
qed

lemma transmits_utf8: "transmits pj en ws ls \<Longrightarrow> list_all utf8_valid ls"
  unfolding transmits_def by (induction rule: list_all2_induct) simp_all

text \<open>
  C4. What the watcher saw is what a client reads: after any interleaving of notify's events, the daemon's steps and its
  prunes with whatever any number of connections do, every event that the watcher sent is recorded or still queued,
  once and in order; and when a client then writes its query for a project, or for all, on its connection and reads the
  lines that come back, notifications among them, its call returns exactly the events of that project in the log, which
  are those that were there before, those that the loop recorded and those that clients attributed, less those that a
  prune's cutoff excludes, the newest first.
\<close>

theorem recorded_events_reach_clients:
  assumes "env_ok en T" and "en_store_opens en" and "\<forall>t \<in> T. tparse (en_json_time en t) = Inr t"
    and "dm_running (sy_daemon s)" and "holds_log (en_fmt en) T (ss_db (dm_state (sy_daemon s))) L"
    and "versions_ok (ss_db (dm_state (sy_daemon s)))"
    and "\<forall>(e, op) \<in> set ops. en_fmt e = en_fmt en \<and> en_store_opens e \<and> (op = SysPrune \<or> en_now e \<in> T)"
    and "system_run pj de ops s = (rs, s')"
    and "ev_timestamp ` set (dm_queue (sy_daemon s) @ concat (map sp_sent rs)) \<subseteq> T"
    and "\<Union> (set_option ` sp_pruned ` set rs) \<subseteq> T"
    and "key_seq (ss_db (dm_state (sy_daemon s))) + int (length (written rs)) \<le> max_i64"
    and "f = \<lparr>cf_project_id = pid, cf_since = None, cf_source = None, cf_limit = None\<rparr>"
    and "cl_reading c" and "cl_receiver c \<noteq> Dropped" and "length (cl_notifs c) \<le> cl_buffer c" and "cl_next_id c < 2 ^ 63"
    and "send_request (fst (call_message (CallQueryEvents f))) (snd (call_message (CallQueryEvents f))) None c = (Inr (i, msg), c1)"
    and "str_trim l \<noteq> []" and "pj (str_trim l) = Inr msg" and "sy_conns s' j = Some conn"
    and "system_step pj de (en, SysLine j l) s' = (r, s'')" and "transmits pj en (sp_wire r) ls"
  shows "map untouched (concat (map sp_recorded rs) @ dm_queue (sy_daemon s'))
      = map untouched (dm_queue (sy_daemon s) @ concat (map sp_sent rs)) \<and>
    (\<exists>es. mset es = mset (filter (\<lambda>e. pid \<in> {None, Some (ev_project_id e)})
        (map snd (log_after rs (key_seq (ss_db (dm_state (sy_daemon s)))) L))) \<and> newest_first es \<and>
      map_option (finish_call tparse (CallQueryEvents f)) (await_reply i (fold (read_line pj) ls c1)) = Some (Inr (GotEvents es)))"
proof -
  let ?log = "log_after rs (key_seq (ss_db (dm_state (sy_daemon s)))) L"
  have "time_text_ok (en_fmt en) (en_parse en) T" using assms(1) by (simp add: env_ok_def)
  from system_run_kept[OF this assms(4-11)] have kept:
    "holds_log (en_fmt en) T (ss_db (dm_state (sy_daemon s'))) ?log"
    "map untouched (concat (map sp_recorded rs) @ dm_queue (sy_daemon s')) = map untouched (dm_queue (sy_daemon s) @ concat (map sp_sent rs))"
    by (simp_all add: step_kept_def)
  obtain ns st1 conn1 where round: "poll_round (dm_state (sy_daemon s'), conn) = (ns, st1, conn1)" by (metis prod_cases3)
  have log1: "holds_log (en_fmt en) T (ss_db st1) ?log"
    using poll_round_log[OF round] kept(1) holds_log_events(1)[of "ss_db st1" "ss_db (dm_state (sy_daemon s'))"] by (simp add: same_log_def)
  have f: "f = \<lparr>cf_project_id = pid, cf_since = None, cf_source = map_option source_as_str None, cf_limit = None\<rparr>"
    using assms(12) by simp
  have match: "event_matches (store_filter pid None None) = (\<lambda>e. pid \<in> {None, Some (ev_project_id e)})"
    by (cases pid) (auto simp: event_matches_def store_filter_def event_filter_new_def)
  from query_served[OF assms(1) log1 assms(2,3) f _ assms(16) prod.collapse[symmetric] assms(17), of conn1] obtain rq v st2 es where
    q: "dec_request msg = Inr rq" "handle_request en rq (st1, conn1) = (Some (response_result (IdNumber (int i)) v), st2, conn1)"
      "mset es = mset (filter (\<lambda>e. pid \<in> {None, Some (ev_project_id e)}) (map snd ?log))" "newest_first es"
      "finish_call tparse (CallQueryEvents f) (Inr v) = Inr (GotEvents es)"
    unfolding match by auto
  have "connection_line pj en l (dm_state (sy_daemon s'), conn)
      = (map WNotification ns @ [WResponse (response_result (IdNumber (int i)) v)], st2, Some conn1)"
    using assms(18,19) q(1,2) by (simp add: connection_line_def round handle_line_def Let_def)
  then have "sp_wire r = map WNotification ns @ [WResponse (response_result (IdNumber (int i)) v)]"
    using assms(20,21) by (auto simp: Let_def)
  moreover have c1: "cl_pending c1 i" "i < 2 ^ 63" "reader_live c1 ls"
    using assms(13-17) transmits_utf8[OF assms(22)] by (auto simp: send_request_def reader_live_def Let_def)
  ultimately have "first_some (answer_on pj i) ls = Some (Inr v)" using assms(22) transmits_answer by simp
  then have "await_reply i (fold (read_line pj) ls c1) = Some (Inr v)"
    using read_lines_live[OF c1(3), of pj i] c1(1) by (simp add: await_reply_def)
  then show ?thesis using kept(2) q(3-5) by auto
qed

text \<open>The connection \<open>0\<close> listens to the project \<open>w\<close>, and an event waits in the loop's queue.\<close>

definition demo_listening :: system where
  "demo_listening = \<lparr>sy_daemon = demo_daemon\<lparr>dm_state := (dm_state demo_daemon)\<lparr>ss_subscriptions := demo_channel []\<rparr>\<rparr>,
     sy_conns = [0 \<mapsto> [(''w'', 0, 0)]]\<rparr>"

lemma demo_listening_facts:
  "dm_running (sy_daemon demo_listening)" "versions_ok (ss_db (dm_state (sy_daemon demo_listening)))"
  "holds_log (en_fmt demo_env) {0..<256} (ss_db (dm_state (sy_daemon demo_listening)))
    [(1, log_event 5 ''a''), (2, log_event 9 ''b''), (3, log_event 7 ''a'')]"
  "ev_timestamp ` set (dm_queue (sy_daemon demo_listening)) \<subseteq> {0..<256}" "key_seq (ss_db (dm_state (sy_daemon demo_listening))) = 3"
proof -
  have "versions_ok (ss_db (dm_state demo_daemon))"
    by (simp add: versions_ok_def demo_daemon_def demo_state_def with_machine_id_def add_project_def log_db_new)
  then show "versions_ok (ss_db (dm_state (sy_daemon demo_listening)))" by (simp add: demo_listening_def)
  have "en_fmt demo_env = byte_fmt" by (simp add: demo_env_def)
  then show "holds_log (en_fmt demo_env) {0..<256} (ss_db (dm_state (sy_daemon demo_listening)))
      [(1, log_event 5 ''a''), (2, log_event 9 ''b''), (3, log_event 7 ''a'')]"
    using demo_daemon_facts(3) by (simp add: demo_listening_def)
qed (simp_all add: demo_listening_def demo_daemon_facts log_event_def file_event_new_def)

lemma demo_heard_and_asked:
  fixes e :: file_event
  defines "e \<equiv> (log_event 4 ''/w/a'')\<lparr>ev_project_id := ''w''\<rparr>"
  assumes "f = \<lparr>cf_project_id = Some ''w'', cf_since = None, cf_source = None, cf_limit = None\<rparr>"
    and "send_request (fst (call_message (CallQueryEvents f))) (snd (call_message (CallQueryEvents f))) None demo_client = (Inr (1, msg), c1)"
  shows "\<exists>pj r1 s' r s''. system_run pj demo_daemon_env [(demo_env, SysDaemon OpHandle)] demo_listening = ([r1], s') \<and>
    r1 = quiet\<lparr>sp_sent := [], sp_recorded := [e]\<rparr> \<and> sy_conns s' 0 = Some [(''w'', 0, 0)] \<and> pj ''q'' = Inr msg \<and>
    system_step pj demo_daemon_env (demo_env, SysLine 0 ''q'') s' = (r, s'') \<and>
    (\<exists>q. sp_wire r = [WNotification (NEvent e), WResponse q]) \<and> transmits pj demo_env (sp_wire r) [''n'', ''x'']"
proof -
  have trim: "str_trim ''q'' = ''q''" "str_trim ''n'' = ''n''" "str_trim ''x'' = ''x''" "utf8_valid ''n''" "utf8_valid ''x''" by code_simp+
  have fresh: "ss_trees (dm_state (sy_daemon demo_listening)) = Map.empty"
    by (simp add: demo_listening_def demo_daemon_def demo_state_def with_machine_id_def add_project_def)
  obtain d where d: "daemon_step demo_daemon_env (demo_env, OpHandle) (sy_daemon demo_listening) = ([], [e], d)"
    "ss_subscriptions (dm_state d) = demo_channel [NEvent e]"
    using demo_published[of "sy_daemon demo_listening" "[log_event 6 ''/x'']"] fresh demo_daemon_facts(1,2)
    by (auto simp: demo_listening_def e_def)
  let ?s = "demo_listening\<lparr>sy_daemon := d\<rparr>"
  have run: "system_run pj demo_daemon_env [(demo_env, SysDaemon OpHandle)] demo_listening
      = ([quiet\<lparr>sp_sent := [], sp_recorded := [e]\<rparr>], ?s)" for pj
    by (simp add: d(1) Let_def del: daemon_step.simps)
  have round: "poll_round (dm_state d, [(''w'', 0, 0)]) = ([NEvent e], dm_state d, [(''w'', 0, Suc 0)])"
    by (simp add: poll_round_def d(2) receive_def try_recv_def demo_channel_def channel_of_def capacity_def)
  have env: "time_text_ok (en_fmt demo_env) (en_parse demo_env) {0..<256}" "en_store_opens demo_env"
    "\<forall>t \<in> {0..<256}. byte_parse (en_json_time demo_env t) = Inr t"
    using byte_time_text_ok by (auto simp: demo_env_def time_text_ok_def)
  obtain L where log: "holds_log (en_fmt demo_env) {0..<256} (ss_db (dm_state d)) L"
    using system_run_kept[OF env(1) demo_listening_facts(1,3,2) _ run] demo_listening_facts(4,5) env(2)
    by (auto simp: step_kept_def demo_env_def written_def max_i64_def)
  have f: "f = \<lparr>cf_project_id = Some ''w'', cf_since = None, cf_source = map_option source_as_str None, cf_limit = None\<rparr>"
    using assms(2) by simp
  obtain rq v st2 where q: "dec_request msg = Inr rq"
    "handle_request demo_env rq (dm_state d, [(''w'', 0, Suc 0)]) = (Some (response_result (IdNumber 1) v), st2, [(''w'', 0, Suc 0)])"
    using query_served[OF demo_env_ok log env(2,3) f _ _ prod.collapse[symmetric] assms(3), of "[(''w'', 0, Suc 0)]"] by auto
  let ?q = "response_result (IdNumber 1) v"
  define pj where "pj = (\<lambda>t. if t = ''q'' then Inr msg else if t = ''n'' then Inr (json_notif demo_env (NEvent e)) else Inr (json_response ?q) :: string + json)"
  have "connection_line pj demo_env ''q'' (dm_state d, [(''w'', 0, 0)]) = ([WNotification (NEvent e), WResponse ?q], st2, Some [(''w'', 0, Suc 0)])"
    by (simp add: connection_line_def round handle_line_def trim pj_def q)
  then obtain r s'' where step: "system_step pj demo_daemon_env (demo_env, SysLine 0 ''q'') ?s = (r, s'')"
    "sp_wire r = [WNotification (NEvent e), WResponse ?q]"
    by (simp add: demo_listening_def Let_def)
  have "transmits pj demo_env (sp_wire r) [''n'', ''x'']"
    unfolding step(2) by (simp add: transmits_def trim pj_def)
  then show ?thesis using run[of pj] step
    by (intro exI[of _ pj] exI[of _ "quiet\<lparr>sp_sent := [], sp_recorded := [e]\<rparr>"] exI[of _ ?s] exI[of _ r] exI[of _ s''])
      (simp add: demo_listening_def pj_def del: daemon_step.simps)
qed

theorem recorded_events_reach_clients_witness:
  "\<exists>e pj r1 s' r s'' msg c1. e = (log_event 4 ''/w/a'')\<lparr>ev_project_id := ''w''\<rparr> \<and>
     system_run pj demo_daemon_env [(demo_env, SysDaemon OpHandle)] demo_listening = ([r1], s') \<and> pj ''q'' = Inr msg \<and>
     system_step pj demo_daemon_env (demo_env, SysLine 0 ''q'') s' = (r, s'') \<and>
     (\<exists>q. sp_wire r = [WNotification (NEvent e), WResponse q]) \<and>
     map_option (finish_call byte_parse (CallQueryEvents (client_filter.make (Some ''w'') None None None)))
       (await_reply 1 (fold (read_line pj) [''n'', ''x''] c1)) = Some (Inr (GotEvents [e]))"
proof -
  let ?e = "(log_event 4 ''/w/a'')\<lparr>ev_project_id := ''w''\<rparr>"
  let ?f = "client_filter.make (Some ''w'') None None None"
  have f: "?f = \<lparr>cf_project_id = Some ''w'', cf_since = None, cf_source = None, cf_limit = None\<rparr>"
    by (simp add: client_filter.make_def)
  obtain c1 msg where sent: "send_request (fst (call_message (CallQueryEvents ?f))) (snd (call_message (CallQueryEvents ?f)))
      None demo_client = (Inr (1, msg), c1)"
    by (simp add: send_request_def Let_def)
  from demo_heard_and_asked[OF f sent] obtain pj r1 s' r s'' where
    run: "system_run pj demo_daemon_env [(demo_env, SysDaemon OpHandle)] demo_listening = ([r1], s')"
    and d: "r1 = quiet\<lparr>sp_sent := [], sp_recorded := [?e]\<rparr>" "sy_conns s' 0 = Some [(''w'', 0, 0)]" "pj ''q'' = Inr msg"
      "system_step pj demo_daemon_env (demo_env, SysLine 0 ''q'') s' = (r, s'')"
      "\<exists>q. sp_wire r = [WNotification (NEvent ?e), WResponse q]" "transmits pj demo_env (sp_wire r) [''n'', ''x'']"
    by blast
  have en: "en_store_opens demo_env" "\<forall>t \<in> {0..<256}. byte_parse (en_json_time demo_env t) = Inr t" "en_now demo_env \<in> {0..<256}"
    using byte_time_text_ok by (auto simp: demo_env_def time_text_ok_def)
  then have steps: "\<forall>(e, op) \<in> set [(demo_env, SysDaemon OpHandle)].
      en_fmt e = en_fmt demo_env \<and> en_store_opens e \<and> (op = SysPrune \<or> en_now e \<in> {0..<256})" by simp
  have "str_trim ''q'' = ''q''" by code_simp
  then have q: "str_trim ''q'' \<noteq> []" "pj (str_trim ''q'') = Inr msg" using d(3) by simp_all
  have "\<exists>es. mset es = {#?e#} \<and> map_option (finish_call byte_parse (CallQueryEvents ?f))
      (await_reply 1 (fold (read_line pj) [''n'', ''x''] c1)) = Some (Inr (GotEvents es))"
    using recorded_events_reach_clients[OF demo_env_ok en(1,2) demo_listening_facts(1,3,2) steps run _ _ _ f _ _ _ _ sent q d(2,4,6)]
      demo_listening_facts(4,5)
    by (auto simp: d(1) written_def quiet_def max_i64_def log_event_def file_event_new_def kept_by_def)
  then have "map_option (finish_call byte_parse (CallQueryEvents ?f)) (await_reply 1 (fold (read_line pj) [''n'', ''x''] c1))
      = Some (Inr (GotEvents [?e]))" by auto
  with run d show ?thesis by blast
qed

end
